(* ===== verification/Prelude.thy ===== *)
theory Prelude
  imports Main "HOL-Library.Word" "HOL-Library.Sublist"
begin

unbundle bit_operations_syntax

text \<open>
  Shared vocabulary of the development: bytes and Go strings (byte sequences), Go error
  values, results, the functions of the packages \<^verbatim>\<open>strings\<close>, \<^verbatim>\<open>strconv\<close>
  and \<^verbatim>\<open>fmt\<close> that the sources call, and the generic lemmas on them. Nothing here is
  specific to one source file.

  Conventions. A Go \<^verbatim>\<open>string\<close> is an Isabelle \<^typ>\<open>string\<close> whose characters are
  bytes. A Go \<^verbatim>\<open>(T, error)\<close> result is \<open>goerror + 'a\<close> with the error on the left.
  A Go \<^verbatim>\<open>error\<close> result is \<open>goerror option\<close>. A Go \<^verbatim>\<open>(T, bool)\<close> lookup is
  \<open>'a option\<close>. Instants and durations are nanoseconds in \<^typ>\<open>int\<close>.
\<close>

named_theorems byte_simps "conversions between bytes and characters"
named_theorems go_string_simps "behaviour of the Go string functions"

section \<open>Bytes and strings\<close>

type_synonym byte = "8 word"
type_synonym time = int
type_synonym duration = int

definition byte_of_char :: "char \<Rightarrow> byte" where
  "byte_of_char c = of_nat (of_char c)"

definition char_of_byte :: "byte \<Rightarrow> char" where
  "char_of_byte b = char_of (unat b)"

definition str_bytes :: "string \<Rightarrow> byte list" where
  "str_bytes s = map byte_of_char s"

definition bytes_str :: "byte list \<Rightarrow> string" where
  "bytes_str bs = map char_of_byte bs"

section \<open>Errors\<close>

text \<open>
  The sentinel errors of the module and of the standard library that some code tests for with
  \<^verbatim>\<open>errors.Is\<close>. A Go error is its message together with the sentinels reachable by
  unwrapping it. Where code panics there is no result; it is modelled as an error that is marked
  with \<open>RuntimePanic\<close>, which the callers' wrapping keeps visible; \<open>NotReturned\<close> marks the result of a
  call that has not returned.
\<close>

datatype sentinel =
    ErrMalformedFrame
  | ErrHandshakeTimeout | ErrDenied | ErrBackendUnavailable | ErrRateLimited
  | ErrMalformedRequest | ErrClientClosed | ErrInvalidServiceName
  | ErrMessageTooLarge | ErrIncompleteMessage
  | IoEOF | IoErrUnexpectedEOF | NetErrClosed
  | CtxCanceled | CtxDeadlineExceeded | OsErrExist | FlagErrHelp
  | RuntimePanic | NotReturned

datatype goerror = GoError (emsg: string) (echain: "sentinel list")

type_synonym 'a result = "goerror + 'a"

definition errors_New :: "string \<Rightarrow> goerror" where
  "errors_New m = GoError m []"

text \<open>\<^verbatim>\<open>fmt.Errorf\<close> with one \<^verbatim>\<open>%w\<close>: text before, the wrapped error, text after.\<close>

definition errorf_w :: "string \<Rightarrow> goerror \<Rightarrow> string \<Rightarrow> goerror" where
  "errorf_w pre e post = GoError (pre @ emsg e @ post) (echain e)"

definition errors_Is :: "goerror \<Rightarrow> sentinel \<Rightarrow> bool" where
  "errors_Is e s = List.member (echain e) s"

definition io_EOF :: goerror where
  "io_EOF = GoError ''EOF'' [IoEOF]"

definition io_ErrUnexpectedEOF :: goerror where
  "io_ErrUnexpectedEOF = GoError ''unexpected EOF'' [IoErrUnexpectedEOF]"

definition net_ErrClosed :: goerror where
  "net_ErrClosed = GoError ''use of closed network connection'' [NetErrClosed]"

text \<open>Sequencing of fallible steps: an early return of the error.\<close>

definition andThen :: "'a result \<Rightarrow> ('a \<Rightarrow> 'b result) \<Rightarrow> 'b result" where
  "andThen r f = (case r of Inl e \<Rightarrow> Inl e | Inr x \<Rightarrow> f x)"

definition isOk :: "'a result \<Rightarrow> bool" where
  "isOk r = (case r of Inl _ \<Rightarrow> False | Inr _ \<Rightarrow> True)"

text \<open>\<^verbatim>\<open>if err != nil { return ..., wrap(err) }\<close>\<close>

definition mapErr :: "(goerror \<Rightarrow> goerror) \<Rightarrow> 'a result \<Rightarrow> 'a result" where
  "mapErr w r = (case r of Inl e \<Rightarrow> Inl (w e) | Inr x \<Rightarrow> Inr x)"

section \<open>Package strings\<close>

text \<open>\<^verbatim>\<open>strings.IndexByte\<close>: the offset of the first occurrence of a byte.\<close>

fun index_byte :: "string \<Rightarrow> char \<Rightarrow> nat option" where
  "index_byte [] c = None"
| "index_byte (x # xs) c = (if x = c then Some 0 else map_option Suc (index_byte xs c))"

text \<open>\<^verbatim>\<open>bytealg.LastIndexByteString\<close>: the offset of the last occurrence of a byte.\<close>

fun last_index_byte :: "string \<Rightarrow> char \<Rightarrow> nat option" where
  "last_index_byte [] c = None"
| "last_index_byte (x # xs) c =
     (case last_index_byte xs c of
        Some i \<Rightarrow> Some (Suc i)
      | None \<Rightarrow> if x = c then Some 0 else None)"

fun has_prefix :: "string \<Rightarrow> string \<Rightarrow> bool" where
  "has_prefix s [] = True"
| "has_prefix [] (p # ps) = False"
| "has_prefix (x # xs) (p # ps) = (x = p \<and> has_prefix xs ps)"

text \<open>\<^verbatim>\<open>strings.Index\<close>, \<^verbatim>\<open>strings.LastIndex\<close> and \<^verbatim>\<open>strings.Contains\<close>.\<close>

fun str_index :: "string \<Rightarrow> string \<Rightarrow> nat option" where
  "str_index [] sub = (if sub = [] then Some 0 else None)"
| "str_index (x # xs) sub =
     (if has_prefix (x # xs) sub then Some 0 else map_option Suc (str_index xs sub))"

fun str_last_index :: "string \<Rightarrow> string \<Rightarrow> nat option" where
  "str_last_index [] sub = (if sub = [] then Some 0 else None)"
| "str_last_index (x # xs) sub =
     (case str_last_index xs sub of
        Some i \<Rightarrow> Some (Suc i)
      | None \<Rightarrow> if has_prefix (x # xs) sub then Some 0 else None)"

definition str_contains :: "string \<Rightarrow> string \<Rightarrow> bool" where
  "str_contains s sub = (str_index s sub \<noteq> None)"

text \<open>
  \<^verbatim>\<open>strings.ReplaceAll\<close> for a non-empty pattern: occurrences are found from the left and do
  not overlap. Both callers pass a non-empty pattern or a pattern for which the Go function is
  given explicitly: with an empty pattern Go inserts the replacement around every character.
\<close>

fun intersperse_all :: "string \<Rightarrow> string \<Rightarrow> string" where
  "intersperse_all new [] = new"
| "intersperse_all new (x # xs) = new @ x # intersperse_all new xs"

fun replace_nonempty :: "string \<Rightarrow> string \<Rightarrow> nat \<Rightarrow> string \<Rightarrow> string" where
  "replace_nonempty old new n [] = []"
| "replace_nonempty old new (Suc n) (x # xs) = replace_nonempty old new n xs"
| "replace_nonempty old new 0 (x # xs) =
     (if has_prefix (x # xs) old then new @ replace_nonempty old new (length old - 1) xs
      else x # replace_nonempty old new 0 xs)"

definition replace_all :: "string \<Rightarrow> string \<Rightarrow> string \<Rightarrow> string" where
  "replace_all s old new =
     (if old = [] then intersperse_all new s else replace_nonempty old new 0 s)"

text \<open>\<^verbatim>\<open>strings.Cut\<close> at a one-byte separator.\<close>

definition str_cut :: "string \<Rightarrow> char \<Rightarrow> string \<times> string \<times> bool" where
  "str_cut s c = (case index_byte s c of
      Some i \<Rightarrow> (take i s, drop (Suc i) s, True)
    | None \<Rightarrow> (s, [], False))"

text \<open>
  \<^verbatim>\<open>strings.TrimSpace\<close>: the runes with the property White Space, each as its UTF-8 bytes, are
  stripped from the front and, read backwards, from the end.
\<close>

definition space_runes :: "string list" where
  "space_runes = [[CHR '' ''], [CHR 0x09], [CHR 0x0A], [CHR 0x0B], [CHR 0x0C], [CHR 0x0D],
     [CHR 0xC2, CHR 0x85], [CHR 0xC2, CHR 0xA0], [CHR 0xE1, CHR 0x9A, CHR 0x80]]
   @ map (\<lambda>c. [CHR 0xE2, CHR 0x80, c])
       [CHR 0x80, CHR 0x81, CHR 0x82, CHR 0x83, CHR 0x84, CHR 0x85, CHR 0x86, CHR 0x87, CHR 0x88, CHR 0x89, CHR 0x8A,
        CHR 0xA8, CHR 0xA9, CHR 0xAF]
   @ [[CHR 0xE2, CHR 0x81, CHR 0x9F], [CHR 0xE3, CHR 0x80, CHR 0x80]]"

function drop_runes :: "string list \<Rightarrow> string \<Rightarrow> string" where
  "drop_runes rs s =
     (case find (\<lambda>r. r \<noteq> [] \<and> has_prefix s r) rs of
        None \<Rightarrow> s
      | Some r \<Rightarrow> drop_runes rs (drop (length r) s))"
  by pat_completeness auto

termination drop_runes
  by (relation "measure (\<lambda>(rs, s). length s)") (auto simp: find_Some_iff elim: has_prefix.elims)

declare drop_runes.simps [simp del]

definition trim_space :: "string \<Rightarrow> string" where
  "trim_space s = rev (drop_runes (map rev space_runes) (rev (drop_runes space_runes s)))"

fun str_join :: "string list \<Rightarrow> string \<Rightarrow> string" where
  "str_join [] sep = []"
| "str_join [x] sep = x"
| "str_join (x # y # ys) sep = x @ sep @ str_join (y # ys) sep"

text \<open>The slice expression \<^verbatim>\<open>s[i:j]\<close>: no result where it panics.\<close>

definition str_slice :: "string \<Rightarrow> nat \<Rightarrow> nat \<Rightarrow> string option" where
  "str_slice s i j = (if i \<le> j \<and> j \<le> length s then Some (drop i (take j s)) else None)"

section \<open>Numbers as text\<close>

definition digit_char :: "nat \<Rightarrow> char" where
  "digit_char d = char_of (48 + d)"

text \<open>\<^verbatim>\<open>%d\<close> of a non-negative number.\<close>

fun show_nat :: "nat \<Rightarrow> string" where
  "show_nat n = (if n < 10 then [digit_char n] else show_nat (n div 10) @ [digit_char (n mod 10)])"

declare show_nat.simps [simp del]

definition show_int :: "int \<Rightarrow> string" where
  "show_int i = (if i < 0 then CHR ''-'' # show_nat (nat (- i)) else show_nat (nat i))"

definition hex_char :: "nat \<Rightarrow> char" where
  "hex_char d = (if d < 10 then char_of (48 + d) else char_of (87 + d))"

text \<open>\<^verbatim>\<open>%02x\<close> of a byte, lower case.\<close>

definition show_hex_byte :: "byte \<Rightarrow> string" where
  "show_hex_byte b = [hex_char (unat b div 16), hex_char (unat b mod 16)]"

definition is_digit_char :: "char \<Rightarrow> bool" where
  "is_digit_char c = (48 \<le> (of_char c :: nat) \<and> (of_char c :: nat) \<le> 57)"

definition is_lower :: "char \<Rightarrow> bool" where
  "is_lower c = (97 \<le> (of_char c :: nat) \<and> (of_char c :: nat) \<le> 122)"

text \<open>The value of a string of decimal digits, and \<^verbatim>\<open>strconv.ParseUint(s, 10, 16)\<close>.\<close>

definition decimal_value :: "string \<Rightarrow> nat" where
  "decimal_value s = foldl (\<lambda>n c. 10 * n + (of_char c - 48)) 0 s"

definition parse_uint16 :: "string \<Rightarrow> nat option" where
  "parse_uint16 s =
     (if s = [] \<or> \<not> list_all is_digit_char s then None
      else if decimal_value s \<le> 65535 then Some (decimal_value s) else None)"

section \<open>Generic lemmas\<close>

subsection \<open>Bytes\<close>

lemma of_char_less_256: "(of_char c :: nat) < 256"
proof -
  have "(of_char c :: nat) mod 256 < 256" by simp
  then show ?thesis by (simp only: of_char_mod_256)
qed

lemma char_of_byte_of_char [simp, byte_simps]: "char_of_byte (byte_of_char c) = c"
  using of_char_less_256 [of c]
  by (simp add: char_of_byte_def byte_of_char_def unat_of_nat)

lemma byte_of_char_of_byte [simp, byte_simps]: "byte_of_char (char_of_byte b) = b"
proof -
  have "unat b < 256" using unsigned_less [of b, where 'a = nat] by simp
  then show ?thesis by (simp add: char_of_byte_def byte_of_char_def)
qed

lemma bytes_str_bytes [simp, byte_simps]: "bytes_str (str_bytes s) = s"
  by (simp add: bytes_str_def str_bytes_def comp_def)

lemma str_bytes_str [simp, byte_simps]: "str_bytes (bytes_str bs) = bs"
  by (simp add: bytes_str_def str_bytes_def comp_def)

lemma length_str_bytes [simp]: "length (str_bytes s) = length s"
  by (simp add: str_bytes_def)

lemma length_bytes_str [simp]: "length (bytes_str bs) = length bs"
  by (simp add: bytes_str_def)

lemma bytes_str_inject [simp]: "bytes_str a = bytes_str b \<longleftrightarrow> a = b"
  by (metis str_bytes_str)

lemma str_bytes_inject [simp]: "str_bytes a = str_bytes b \<longleftrightarrow> a = b"
  by (metis bytes_str_bytes)

lemma unat_of_nat_byte: "n < 256 \<Longrightarrow> unat (of_nat n :: byte) = n"
  by (simp add: unat_of_nat)

subsection \<open>White space\<close>

text \<open>The bytes that occur in a white space rune, or in any other rune outside ASCII.\<close>

definition is_space_byte :: "char \<Rightarrow> bool" where
  "is_space_byte c = ((of_char c :: nat) = 32 \<or> 9 \<le> (of_char c :: nat) \<and> (of_char c :: nat) \<le> 13 \<or> 128 \<le> (of_char c :: nat))"

lemma space_runes_bytes: "r \<in> set space_runes \<union> set (map rev space_runes) \<Longrightarrow> c \<in> set r \<Longrightarrow> is_space_byte c"
proof -
  have "list_all (list_all is_space_byte) space_runes" by code_simp
  then show "r \<in> set space_runes \<union> set (map rev space_runes) \<Longrightarrow> c \<in> set r \<Longrightarrow> is_space_byte c"
    by (auto simp: list_all_iff)
qed

lemma has_prefix_append: "has_prefix s r \<Longrightarrow> s = r @ drop (length r) s"
  by (induction s r rule: has_prefix.induct) auto

lemma drop_runes_keep:
  assumes "\<And>r c. r \<in> set rs \<Longrightarrow> c \<in> set r \<Longrightarrow> c \<notin> set s"
  shows "drop_runes rs s = s"
proof -
  have "\<not> (r \<noteq> [] \<and> has_prefix s r)" if "r \<in> set rs" for r
  proof
    assume r: "r \<noteq> [] \<and> has_prefix s r"
    then obtain c where c: "c \<in> set r" by (cases r) auto
    moreover have "s = r @ drop (length r) s" using r has_prefix_append by blast
    ultimately have "c \<in> set s" by (metis Un_iff set_append)
    then show False using assms [OF that c] by contradiction
  qed
  then have "find (\<lambda>r. r \<noteq> [] \<and> has_prefix s r) rs = None" by (auto simp: find_None_iff)
  then show ?thesis by (simp add: drop_runes.simps [of rs s])
qed

lemma filter_drop_runes:
  assumes "\<And>r c. r \<in> set rs \<Longrightarrow> c \<in> set r \<Longrightarrow> c \<in> set s \<Longrightarrow> \<not> P c"
  shows "filter P (drop_runes rs s) = filter P s"
  using assms
proof (induction rs s rule: drop_runes.induct)
  case (1 rs s)
  show ?case
  proof (cases "find (\<lambda>r. r \<noteq> [] \<and> has_prefix s r) rs")
    case None
    then show ?thesis by (simp add: drop_runes.simps [of rs s])
  next
    case (Some r)
    then have r: "r \<in> set rs" "has_prefix s r" by (auto simp: find_Some_iff)
    have p: "s = r @ drop (length r) s" by (rule has_prefix_append [OF r(2)])
    have "filter P (drop_runes rs (drop (length r) s)) = filter P (drop (length r) s)"
      using "1.prems" by (intro "1.IH" [OF Some]) (auto dest: in_set_dropD)
    moreover have "filter P r = []"
    proof (rule filter_False, rule ballI)
      fix c assume c: "c \<in> set r"
      then have "c \<in> set s" by (subst p) simp
      with c show "\<not> P c" using "1.prems" r(1) by blast
    qed
    ultimately show ?thesis
      using Some by (subst (2) p) (simp add: drop_runes.simps [of rs s])
  qed
qed

lemma set_drop_runes: "set (drop_runes rs s) \<subseteq> set s"
  by (induction rs s rule: drop_runes.induct)
    (subst drop_runes.simps, auto split: option.splits dest: in_set_dropD)

lemma trim_space_keep:
  assumes "\<And>c. c \<in> set s \<Longrightarrow> \<not> is_space_byte c"
  shows "trim_space s = s"
proof -
  have "drop_runes space_runes s = s" "drop_runes (map rev space_runes) (rev s) = rev s"
    using assms space_runes_bytes by (intro drop_runes_keep; fastforce)+
  then show ?thesis by (simp add: trim_space_def)
qed

lemma filter_trim_space:
  assumes "\<And>c. c \<in> set s \<Longrightarrow> is_space_byte c \<Longrightarrow> \<not> P c"
  shows "filter P (trim_space s) = filter P s"
proof -
  let ?t = "drop_runes space_runes s"
  have t: "filter P ?t = filter P s" using assms space_runes_bytes by (intro filter_drop_runes) blast
  have "filter P (drop_runes (map rev space_runes) (rev ?t)) = filter P (rev ?t)"
    using assms space_runes_bytes set_drop_runes [of space_runes s] by (intro filter_drop_runes) fastforce
  then show ?thesis using t by (simp add: trim_space_def rev_filter [symmetric])
qed

subsection \<open>Results\<close>

lemma andThen_Inr [simp]: "andThen (Inr x) f = f x"
  by (simp add: andThen_def)

lemma andThen_Inl [simp]: "andThen (Inl e) f = Inl e"
  by (simp add: andThen_def)

lemma andThen_eq_Inr: "andThen r f = Inr y \<longleftrightarrow> (\<exists>x. r = Inr x \<and> f x = Inr y)"
  by (cases r) auto

lemma mapErr_Inr [simp]: "mapErr w (Inr x) = Inr x"
  by (simp add: mapErr_def)

lemma mapErr_Inl [simp]: "mapErr w (Inl e) = Inl (w e)"
  by (simp add: mapErr_def)

lemma mapErr_eq_Inr [simp]: "mapErr w r = Inr x \<longleftrightarrow> r = Inr x"
  by (cases r) auto

lemma errors_Is_New [simp]: "errors_Is (errors_New m) s \<longleftrightarrow> False"
  by (simp add: errors_Is_def errors_New_def)

lemma errors_Is_wrap [simp]: "errors_Is (errorf_w pre e post) s \<longleftrightarrow> errors_Is e s"
  by (simp add: errors_Is_def errorf_w_def)

lemma errors_Is_GoError [simp]: "errors_Is (GoError m ss) s \<longleftrightarrow> s \<in> set ss"
  by (simp add: errors_Is_def)

subsection \<open>String search\<close>

lemma has_prefix_prefix [go_string_simps]: "has_prefix s p \<longleftrightarrow> prefix p s"
  by (induction s p rule: has_prefix.induct) auto

lemma index_byte_None: "index_byte s c = None \<longleftrightarrow> c \<notin> set s"
  by (induction s) auto

lemma index_byte_Some:
  "index_byte s c = Some i \<Longrightarrow> i < length s \<and> s ! i = c \<and> c \<notin> set (take i s)"
proof (induction s arbitrary: i)
  case Nil
  then show ?case by simp
next
  case (Cons x xs)
  then show ?case by (cases i) (auto split: if_splits)
qed

lemma index_byte_append [simp]: "c \<notin> set a \<Longrightarrow> index_byte (a @ c # b) c = Some (length a)"
  by (induction a) auto

lemma index_byte_split:
  assumes "index_byte s c = Some i"
  shows "s = take i s @ c # drop (Suc i) s"
  using index_byte_Some [OF assms] id_take_nth_drop [of i s] by simp

lemma str_index_None [go_string_simps]: "str_index s sub = None \<longleftrightarrow> \<not> sublist sub s"
  by (induction s) (auto simp: has_prefix_prefix sublist_Cons_right)

lemma str_contains_sublist [go_string_simps]: "str_contains s sub \<longleftrightarrow> sublist sub s"
  by (simp add: str_contains_def str_index_None)

lemma str_last_index_None [go_string_simps]: "str_last_index s sub = None \<longleftrightarrow> \<not> sublist sub s"
  by (induction s) (auto simp: has_prefix_prefix sublist_Cons_right split: option.splits)

lemma str_last_index_Some:
  "str_last_index s sub = Some i \<Longrightarrow> i \<le> length s \<and> prefix sub (drop i s)"
proof (induction s arbitrary: i)
  case Nil
  then show ?case by (auto split: if_splits)
next
  case (Cons x xs)
  then show ?case
    by (cases i) (auto simp: has_prefix_prefix split: option.splits if_splits)
qed

text \<open>The last occurrence is the last: no later offset starts another one.\<close>

lemma str_last_index_last:
  "str_last_index s sub = Some i \<Longrightarrow> i < j \<Longrightarrow> j < length s \<Longrightarrow> \<not> prefix sub (drop j s)"
proof (induction s arbitrary: i j)
  case Nil
  then show ?case by simp
next
  case (Cons x xs)
  show ?case
  proof (cases "str_last_index xs sub")
    case None
    then have "\<not> sublist sub xs" by (simp add: str_last_index_None)
    moreover from Cons.prems obtain k where "j = Suc k" by (cases j) auto
    ultimately show ?thesis
      by (auto simp: sublist_def prefix_def) (metis append_take_drop_id)
  next
    case (Some i')
    with Cons.prems have "i = Suc i'" by simp
    moreover from Cons.prems obtain k where "j = Suc k" by (cases j) auto
    ultimately show ?thesis using Cons.IH [OF Some, of k] Cons.prems by simp
  qed
qed

subsection \<open>Maps\<close>

lemma map_add_upd_Cons:
  assumes "k \<notin> fst ` set qs"
  shows "m(k \<mapsto> v) ++ map_of qs = m ++ map_of ((k, v) # qs)"
proof
  fix x
  have "map_of qs k = None" using assms by (simp add: map_of_eq_None_iff)
  then show "(m(k \<mapsto> v) ++ map_of qs) x = (m ++ map_of ((k, v) # qs)) x"
    by (cases "x = k") (simp_all add: map_add_def split: option.split)
qed

end
