(* ===== verification/Netio.thy ===== *)
theory Netio
  imports Prelude
begin

text \<open>
  The part of \<^verbatim>\<open>net.Conn\<close> and \<^verbatim>\<open>io\<close> that the sources use. A connection record
  holds what its environment will do: the bytes that arrive before the stream ends and the error
  the stream then ends with (end of file, a reset), the outcome of each coming \<^verbatim>\<open>Write\<close> and of
  each coming deadline call; and what the code did: the bytes written, the deadlines in force,
  whether the connection is closed.

  A call can also wait: a peer may stay silent without closing, or stop reading. The error with the
  mark \<^const>\<open>NotReturned\<close> stands for this. A stream that ends with it stays open after its bytes, a
  \<^verbatim>\<open>Write\<close> with this outcome finds no room, and a call whose result carries it has not returned:
  whoever makes the call stays where it is and can try again when something has changed. A deadline
  in force turns the wait into a timeout, and closing the connection ends it.
\<close>

definition waiting :: "goerror \<Rightarrow> bool" where
  "waiting e = errors_Is e NotReturned"

definition silence :: goerror where
  "silence = GoError [] [NotReturned]"

definition net_ErrTimeout :: goerror where
  "net_ErrTimeout = GoError ''i/o timeout'' []"

record conn =
  rx :: "byte list"                            \<comment> \<open>bytes that will arrive\<close>
  rxend :: goerror                             \<comment> \<open>how the stream ends after them\<close>
  tx :: "byte list"                            \<comment> \<open>bytes written so far\<close>
  wres :: "(nat \<times> goerror) option list"        \<comment> \<open>outcomes of the coming writes\<close>
  dres :: "goerror option list"                \<comment> \<open>outcomes of the coming deadline calls\<close>
  rdeadline :: "time option"
  wdeadline :: "time option"
  closed :: bool

text \<open>
  \<^verbatim>\<open>Write\<close>: all bytes, or an error after the first few of them. A missing outcome is a
  success. A write that waits has taken nothing yet.
\<close>

definition conn_write :: "byte list \<Rightarrow> conn \<Rightarrow> goerror option \<times> conn" where
  "conn_write bs c =
     (if closed c then (Some net_ErrClosed, c)
      else case wres c of
        [] \<Rightarrow> (None, c\<lparr>tx := tx c @ bs\<rparr>)
      | None # rs \<Rightarrow> (None, c\<lparr>tx := tx c @ bs, wres := rs\<rparr>)
      | Some (n, e) # rs \<Rightarrow>
          if waiting e \<and> wdeadline c = None then (Some e, c)
          else (Some (if waiting e then net_ErrTimeout else e), c\<lparr>tx := tx c @ take n bs, wres := rs\<rparr>))"

text \<open>How a read ends that needs more bytes than arrive.\<close>

definition stream_end :: "conn \<Rightarrow> goerror" where
  "stream_end c = (if waiting (rxend c) \<and> rdeadline c \<noteq> None then net_ErrTimeout else rxend c)"

text \<open>
  \<^verbatim>\<open>io.ReadFull\<close> for a non-empty buffer: all \<open>n\<close> bytes, or the error. An end of file
  after some but not all bytes becomes \<^verbatim>\<open>io.ErrUnexpectedEOF\<close>.
\<close>

definition read_full :: "nat \<Rightarrow> conn \<Rightarrow> byte list result \<times> conn" where
  "read_full n c =
     (if closed c then (Inl net_ErrClosed, c)
      else if n \<le> length (rx c) then (Inr (take n (rx c)), c\<lparr>rx := drop n (rx c)\<rparr>)
      else (Inl (if errors_Is (stream_end c) IoEOF \<and> \<not> waiting (stream_end c) \<and> rx c \<noteq> [] then io_ErrUnexpectedEOF
                 else stream_end c),
            c\<lparr>rx := []\<rparr>))"

definition conn_close :: "conn \<Rightarrow> conn" where
  "conn_close c = c\<lparr>closed := True\<rparr>"

text \<open>Setting a deadline never waits.\<close>

definition returned_error :: "goerror \<Rightarrow> goerror" where
  "returned_error e = GoError (emsg e) (filter (\<lambda>s. s \<noteq> NotReturned) (echain e))"

definition deadline_call :: "(conn \<Rightarrow> conn) \<Rightarrow> conn \<Rightarrow> goerror option \<times> conn" where
  "deadline_call upd c =
     (if closed c then (Some net_ErrClosed, c)
      else case dres c of
        [] \<Rightarrow> (None, upd c)
      | None # rs \<Rightarrow> (None, upd (c\<lparr>dres := rs\<rparr>))
      | Some e # rs \<Rightarrow> (Some (returned_error e), c\<lparr>dres := rs\<rparr>))"

definition SetReadDeadline :: "time option \<Rightarrow> conn \<Rightarrow> goerror option \<times> conn" where
  "SetReadDeadline t = deadline_call (\<lambda>c. c\<lparr>rdeadline := t\<rparr>)"

definition SetWriteDeadline :: "time option \<Rightarrow> conn \<Rightarrow> goerror option \<times> conn" where
  "SetWriteDeadline t = deadline_call (\<lambda>c. c\<lparr>wdeadline := t\<rparr>)"

definition SetDeadline :: "time option \<Rightarrow> conn \<Rightarrow> goerror option \<times> conn" where
  "SetDeadline t = deadline_call (\<lambda>c. c\<lparr>rdeadline := t, wdeadline := t\<rparr>)"

text \<open>A connection on which nothing fails and over which \<open>bs\<close> arrives before end of file.\<close>

definition fresh_conn :: "byte list \<Rightarrow> conn" where
  "fresh_conn bs = \<lparr>rx = bs, rxend = io_EOF, tx = [], wres = [], dres = [],
     rdeadline = None, wdeadline = None, closed = False\<rparr>"

section \<open>Lemmas\<close>

lemma waiting_simps [simp]:
  "waiting (errorf_w pre e post) = waiting e" "\<not> waiting (errors_New m)" "waiting silence" "\<not> waiting net_ErrTimeout"
  "\<not> waiting io_EOF" "\<not> waiting io_ErrUnexpectedEOF" "\<not> waiting net_ErrClosed" "\<not> waiting (returned_error e)"
  by (simp_all add: waiting_def silence_def net_ErrTimeout_def io_EOF_def io_ErrUnexpectedEOF_def net_ErrClosed_def
      returned_error_def)

lemma stream_end_eq [simp]: "\<not> waiting (rxend c) \<Longrightarrow> stream_end c = rxend c"
  by (simp add: stream_end_def)

text \<open>With a deadline no read and no write waits.\<close>

lemma deadline_stream_end [simp]: "rdeadline c \<noteq> None \<Longrightarrow> \<not> waiting (stream_end c)"
  by (simp add: stream_end_def)

lemma deadline_write: "conn_write bs c = (Some e, c') \<Longrightarrow> wdeadline c \<noteq> None \<Longrightarrow> \<not> waiting e"
  by (auto simp: conn_write_def split: if_splits list.splits option.splits prod.splits)

lemma deadline_read: "read_full n c = (Inl e, c') \<Longrightarrow> rdeadline c \<noteq> None \<Longrightarrow> \<not> waiting e"
  by (auto simp: read_full_def split: if_splits)

lemma read_full_waits: "read_full n c = (Inl e, c') \<Longrightarrow> waiting e \<Longrightarrow> waiting (stream_end c)"
  by (auto simp: read_full_def split: if_splits)

lemma stream_end_fields [simp]:
  "stream_end (c\<lparr>rx := r\<rparr>) = stream_end c" "stream_end (c\<lparr>tx := t\<rparr>) = stream_end c" "stream_end (c\<lparr>wdeadline := d\<rparr>) = stream_end c"
  by (simp_all add: stream_end_def cong: if_cong)

lemma read_full_ok:
  "\<not> closed c \<Longrightarrow> n \<le> length (rx c) \<Longrightarrow>
     read_full n c = (Inr (take n (rx c)), c\<lparr>rx := drop n (rx c)\<rparr>)"
  by (simp add: read_full_def)

lemma read_full_Inr:
  "read_full n c = (Inr bs, c') \<longleftrightarrow>
     \<not> closed c \<and> n \<le> length (rx c) \<and> bs = take n (rx c) \<and> c' = c\<lparr>rx := drop n (rx c)\<rparr>"
  by (auto simp: read_full_def)

lemma read_full_tx [simp]: "tx (snd (read_full n c)) = tx c"
  by (simp add: read_full_def)

lemma conn_write_tx_prefix: "\<exists>k. tx (snd (conn_write bs c)) = tx c @ take k bs"
proof (cases "closed c")
  case True
  then show ?thesis by (intro exI [of _ 0]) (simp add: conn_write_def)
next
  case False
  then show ?thesis
    by (auto simp: conn_write_def split: list.splits option.splits prod.splits
        intro: exI [of _ "length bs"])
qed

lemma conn_write_ok_tx:
  "conn_write bs c = (None, c') \<Longrightarrow> tx c' = tx c @ bs"
  by (auto simp: conn_write_def split: if_splits list.splits option.splits prod.splits)

lemma conn_write_rx [simp]: "rx (snd (conn_write bs c)) = rx c"
  by (auto simp: conn_write_def split: list.splits option.splits prod.splits)

lemma conn_write_closed [simp]: "closed (snd (conn_write bs c)) = closed c"
  by (auto simp: conn_write_def split: list.splits option.splits prod.splits)

lemma deadline_calls_tx [simp]:
  "tx (snd (SetReadDeadline t c)) = tx c"
  "tx (snd (SetWriteDeadline t c)) = tx c"
  "tx (snd (SetDeadline t c)) = tx c"
  by (auto simp: SetReadDeadline_def SetWriteDeadline_def SetDeadline_def deadline_call_def
      split: list.splits option.splits)

lemma deadline_calls_rx [simp]:
  "rx (snd (SetReadDeadline t c)) = rx c"
  "rx (snd (SetWriteDeadline t c)) = rx c"
  "rx (snd (SetDeadline t c)) = rx c"
  by (auto simp: SetReadDeadline_def SetWriteDeadline_def SetDeadline_def deadline_call_def
      split: list.splits option.splits)

lemma fresh_conn_simps [simp]:
  "rx (fresh_conn bs) = bs" "tx (fresh_conn bs) = []" "\<not> closed (fresh_conn bs)"
  "wres (fresh_conn bs) = []" "dres (fresh_conn bs) = []" "rxend (fresh_conn bs) = io_EOF"
  by (simp_all add: fresh_conn_def)

section \<open>Framing\<close>

text \<open>
  What the two ends of a connection rely on: the writer puts a valid value on the stream as its
  frame, and the reader takes exactly that frame off the front of the stream, whatever follows.
\<close>

locale frame_codec =
  fixes put :: "'a \<Rightarrow> conn \<Rightarrow> goerror option \<times> conn"
    and get :: "conn \<Rightarrow> 'a result \<times> conn"
    and frame :: "'a \<Rightarrow> byte list"
    and ok :: "'a \<Rightarrow> bool"
  assumes put_frame: "put x w = (None, w') \<Longrightarrow> ok x \<and> tx w' = tx w @ frame x"
    and get_frame: "\<not> closed r \<Longrightarrow> ok x \<Longrightarrow> rx r = frame x @ rest \<Longrightarrow> get r = (Inr x, r\<lparr>rx := rest\<rparr>)"
begin

text \<open>What was written is what is read, and nothing after it is touched.\<close>

lemma roundtrip:
  assumes "put x w = (None, w')" "\<not> closed r" "tx w @ rx r = tx w' @ rest"
  shows "get r = (Inr x, r\<lparr>rx := rest\<rparr>)"
  using get_frame [OF assms(2)] put_frame [OF assms(1)] assms(3) by simp

text \<open>The frames are a prefix code: a stream starts with the frame of one value at most.\<close>

lemma frame_unique:
  assumes "ok x" "ok y" "frame x @ s = frame y @ t"
  shows "x = y \<and> s = t"
proof -
  let ?r = "fresh_conn (frame x @ s)"
  have "get ?r = (Inr x, ?r\<lparr>rx := s\<rparr>)" using assms(1) by (intro get_frame) simp_all
  moreover have "get ?r = (Inr y, ?r\<lparr>rx := t\<rparr>)" using assms(2,3) by (intro get_frame) simp_all
  ultimately show ?thesis by (simp add: fresh_conn_def)
qed

end

end
