(* ===== verification/Wire.thy ===== *)
theory Wire
  imports Netio
begin

text \<open>
  \<^verbatim>\<open>src/wire.go\<close>: the hello frame codec. The request is version, length, name; the
  response is version, status. The readers consume from a \<^typ>\<open>conn\<close> and return it with the
  rest of the stream.
\<close>

section \<open>Definitions\<close>

definition second :: duration where
  "second = 1000000000"

definition helloReadDeadline :: duration where
  "helloReadDeadline = 5 * second"

definition frameVersion :: byte where
  "frameVersion = 0x01"

definition maxNameLen :: int where
  "maxNameLen = 63"

text \<open>The two character classes of \<^verbatim>\<open>nameRE\<close>, \<^verbatim>\<open>^[a-z0-9][a-z0-9-]{0,62}$\<close>.\<close>

definition name_first :: "char \<Rightarrow> bool" where
  "name_first c = (is_lower c \<or> is_digit_char c)"

definition name_rest :: "char \<Rightarrow> bool" where
  "name_rest c = (is_lower c \<or> is_digit_char c \<or> c = CHR ''-'')"

definition nameRE :: "string \<Rightarrow> bool" where
  "nameRE s = (case s of [] \<Rightarrow> False
     | c # cs \<Rightarrow> name_first c \<and> list_all name_rest cs \<and> length cs \<le> 62)"

definition ValidServiceName :: "string \<Rightarrow> bool" where
  "ValidServiceName name = nameRE name"

definition errMalformedFrame :: goerror where
  "errMalformedFrame = GoError ''gocloak: malformed hello frame'' [ErrMalformedFrame]"

type_synonym status = byte

definition statusOK :: status where "statusOK = 0x00"
definition statusDenied :: status where "statusDenied = 0x01"
definition statusBackendUnavailable :: status where "statusBackendUnavailable = 0x02"
definition statusRateLimited :: status where "statusRateLimited = 0x03"
definition statusMalformed :: status where "statusMalformed = 0x04"

definition status_String :: "status \<Rightarrow> string" where
  "status_String s =
     (if s = statusOK then ''ok''
      else if s = statusDenied then ''denied''
      else if s = statusBackendUnavailable then ''backend unavailable''
      else if s = statusRateLimited then ''rate limited''
      else if s = statusMalformed then ''malformed request''
      else ''unknown status 0x'' @ show_hex_byte s)"

definition validStatus :: "status \<Rightarrow> bool" where
  "validStatus s = (s = statusOK \<or> s = statusDenied \<or> s = statusBackendUnavailable
     \<or> s = statusRateLimited \<or> s = statusMalformed)"

text \<open>The frame \<^verbatim>\<open>writeHelloRequest\<close> allocates and fills.\<close>

definition hello_frame :: "string \<Rightarrow> byte list" where
  "hello_frame name = frameVersion # of_nat (length name) # str_bytes name"

definition writeHelloRequest :: "string \<Rightarrow> conn \<Rightarrow> goerror option \<times> conn" where
  "writeHelloRequest name w =
     (if \<not> ValidServiceName name then (Some (errors_New ''gocloak: invalid service name''), w)
      else case conn_write (hello_frame name) w of
        (Some err, w') \<Rightarrow> (Some (errorf_w ''gocloak: write hello request: '' err ''''), w')
      | (None, w') \<Rightarrow> (None, w'))"

text \<open>A read that has not returned keeps its mark, here and in the callers.\<close>

definition readHelloRequest :: "conn \<Rightarrow> string result \<times> conn" where
  "readHelloRequest r =
     (case read_full 2 r of
        (Inl err, r1) \<Rightarrow> (Inl (errorf_w ''gocloak: read hello request header: '' err ''''), r1)
      | (Inr head, r1) \<Rightarrow>
          if head ! 0 \<noteq> frameVersion
          then (Inl (errorf_w '''' errMalformedFrame
                 ('': unsupported version 0x'' @ show_hex_byte (head ! 0))), r1)
          else let n = uint (head ! 1) in
            if n = 0 \<or> n > maxNameLen
            then (Inl (errorf_w '''' errMalformedFrame ('': invalid name length '' @ show_int n)), r1)
            else case read_full (nat n) r1 of
              (Inl err, r2) \<Rightarrow> (Inl (if waiting err then err else errorf_w '''' errMalformedFrame '': short read of name''), r2)
            | (Inr nameBytes, r2) \<Rightarrow>
                let name = bytes_str nameBytes in
                if \<not> ValidServiceName name
                then (Inl (errorf_w '''' errMalformedFrame '': invalid service name''), r2)
                else (Inr name, r2))"

definition writeHelloResponse :: "status \<Rightarrow> conn \<Rightarrow> goerror option \<times> conn" where
  "writeHelloResponse s w =
     (if \<not> validStatus s
      then (Some (errors_New (''gocloak: invalid status 0x'' @ show_hex_byte s)), w)
      else case conn_write [frameVersion, s] w of
        (Some err, w') \<Rightarrow> (Some (errorf_w ''gocloak: write hello response: '' err ''''), w')
      | (None, w') \<Rightarrow> (None, w'))"

definition readHelloResponse :: "conn \<Rightarrow> status result \<times> conn" where
  "readHelloResponse r =
     (case read_full 2 r of
        (Inl err, r1) \<Rightarrow> (Inl (errorf_w ''gocloak: read hello response: '' err ''''), r1)
      | (Inr frame, r1) \<Rightarrow>
          if frame ! 0 \<noteq> frameVersion
          then (Inl (errorf_w '''' errMalformedFrame
                 ('': unsupported version 0x'' @ show_hex_byte (frame ! 0))), r1)
          else if \<not> validStatus (frame ! 1)
          then (Inl (errorf_w '''' errMalformedFrame
                 ('': unknown status 0x'' @ show_hex_byte (frame ! 1))), r1)
          else (Inr (frame ! 1), r1))"

section \<open>Lemmas\<close>

lemmas status_defs = statusOK_def statusDenied_def statusBackendUnavailable_def
  statusRateLimited_def statusMalformed_def

lemma errMalformedFrame_Is [simp]: "errors_Is errMalformedFrame s \<longleftrightarrow> s = ErrMalformedFrame"
  by (simp add: errMalformedFrame_def)

lemma ValidServiceName_length:
  "ValidServiceName name \<Longrightarrow> 1 \<le> length name \<and> length name \<le> 63"
  by (cases name) (auto simp: ValidServiceName_def nameRE_def)

text \<open>Every character of a valid name is printable and is not a separator of any log or path.\<close>

lemma ValidServiceName_chars:
  "ValidServiceName name \<Longrightarrow> c \<in> set name \<Longrightarrow> name_rest c"
  by (cases name)
    (auto simp: ValidServiceName_def nameRE_def name_first_def name_rest_def list_all_iff)

lemma name_rest_code: "name_rest c \<Longrightarrow> (of_char c :: nat) = 45 \<or> 48 \<le> (of_char c :: nat)"
  by (auto simp: name_rest_def is_lower_def is_digit_char_def)

lemma valid_name_length_byte:
  "ValidServiceName name \<Longrightarrow> uint (of_nat (length name) :: byte) = int (length name)"
  using ValidServiceName_length [of name] by (simp add: uint_nat unat_of_nat_byte)

text \<open>What \<^const>\<open>readHelloRequest\<close> accepts, as one equivalence.\<close>

lemma readHelloRequest_Inr:
  "readHelloRequest r = (Inr name, r') \<longleftrightarrow>
     \<not> closed r \<and> ValidServiceName name
     \<and> rx r = hello_frame name @ rx r' \<and> r' = r\<lparr>rx := rx r'\<rparr>" (is "?l \<longleftrightarrow> ?r")
proof
  assume ?l
  then obtain head r1 where h: "read_full 2 r = (Inr head, r1)"
    by (auto simp: readHelloRequest_def split: prod.splits sum.splits)
  then have r: "\<not> closed r" "2 \<le> length (rx r)" "head = take 2 (rx r)"
      "r1 = r\<lparr>rx := drop 2 (rx r)\<rparr>"
    by (auto simp: read_full_Inr)
  then obtain v l rest where rest: "rx r = v # l # rest" "head = [v, l]"
    by (cases "rx r"; cases "tl (rx r)") auto
  with \<open>?l\<close> h obtain nb where v: "v = frameVersion" and l: "uint l \<noteq> 0" "uint l \<le> maxNameLen"
      and nb: "read_full (nat (uint l)) r1 = (Inr nb, r')" "name = bytes_str nb"
      "ValidServiceName name"
    by (auto simp: readHelloRequest_def Let_def split: prod.splits sum.splits if_splits)
  from nb(1) r rest have n: "nat (uint l) \<le> length rest" "nb = take (nat (uint l)) rest"
      "r' = r\<lparr>rx := drop (nat (uint l)) rest\<rparr>"
    by (auto simp: read_full_Inr)
  then have "of_nat (length name) = l"
    using nb(2) by (simp add: nat_uint_eq)
  moreover have "str_bytes name = take (nat (uint l)) rest" using nb(2) n(2) by simp
  ultimately show ?r using r(1) nb(3) rest v n by (simp add: hello_frame_def)
next
  assume R: ?r
  then obtain rest where rest: "rx r = hello_frame name @ rest" "r' = r\<lparr>rx := rest\<rparr>"
    and v: "ValidServiceName name" and c: "\<not> closed r" by blast
  have len: "uint (of_nat (length name) :: byte) = int (length name)"
    using v by (rule valid_name_length_byte)
  have b: "name \<noteq> []" "length name \<le> 63" using ValidServiceName_length [OF v] by auto
  show ?l
    using rest v c len b
    by (simp add: readHelloRequest_def read_full_def hello_frame_def maxNameLen_def Let_def)
qed

lemma readHelloResponse_Inr:
  "readHelloResponse r = (Inr s, r') \<longleftrightarrow>
     \<not> closed r \<and> validStatus s \<and> rx r = frameVersion # s # rx r' \<and> r' = r\<lparr>rx := rx r'\<rparr>"
proof (cases "rx r")
  case (Cons v rest)
  then show ?thesis
    by (cases rest)
      (auto simp: readHelloResponse_def read_full_def split: prod.splits)
qed (auto simp: readHelloResponse_def read_full_def split: prod.splits)

lemma readHelloRequest_header_error:
  assumes "closed r \<or> length (rx r) < 2"
  shows "\<exists>err. fst (readHelloRequest r)
           = Inl (errorf_w ''gocloak: read hello request header: '' err '''')
         \<and> (err = net_ErrClosed \<or> err = io_ErrUnexpectedEOF \<or> err = stream_end r)"
  using assms by (auto simp: readHelloRequest_def read_full_def)

lemma readHelloRequest_body_error:
  assumes "\<not> closed r" "2 \<le> length (rx r)" "fst (readHelloRequest r) = Inl e" "\<not> waiting (stream_end r)"
  shows "errors_Is e ErrMalformedFrame"
  using assms
  by (auto simp: readHelloRequest_def read_full_ok Let_def dest: read_full_waits split: if_splits prod.splits sum.splits)

lemma read_full_consumes: "length (rx r) - length (rx (snd (read_full n r))) \<le> n"
  by (auto simp: read_full_def)

section \<open>The two frames as codecs\<close>

interpretation hello_request: frame_codec writeHelloRequest readHelloRequest hello_frame ValidServiceName
proof
  show "ValidServiceName x \<and> tx w' = tx w @ hello_frame x" if "writeHelloRequest x w = (None, w')" for x w w'
    using that by (auto simp: writeHelloRequest_def dest: conn_write_ok_tx split: if_splits prod.splits option.splits)
qed (simp add: readHelloRequest_Inr)

interpretation hello_response: frame_codec writeHelloResponse readHelloResponse "\<lambda>s. [frameVersion, s]" validStatus
proof
  show "validStatus x \<and> tx w' = tx w @ [frameVersion, x]" if "writeHelloResponse x w = (None, w')" for x w w'
    using that by (auto simp: writeHelloResponse_def dest: conn_write_ok_tx split: if_splits prod.splits option.splits)
qed (simp add: readHelloResponse_Inr)

section \<open>Properties\<close>

text \<open>
  Claim C19. Round trip of the request frame: what a client writes for a valid service name is
  read back by the server as exactly that name, whatever follows on the stream, and the server is
  left with exactly what follows. So no byte of the application's own data is swallowed by the
  handshake.
\<close>

theorem hello_request_roundtrip:
  assumes "writeHelloRequest name w = (None, w')"
    and "\<not> closed r"
    and "tx w @ rx r = tx w' @ rest"
  shows "readHelloRequest r = (Inr name, r\<lparr>rx := rest\<rparr>)"
  by (rule hello_request.roundtrip [OF assms])

theorem hello_request_roundtrip_witness:
  "writeHelloRequest ''db'' (fresh_conn []) = (None, (fresh_conn [])\<lparr>tx := [1, 2, 100, 98]\<rparr>)
   \<and> readHelloRequest (fresh_conn [1, 2, 100, 98, 7]) = (Inr ''db'', fresh_conn [7])"
proof -
  have w: "writeHelloRequest ''db'' (fresh_conn []) =
      (None, (fresh_conn [])\<lparr>tx := [1, 2, 100, 98]\<rparr>)"
    by code_simp
  have r: "(fresh_conn [1, 2, 100, 98, 7])\<lparr>rx := [7]\<rparr> = fresh_conn [7]"
    by (simp add: fresh_conn_def)
  show ?thesis
    using w r hello_request_roundtrip [OF w, of "fresh_conn [1, 2, 100, 98, 7]" "[7]"] by simp
qed

text \<open>
  The request parser accepts exactly the canonical encodings: a name is returned if and
  only if the connection is open, the name is in the service name charset, and the stream starts
  with the one frame that encodes it. This excludes every alternative spelling, over-long length
  and truncated name.
\<close>

theorem hello_request_exact:
  "fst (readHelloRequest r) = Inr name \<longleftrightarrow>
     \<not> closed r \<and> ValidServiceName name \<and> prefix (hello_frame name) (rx r)"
proof
  assume "fst (readHelloRequest r) = Inr name"
  then have "readHelloRequest r = (Inr name, snd (readHelloRequest r))"
    by (simp add: prod_eq_iff)
  then show "\<not> closed r \<and> ValidServiceName name \<and> prefix (hello_frame name) (rx r)"
    by (auto simp: readHelloRequest_Inr)
next
  assume "\<not> closed r \<and> ValidServiceName name \<and> prefix (hello_frame name) (rx r)"
  then obtain rest where "rx r = hello_frame name @ rest" "\<not> closed r" "ValidServiceName name"
    by (auto simp: prefix_def)
  then have "readHelloRequest r = (Inr name, r\<lparr>rx := rest\<rparr>)"
    by (simp add: readHelloRequest_Inr)
  then show "fst (readHelloRequest r) = Inr name" by simp
qed

text \<open>
  Which failures of the request parser are answered. The error carries the malformed
  frame sentinel, on which the server answers with a status, exactly when the connection was open
  and both header bytes arrived; a connection that ends or times out before that carries no such
  sentinel, so the server stays silent.
\<close>

theorem hello_request_error_class:
  assumes "fst (readHelloRequest r) = Inl e"
    and "\<not> errors_Is (stream_end r) ErrMalformedFrame" "\<not> waiting (stream_end r)"
  shows "errors_Is e ErrMalformedFrame \<longleftrightarrow> \<not> closed r \<and> 2 \<le> length (rx r)"
proof (cases "\<not> closed r \<and> 2 \<le> length (rx r)")
  case True
  with assms(1,3) show ?thesis by (blast intro: readHelloRequest_body_error)
next
  case False
  then have "closed r \<or> length (rx r) < 2" by auto
  then obtain err where "fst (readHelloRequest r)
        = Inl (errorf_w ''gocloak: read hello request header: '' err '''')"
      and "err = net_ErrClosed \<or> err = io_ErrUnexpectedEOF \<or> err = stream_end r"
    using readHelloRequest_header_error by blast
  with assms False show ?thesis by (auto simp: net_ErrClosed_def io_ErrUnexpectedEOF_def)
qed

theorem hello_request_error_class_witness:
  "(\<exists>e. fst (readHelloRequest (fresh_conn [1])) = Inl e \<and> \<not> errors_Is e ErrMalformedFrame)
   \<and> (\<exists>e. fst (readHelloRequest (fresh_conn [2, 1])) = Inl e \<and> errors_Is e ErrMalformedFrame)"
proof -
  have eof: "\<not> errors_Is (stream_end (fresh_conn bs)) ErrMalformedFrame" "\<not> waiting (stream_end (fresh_conn bs))" for bs
    by simp_all (simp add: io_EOF_def)
  obtain e where e: "fst (readHelloRequest (fresh_conn [1])) = Inl e"
    by (simp add: readHelloRequest_def read_full_def)
  obtain e' where e': "fst (readHelloRequest (fresh_conn [2, 1])) = Inl e'"
    by (simp add: readHelloRequest_def read_full_def frameVersion_def)
  show ?thesis
    using e e' hello_request_error_class [OF e eof] hello_request_error_class [OF e' eof] by auto
qed

text \<open>
  A hostile peer cannot make the parser read or allocate beyond the frame bound: whatever
  arrives, at most the two header bytes and 63 name bytes are taken off the stream, and nothing is
  written back by the parser itself.
\<close>

theorem hello_request_bounded_read:
  "length (rx r) - length (rx (snd (readHelloRequest r))) \<le> 65
   \<and> tx (snd (readHelloRequest r)) = tx r"
proof (cases "read_full 2 r")
  case (Pair res r1)
  have c1: "length (rx r) - length (rx r1) \<le> 2" "tx r1 = tx r"
    using Pair read_full_consumes [of r 2] read_full_tx [of 2 r] by simp_all
  have "snd (readHelloRequest r) = r1
      \<or> (\<exists>n \<le> 63. snd (readHelloRequest r) = snd (read_full n r1))"
  proof (cases res)
    case (Inr head)
    have "uint (head ! 1) \<le> 63 \<Longrightarrow> unat (head ! 1) \<le> 63"
      by (simp flip: nat_uint_eq)
    moreover have "snd (readHelloRequest r) = r1 \<or> uint (head ! 1) \<le> 63
        \<and> snd (readHelloRequest r) = snd (read_full (unat (head ! 1)) r1)"
      using Pair Inr
      by (auto simp: readHelloRequest_def maxNameLen_def Let_def not_less split: sum.splits prod.splits)
    ultimately show ?thesis by blast
  qed (use Pair in \<open>simp add: readHelloRequest_def\<close>)
  then show ?thesis
  proof
    assume "snd (readHelloRequest r) = r1"
    then show ?thesis using c1 by simp
  next
    assume "\<exists>n \<le> 63. snd (readHelloRequest r) = snd (read_full n r1)"
    then obtain n where "n \<le> 63" and n: "snd (readHelloRequest r) = snd (read_full n r1)" by blast
    then have "length (rx r1) - length (rx (snd (read_full n r1))) \<le> 63"
      using read_full_consumes [of r1 n] by simp
    then show ?thesis using c1 n by simp
  qed
qed

text \<open>
  The response frame: the client reads back the status the server wrote, a status outside
  the five defined codes is never written, and no byte sequence makes the client accept one.
\<close>

theorem hello_response_exact:
  "(fst (readHelloResponse r) = Inr s) = (\<not> closed r \<and> validStatus s \<and> prefix [frameVersion, s] (rx r))
   \<and> tx (snd (writeHelloResponse s w)) =
       (if fst (writeHelloResponse s w) = None then tx w @ [frameVersion, s]
        else if validStatus s then tx (snd (conn_write [frameVersion, s] w)) else tx w)
   \<and> (fst (writeHelloResponse s w) = None) = (validStatus s \<and> fst (conn_write [frameVersion, s] w) = None)"
proof (intro conjI)
  show "(fst (readHelloResponse r) = Inr s) =
      (\<not> closed r \<and> validStatus s \<and> prefix [frameVersion, s] (rx r))"
    using readHelloResponse_Inr [of r s "snd (readHelloResponse r)"]
      readHelloResponse_Inr [of r s "r\<lparr>rx := drop 2 (rx r)\<rparr>"]
    by (auto simp: prod_eq_iff prefix_def)
qed (auto simp: writeHelloResponse_def split: prod.splits option.splits dest: conn_write_ok_tx)

end
