(* ===== verification/Netip.thy ===== *)
theory Netip
  imports Prelude
begin

unbundle bit_operations_syntax

text \<open>
  The part of \<^verbatim>\<open>net/netip\<close> and \<^verbatim>\<open>net\<close> that the sources call: addresses,
  address-port pairs, prefixes, their parsers and their text. An address is the zero value, an
  IPv4 address, or an IPv6 address with its zone (the empty string for none).
\<close>

section \<open>Definitions\<close>

datatype addr = AddrZero | Addr4 "32 word" | Addr6 "128 word" string

datatype addrport = AddrPort (ap_addr: addr) (ap_port: "16 word")

datatype netprefix = NetPrefix (pfx_addr: addr) (pfx_bits: nat)

definition addrport_zero :: addrport where
  "addrport_zero = AddrPort AddrZero 0"

definition IsValid :: "addr \<Rightarrow> bool" where
  "IsValid a = (case a of AddrZero \<Rightarrow> False | _ \<Rightarrow> True)"

definition Is4 :: "addr \<Rightarrow> bool" where
  "Is4 a = (case a of Addr4 _ \<Rightarrow> True | _ \<Rightarrow> False)"

definition Is6 :: "addr \<Rightarrow> bool" where
  "Is6 a = (case a of Addr6 _ _ \<Rightarrow> True | _ \<Rightarrow> False)"

definition Is4In6 :: "addr \<Rightarrow> bool" where
  "Is4In6 a = (case a of Addr6 w _ \<Rightarrow> drop_bit 32 w = 0xffff | _ \<Rightarrow> False)"

definition Unmap :: "addr \<Rightarrow> addr" where
  "Unmap a = (case a of Addr6 w z \<Rightarrow> if drop_bit 32 w = 0xffff then Addr4 (ucast w) else a | _ \<Rightarrow> a)"

definition IsUnspecified :: "addr \<Rightarrow> bool" where
  "IsUnspecified a = (a = Addr4 0 \<or> a = Addr6 0 [])"

definition ap_IsValid :: "addrport \<Rightarrow> bool" where
  "ap_IsValid p = IsValid (ap_addr p)"

text \<open>\<^verbatim>\<open>Prefix.Masked\<close>, \<^verbatim>\<open>Prefix.Contains\<close>.\<close>

definition Masked :: "netprefix \<Rightarrow> netprefix" where
  "Masked p = (case pfx_addr p of
      Addr4 w \<Rightarrow> NetPrefix (Addr4 (w AND NOT (mask (32 - pfx_bits p)))) (pfx_bits p)
    | Addr6 w _ \<Rightarrow> NetPrefix (Addr6 (w AND NOT (mask (128 - pfx_bits p))) []) (pfx_bits p)
    | AddrZero \<Rightarrow> p)"

definition Contains :: "netprefix \<Rightarrow> addr \<Rightarrow> bool" where
  "Contains p ip = (case (pfx_addr p, ip) of
      (Addr4 n, Addr4 w) \<Rightarrow> drop_bit (32 - pfx_bits p) (w XOR n) = 0
    | (Addr6 n _, Addr6 w z) \<Rightarrow> z = [] \<and> drop_bit (128 - pfx_bits p) (w XOR n) = 0
    | _ \<Rightarrow> False)"

subsection \<open>Bytes of an address\<close>

definition be_word32 :: "byte list \<Rightarrow> 32 word" where
  "be_word32 bs = foldl (\<lambda>w b. push_bit 8 w OR ucast b) 0 bs"

definition be_word128 :: "byte list \<Rightarrow> 128 word" where
  "be_word128 bs = foldl (\<lambda>w b. push_bit 8 w OR ucast b) 0 bs"

definition As4 :: "32 word \<Rightarrow> byte list" where
  "As4 w = [ucast (drop_bit 24 w), ucast (drop_bit 16 w), ucast (drop_bit 8 w), ucast w]"

definition v6u16 :: "128 word \<Rightarrow> nat \<Rightarrow> nat" where
  "v6u16 w i = unat (drop_bit (16 * (7 - i)) w) mod 65536"

text \<open>\<^verbatim>\<open>netip.AddrFromSlice\<close>: four bytes are IPv4, sixteen are IPv6, anything else fails.\<close>

definition AddrFromSlice :: "byte list \<Rightarrow> addr option" where
  "AddrFromSlice bs =
     (if length bs = 4 then Some (Addr4 (be_word32 bs))
      else if length bs = 16 then Some (Addr6 (be_word128 bs) []) else None)"

subsection \<open>Text of an address\<close>

definition string4 :: "32 word \<Rightarrow> string" where
  "string4 w = str_join (map (\<lambda>b. show_nat (unat b)) (As4 w)) ''.''"

fun show_hex_nat :: "nat \<Rightarrow> string" where
  "show_hex_nat n = (if n < 16 then [hex_char n] else show_hex_nat (n div 16) @ [hex_char (n mod 16)])"

declare show_hex_nat.simps [simp del]

text \<open>The longest run of at least two zero groups, the first of the longest ones.\<close>

definition zero_run :: "nat list \<Rightarrow> nat" where
  "zero_run gs = length (takeWhile (\<lambda>g. g = 0) gs)"

fun best_zero_run :: "nat \<Rightarrow> nat list \<Rightarrow> nat \<times> nat \<Rightarrow> nat \<times> nat" where
  "best_zero_run i [] best = best"
| "best_zero_run i (g # gs) best =
     (let l = zero_run (g # gs) in
      best_zero_run (Suc i) gs (if l \<ge> 2 \<and> l > snd best then (i, l) else best))"

definition string6 :: "128 word \<Rightarrow> string" where
  "string6 w =
     (let gs = map (v6u16 w) [0..<8]; (s, l) = best_zero_run 0 gs (0, 0) in
      if l = 0 then str_join (map show_hex_nat gs) '':''
      else str_join (map show_hex_nat (take s gs)) '':'' @ ''::''
           @ str_join (map show_hex_nat (drop (s + l) gs)) '':'')"

definition Addr_String :: "addr \<Rightarrow> string" where
  "Addr_String a = (case a of
      AddrZero \<Rightarrow> ''invalid IP''
    | Addr4 w \<Rightarrow> string4 w
    | Addr6 w z \<Rightarrow>
        (if drop_bit 32 w = 0xffff then ''::ffff:'' @ string4 (ucast w) else string6 w)
        @ (if z = [] then [] else CHR ''%'' # z))"

definition AddrPort_String :: "addrport \<Rightarrow> string" where
  "AddrPort_String p = (case ap_addr p of
      AddrZero \<Rightarrow> ''invalid AddrPort''
    | Addr4 w \<Rightarrow> string4 w @ '':'' @ show_nat (unat (ap_port p))
    | Addr6 w z \<Rightarrow> ''['' @ Addr_String (ap_addr p) @ '']:'' @ show_nat (unat (ap_port p)))"

definition Prefix_String :: "netprefix \<Rightarrow> string" where
  "Prefix_String p = Addr_String (pfx_addr p) @ ''/'' @ show_nat (pfx_bits p)"

subsection \<open>Parsing\<close>

text \<open>
  \<^verbatim>\<open>parseIPv4Fields\<close>: \<open>atStart\<close> says that the character is the first one or follows a dot,
  \<open>digLen\<close> counts the digits of the current field, \<open>fs\<close> holds the finished fields.
\<close>

fun parse_ipv4_fields :: "bool \<Rightarrow> nat \<Rightarrow> nat \<Rightarrow> nat list \<Rightarrow> string \<Rightarrow> nat list option" where
  "parse_ipv4_fields atStart val digLen fs [] =
     (if length fs < 3 then None else Some (fs @ [val]))"
| "parse_ipv4_fields atStart val digLen fs (c # cs) =
     (if is_digit_char c then
        (if digLen = 1 \<and> val = 0 then None
         else let v = val * 10 + (of_char c - 48) in
              if v > 255 then None else parse_ipv4_fields False v (Suc digLen) fs cs)
      else if c = CHR ''.'' then
        (if atStart \<or> cs = [] then None
         else if length fs = 3 then None
         else parse_ipv4_fields True 0 0 (fs @ [val]) cs)
      else None)"

definition parse_ipv4 :: "string \<Rightarrow> addr option" where
  "parse_ipv4 s = map_option (\<lambda>fs. Addr4 (be_word32 (map of_nat fs)))
     (parse_ipv4_fields True 0 0 [] s)"

definition hex_value :: "char \<Rightarrow> nat option" where
  "hex_value c = (let n = of_char c in
     if 48 \<le> n \<and> n \<le> 57 then Some (n - 48)
     else if 97 \<le> n \<and> n \<le> 102 then Some (n - 87)
     else if 65 \<le> n \<and> n \<le> 70 then Some (n - 55) else None)"

definition is_hex :: "char \<Rightarrow> bool" where
  "is_hex c = (hex_value c \<noteq> None)"

definition hex_group :: "string \<Rightarrow> nat" where
  "hex_group s = foldl (\<lambda>n c. 16 * n + (case hex_value c of None \<Rightarrow> 0 | Some d \<Rightarrow> d)) 0 s"

text \<open>
  The group loop of \<^verbatim>\<open>parseIPv6\<close>: \<open>k\<close> groups of two bytes still fit, \<open>ip\<close> holds the bytes
  so far, \<open>ell\<close> the position of the ellipsis. The result carries the unread rest.
\<close>

fun parse_ipv6_loop :: "nat \<Rightarrow> byte list \<Rightarrow> nat option \<Rightarrow> string
    \<Rightarrow> (byte list \<times> nat option \<times> string) option" where
  "parse_ipv6_loop 0 ip ell s = Some (ip, ell, s)"
| "parse_ipv6_loop (Suc k) ip ell s =
     (let ds = takeWhile is_hex s; rest = drop (length ds) s in
      if ds = [] \<or> length ds > 4 then None
      else if rest \<noteq> [] \<and> hd rest = CHR ''.'' then
        (if ell = None \<and> length ip \<noteq> 12 then None
         else if length ip + 4 > 16 then None
         else case parse_ipv4_fields True 0 0 [] s of
           None \<Rightarrow> None
         | Some fs \<Rightarrow> Some (ip @ map of_nat fs, ell, []))
      else
        let ip' = ip @ [of_nat (hex_group ds div 256), of_nat (hex_group ds mod 256)] in
        (case rest of
           [] \<Rightarrow> Some (ip', ell, [])
         | c # s1 \<Rightarrow>
             if c \<noteq> CHR '':'' \<or> s1 = [] then None
             else if hd s1 = CHR '':'' then
               (if ell \<noteq> None then None
                else if tl s1 = [] then Some (ip', Some (length ip'), [])
                else parse_ipv6_loop k ip' (Some (length ip')) (tl s1))
             else parse_ipv6_loop k ip' ell s1))"

definition parse_ipv6 :: "string \<Rightarrow> addr option" where
  "parse_ipv6 inp =
     (let (s0, zone, hasz) = str_cut inp (CHR ''%'') in
      if hasz \<and> zone = [] then None
      else
        let lead = has_prefix s0 ''::''; s = (if lead then drop 2 s0 else s0) in
        if lead \<and> s = [] then Some (Addr6 0 zone)
        else case parse_ipv6_loop 8 [] (if lead then Some 0 else None) s of
          None \<Rightarrow> None
        | Some (ip, ell, rest) \<Rightarrow>
            if rest \<noteq> [] then None
            else if length ip < 16 then
              (case ell of None \<Rightarrow> None
               | Some e \<Rightarrow> Some (Addr6 (be_word128
                   (take e ip @ replicate (16 - length ip) 0 @ drop e ip)) zone))
            else if ell \<noteq> None then None
            else Some (Addr6 (be_word128 ip) zone))"

text \<open>\<^verbatim>\<open>netip.ParseAddr\<close>: the first dot, colon or percent sign decides the parser.\<close>

fun parse_addr_scan :: "string \<Rightarrow> string \<Rightarrow> addr option" where
  "parse_addr_scan s [] = None"
| "parse_addr_scan s (c # cs) =
     (if c = CHR ''.'' then parse_ipv4 s
      else if c = CHR '':'' then parse_ipv6 s
      else if c = CHR ''%'' then None
      else parse_addr_scan s cs)"

definition ParseAddr :: "string \<Rightarrow> addr option" where
  "ParseAddr s = parse_addr_scan s s"

text \<open>\<^verbatim>\<open>netip.ParseAddrPort\<close>.\<close>

definition split_addr_port :: "string \<Rightarrow> (string \<times> string \<times> bool) option" where
  "split_addr_port s = (case last_index_byte s (CHR '':'') of
      None \<Rightarrow> None
    | Some i \<Rightarrow>
        let ip = take i s; port = drop (Suc i) s in
        if ip = [] \<or> port = [] then None
        else if hd ip = CHR ''['' then
          (if length ip < 2 \<or> last ip \<noteq> CHR '']'' then None
           else Some (butlast (tl ip), port, True))
        else Some (ip, port, False))"

definition ParseAddrPort :: "string \<Rightarrow> addrport option" where
  "ParseAddrPort s = (case split_addr_port s of
      None \<Rightarrow> None
    | Some (ip, port, v6) \<Rightarrow>
        (case parse_uint16 port of None \<Rightarrow> None
         | Some n \<Rightarrow> (case ParseAddr ip of None \<Rightarrow> None
             | Some a \<Rightarrow> if v6 \<and> Is4 a then None
                 else if \<not> v6 \<and> Is6 a then None
                 else Some (AddrPort a (of_nat n)))))"

text \<open>\<^verbatim>\<open>net.SplitHostPort\<close>.\<close>

definition SplitHostPort :: "string \<Rightarrow> (string \<times> string) option" where
  "SplitHostPort hp = (case last_index_byte hp (CHR '':'') of
      None \<Rightarrow> None
    | Some i \<Rightarrow>
        if hd hp = CHR ''['' then
          (case index_byte hp (CHR '']'') of
             None \<Rightarrow> None
           | Some e \<Rightarrow>
               if Suc e = length hp \<or> Suc e \<noteq> i then None
               else let host = drop 1 (take e hp) in
                 if CHR ''['' \<in> set (drop 1 hp) \<or> CHR '']'' \<in> set (drop (Suc e) hp) then None
                 else Some (host, drop (Suc i) hp))
        else let host = take i hp in
          if CHR '':'' \<in> set host then None
          else if CHR ''['' \<in> set hp \<or> CHR '']'' \<in> set hp then None
          else Some (host, drop (Suc i) hp))"

section \<open>Lemmas\<close>

lemma Unmap_idem [simp]: "Unmap (Unmap a) = Unmap a"
  by (cases a) (auto simp: Unmap_def)

lemma Unmap_Addr4 [simp]: "Unmap (Addr4 w) = Addr4 w"
  by (simp add: Unmap_def)

lemma Unmap_AddrZero [simp]: "Unmap AddrZero = AddrZero"
  by (simp add: Unmap_def)

lemma IsValid_Unmap [simp]: "IsValid (Unmap a) = IsValid a"
  by (cases a) (auto simp: Unmap_def IsValid_def)

lemma IsValid_simps [simp]:
  "\<not> IsValid AddrZero" "IsValid (Addr4 w)" "IsValid (Addr6 v z)"
  by (simp_all add: IsValid_def)

lemma be_word32_As4: "be_word32 (As4 w) = w"
proof (rule bit_word_eqI)
  fix n assume "n < LENGTH(32)"
  then consider "n < 8" | "8 \<le> n" "n < 16" | "16 \<le> n" "n < 24" | "24 \<le> n" "n < 32"
    by fastforce
  then show "bit (be_word32 (As4 w)) n = bit w n"
    by cases (auto simp: be_word32_def As4_def bit_simps)
qed

lemma Contains_24:
  "Contains (NetPrefix (Addr4 n) 24) a \<longleftrightarrow> (\<exists>w. a = Addr4 w \<and> drop_bit 8 w = drop_bit 8 n)"
proof -
  have "drop_bit 8 (w XOR n) = 0 \<longleftrightarrow> drop_bit 8 w = drop_bit 8 n" for w :: "32 word"
    by (auto simp: bit_eq_iff bit_simps)
  then show ?thesis by (auto simp: Contains_def split: addr.splits)
qed

end
