(* ===== verification/Policy.thy ===== *)
theory Policy
  imports Wire Netip
begin

text \<open>
  \<^verbatim>\<open>src/policy.go\<close>: the authorization engine. A Go map is modelled where it is ranged
  over as the list of its entries in iteration order (so its keys are distinct), and where it is
  only looked up as a partial function.
\<close>

section \<open>Definitions\<close>

type_synonym allow_map = "(string \<times> addrport) list"

record peerPolicy =
  pp_TunnelIP :: addr
  pp_Allow :: allow_map

record policy =
  pol_peers :: "addr \<rightharpoonup> (string \<rightharpoonup> addrport)"

text \<open>The inner loop of \<^verbatim>\<open>newPolicy\<close>, over one peer's allow map.\<close>

fun policy_allow :: "addr \<Rightarrow> (string \<rightharpoonup> addrport) \<Rightarrow> allow_map \<Rightarrow> (string \<rightharpoonup> addrport) result" where
  "policy_allow ip allow [] = Inr allow"
| "policy_allow ip allow ((name, backend) # es) =
     (if \<not> ValidServiceName name
      then Inl (errors_New (''gocloak: policy: peer '' @ Addr_String ip @ '': invalid service name''))
      else if \<not> ap_IsValid backend \<or> ap_port backend = 0 \<or> IsUnspecified (ap_addr backend)
      then Inl (errors_New (''gocloak: policy: peer '' @ Addr_String ip @ '': service '' @ name
             @ '': invalid backend address''))
      else policy_allow ip (allow(name \<mapsto> backend)) es)"

text \<open>The outer loop, over the peers.\<close>

fun policy_loop :: "(addr \<rightharpoonup> (string \<rightharpoonup> addrport)) \<Rightarrow> peerPolicy list
    \<Rightarrow> (addr \<rightharpoonup> (string \<rightharpoonup> addrport)) result" where
  "policy_loop m [] = Inr m"
| "policy_loop m (p # ps) =
     (if \<not> IsValid (pp_TunnelIP p)
      then Inl (errors_New ''gocloak: policy: peer has an invalid tunnel ip'')
      else let tunnelIP = Unmap (pp_TunnelIP p) in
        if IsUnspecified tunnelIP
        then Inl (errors_New (''gocloak: policy: peer '' @ Addr_String tunnelIP
               @ '': unspecified tunnel ip is not allowed''))
        else if m tunnelIP \<noteq> None
        then Inl (errors_New (''gocloak: policy: duplicate tunnel ip '' @ Addr_String tunnelIP))
        else andThen (policy_allow tunnelIP Map.empty (pp_Allow p))
               (\<lambda>allow. policy_loop (m(tunnelIP \<mapsto> allow)) ps))"

definition newPolicy :: "peerPolicy list \<Rightarrow> policy result" where
  "newPolicy peers = andThen (policy_loop Map.empty peers) (\<lambda>m. Inr \<lparr>pol_peers = m\<rparr>)"

definition Resolve :: "policy \<Rightarrow> addr \<Rightarrow> string \<Rightarrow> addrport option" where
  "Resolve p peerTunnelIP serviceName =
     (case pol_peers p (Unmap peerTunnelIP) of
        None \<Rightarrow> None
      | Some allow \<Rightarrow> allow serviceName)"

section \<open>Specification\<close>

text \<open>
  What the peer definitions grant: an explicit entry of the peer whose address it is, nothing
  else.
\<close>

definition peer_grants :: "peerPolicy \<Rightarrow> addr \<Rightarrow> string \<Rightarrow> addrport \<Rightarrow> bool" where
  "peer_grants p ip name b = (Unmap (pp_TunnelIP p) = Unmap ip \<and> (name, b) \<in> set (pp_Allow p))"

definition backend_ok :: "addrport \<Rightarrow> bool" where
  "backend_ok b = (ap_IsValid b \<and> ap_port b \<noteq> 0 \<and> \<not> IsUnspecified (ap_addr b))"

definition entry_ok :: "string \<times> addrport \<Rightarrow> bool" where
  "entry_ok e = (ValidServiceName (fst e) \<and> backend_ok (snd e))"

definition peer_ok :: "peerPolicy \<Rightarrow> bool" where
  "peer_ok p = (IsValid (pp_TunnelIP p) \<and> \<not> IsUnspecified (Unmap (pp_TunnelIP p))
     \<and> list_all entry_ok (pp_Allow p))"

definition wf_allow :: "allow_map \<Rightarrow> bool" where
  "wf_allow es = distinct (map fst es)"

text \<open>
  The contract the rest of the program relies on: a policy that was built decides exactly the
  grants it was built from, keyed by the address up to its IPv4-in-IPv6 spelling.
\<close>

locale policy_engine =
  fixes build :: "'cfg list \<Rightarrow> 'pol result"
    and resolve :: "'pol \<Rightarrow> addr \<Rightarrow> string \<Rightarrow> addrport option"
    and grants :: "'cfg \<Rightarrow> addr \<Rightarrow> string \<Rightarrow> addrport \<Rightarrow> bool"
    and holds :: "'cfg \<Rightarrow> addr \<Rightarrow> bool"
    and wf :: "'cfg \<Rightarrow> bool"
  assumes resolve_iff: "build cs = Inr pol \<Longrightarrow> list_all wf cs \<Longrightarrow>
      resolve pol ip name = Some b \<longleftrightarrow> (\<exists>c \<in> set cs. grants c ip name b)"
    and grants_holds: "grants c ip name b \<Longrightarrow> holds c ip"
    and holds_unmap: "holds c (Unmap ip) = holds c ip"
    and grants_unmap: "grants c (Unmap ip) name b = grants c ip name b"
begin

lemma default_deny:
  assumes "build cs = Inr pol" "list_all wf cs" "\<And>c. c \<in> set cs \<Longrightarrow> \<not> holds c ip"
  shows "resolve pol ip name = None"
proof (rule ccontr)
  assume "resolve pol ip name \<noteq> None"
  then obtain b where "resolve pol ip name = Some b" by blast
  then show False using assms resolve_iff grants_holds by blast
qed

lemma spelling_independent:
  assumes "build cs = Inr pol" "list_all wf cs"
  shows "resolve pol (Unmap ip) name = resolve pol ip name"
proof -
  have "resolve pol (Unmap ip) name = Some b \<longleftrightarrow> resolve pol ip name = Some b" for b
    using assms resolve_iff grants_unmap by simp
  then show ?thesis by (metis not_Some_eq)
qed

text \<open>What one peer may reach does not depend on any entry of another peer.\<close>

lemma isolation:
  assumes "build cs = Inr pol" "list_all wf cs" "build cs' = Inr pol'" "list_all wf cs'"
    and same: "\<And>c. holds c ip \<Longrightarrow> c \<in> set cs \<longleftrightarrow> c \<in> set cs'"
  shows "resolve pol ip name = resolve pol' ip name"
proof -
  have "resolve pol ip name = Some b \<longleftrightarrow> resolve pol' ip name = Some b" for b
    using assms resolve_iff grants_holds by metis
  then show ?thesis by (metis not_Some_eq)
qed

end

section \<open>Lemmas\<close>

lemma policy_allow_Inr:
  "policy_allow ip allow es = Inr m \<longleftrightarrow> list_all entry_ok es \<and> m = allow ++ map_of (rev es)"
  by (induction es arbitrary: allow)
    (auto simp: entry_ok_def backend_ok_def map_add_assoc split: if_splits)

lemma map_of_rev_wf: "wf_allow es \<Longrightarrow> map_of (rev es) = map_of es"
  unfolding wf_allow_def by (subst map_of_inject_set) (simp_all flip: rev_map)

text \<open>Success of the loop, exactly: every peer is valid and no address is repeated.\<close>

lemma policy_loop_Inr:
  "policy_loop m ps = Inr m' \<longleftrightarrow>
     list_all peer_ok ps
     \<and> distinct (map (\<lambda>p. Unmap (pp_TunnelIP p)) ps)
     \<and> (\<forall>p \<in> set ps. m (Unmap (pp_TunnelIP p)) = None)
     \<and> m' = m ++ map_of (map (\<lambda>p. (Unmap (pp_TunnelIP p), map_of (rev (pp_Allow p)))) ps)"
    (is "?l m ps m' \<longleftrightarrow> ?r m ps m'")
proof (induction ps arbitrary: m)
  case Nil
  then show ?case by auto
next
  case (Cons p ps)
  define ip al qs where "ip = Unmap (pp_TunnelIP p)" and "al = map_of (rev (pp_Allow p))"
    and "qs = map (\<lambda>p. (Unmap (pp_TunnelIP p), map_of (rev (pp_Allow p)))) ps"
  have fst_qs: "fst ` set qs = (\<lambda>p. Unmap (pp_TunnelIP p)) ` set ps"
    by (auto simp: qs_def image_iff)
  have entries: "map (\<lambda>p. (Unmap (pp_TunnelIP p), map_of (rev (pp_Allow p)))) (p # ps) = (ip, al) # qs"
    by (simp add: ip_def al_def qs_def)
  have "?l m (p # ps) m' \<longleftrightarrow> peer_ok p \<and> m ip = None \<and> ?l (m(ip \<mapsto> al)) ps m'"
    by (auto simp: Let_def andThen_eq_Inr policy_allow_Inr peer_ok_def ip_def al_def fun_upd_def)
  also have "\<dots> \<longleftrightarrow> peer_ok p \<and> m ip = None \<and> list_all peer_ok ps
      \<and> distinct (map (\<lambda>p. Unmap (pp_TunnelIP p)) ps)
      \<and> (\<forall>p \<in> set ps. m (Unmap (pp_TunnelIP p)) = None) \<and> ip \<notin> fst ` set qs
      \<and> m' = m(ip \<mapsto> al) ++ map_of qs"
    unfolding Cons.IH qs_def by (auto simp: image_iff split: if_splits)
  also have "\<dots> \<longleftrightarrow> peer_ok p \<and> m ip = None \<and> list_all peer_ok ps
      \<and> distinct (map (\<lambda>p. Unmap (pp_TunnelIP p)) ps)
      \<and> (\<forall>p \<in> set ps. m (Unmap (pp_TunnelIP p)) = None) \<and> ip \<notin> fst ` set qs
      \<and> m' = m ++ map_of ((ip, al) # qs)"
    using map_add_upd_Cons [of ip qs m al] by metis
  also have "\<dots> \<longleftrightarrow> ?r m (p # ps) m'"
    unfolding entries fst_qs by (auto simp: ip_def simp del: map_of.simps)
  finally show ?case .
qed

lemma newPolicy_Inr:
  "newPolicy ps = Inr pol \<longleftrightarrow>
     list_all peer_ok ps \<and> distinct (map (\<lambda>p. Unmap (pp_TunnelIP p)) ps)
     \<and> pol = \<lparr>pol_peers = map_of (map (\<lambda>p. (Unmap (pp_TunnelIP p), map_of (rev (pp_Allow p)))) ps)\<rparr>"
  by (auto simp: newPolicy_def andThen_eq_Inr policy_loop_Inr)

lemma Resolve_newPolicy:
  assumes "newPolicy ps = Inr pol" and "list_all (\<lambda>p. wf_allow (pp_Allow p)) ps"
  shows "Resolve pol ip name = Some b \<longleftrightarrow> (\<exists>p \<in> set ps. peer_grants p ip name b)"
proof -
  let ?f = "\<lambda>p. (Unmap (pp_TunnelIP p), map_of (rev (pp_Allow p)))"
  have dist: "distinct (map fst (map ?f ps))" and pol: "pol_peers pol = map_of (map ?f ps)"
    using assms(1) by (auto simp: newPolicy_Inr comp_def)
  have "Resolve pol ip name = Some b \<longleftrightarrow>
      (\<exists>al. map_of (map ?f ps) (Unmap ip) = Some al \<and> al name = Some b)"
    by (auto simp: Resolve_def pol split: option.splits)
  also have "\<dots> \<longleftrightarrow> (\<exists>p \<in> set ps. Unmap (pp_TunnelIP p) = Unmap ip
      \<and> map_of (rev (pp_Allow p)) name = Some b)"
    unfolding map_of_eq_Some_iff [OF dist] by (simp add: image_iff) metis
  also have "\<dots> \<longleftrightarrow> (\<exists>p \<in> set ps. peer_grants p ip name b)"
    using assms(2) unfolding list_all_iff peer_grants_def
    by (intro bex_cong refl conj_cong) (simp_all add: map_of_rev_wf wf_allow_def)
  finally show ?thesis .
qed

interpretation pe: policy_engine newPolicy Resolve peer_grants
    "\<lambda>p ip. Unmap (pp_TunnelIP p) = Unmap ip" "\<lambda>p. wf_allow (pp_Allow p)"
  by unfold_locales (auto simp: Resolve_newPolicy, auto simp: peer_grants_def)

lemma peer_ok_entry:
  "newPolicy ps = Inr pol \<Longrightarrow> p \<in> set ps \<Longrightarrow> (name, b) \<in> set (pp_Allow p) \<Longrightarrow>
     ValidServiceName name \<and> backend_ok b"
  by (fastforce simp: newPolicy_Inr list_all_iff peer_ok_def entry_ok_def)

section \<open>Properties\<close>

text \<open>
  Claim C5. Authorization is exactly the explicit grants. A policy that was built from peer
  definitions resolves a name to a backend for a tunnel address if and only if the peer definition
  holding that address (in either spelling) lists that name with that backend; and whatever it
  resolves to is a dialable address: valid, specified, with a non-zero port, under a valid name.
  There is no wildcard and no fallback: absence is denial.
\<close>

theorem policy_resolve_exact:
  assumes "newPolicy ps = Inr pol" and "list_all (\<lambda>p. wf_allow (pp_Allow p)) ps"
  shows "(Resolve pol ip name = Some b) = (\<exists>p \<in> set ps. peer_grants p ip name b)
    \<and> (Resolve pol ip name = Some b \<longrightarrow> ValidServiceName name \<and> backend_ok b)"
  using pe.resolve_iff [OF assms] peer_ok_entry [OF assms(1)] by (auto simp: peer_grants_def)

definition example_peers :: "peerPolicy list" where
  "example_peers =
     [\<lparr>pp_TunnelIP = Addr4 0x0A630007, pp_Allow = [(''db'', AddrPort (Addr4 0xC000020A) 3306)]\<rparr>,
      \<lparr>pp_TunnelIP = Addr4 0x0A630008, pp_Allow = []\<rparr>]"

lemma example_peers_policy: "\<exists>pol. newPolicy example_peers = Inr pol"
  and example_peers_wf: "list_all (\<lambda>p. wf_allow (pp_Allow p)) example_peers"
  by (simp_all add: newPolicy_Inr example_peers_def peer_ok_def entry_ok_def backend_ok_def
      ap_IsValid_def IsUnspecified_def wf_allow_def ValidServiceName_def nameRE_def name_first_def
      name_rest_def is_lower_def)

theorem policy_resolve_exact_witness:
  "\<exists>pol. newPolicy example_peers = Inr pol
     \<and> Resolve pol (Addr4 0x0A630007) ''db'' = Some (AddrPort (Addr4 0xC000020A) 3306)
     \<and> Resolve pol (Addr4 0x0A630008) ''db'' = None"
proof -
  obtain pol where p: "newPolicy example_peers = Inr pol" using example_peers_policy by blast
  note iff = policy_resolve_exact [OF p example_peers_wf, THEN conjunct1]
  have "Resolve pol (Addr4 0x0A630008) ''db'' \<noteq> Some b" for b
    unfolding iff by (simp add: example_peers_def peer_grants_def)
  moreover have "Resolve pol (Addr4 0x0A630007) ''db'' = Some (AddrPort (Addr4 0xC000020A) 3306)"
    unfolding iff by (simp add: example_peers_def peer_grants_def)
  ultimately show ?thesis using p by (auto simp: option.expand)
qed

text \<open>
  Construction is all or nothing and validates everything: a policy is built if and only
  if every peer has a valid, specified tunnel address, every entry has a valid service name and a
  dialable backend, and no two peers share an address, not even in two spellings of it.
\<close>

theorem policy_construction_exact:
  "(\<exists>pol. newPolicy ps = Inr pol) =
     (list_all peer_ok ps \<and> distinct (map (\<lambda>p. Unmap (pp_TunnelIP p)) ps))"
  by (simp add: newPolicy_Inr)

text \<open>
  Cross-peer isolation: what a tunnel address may reach is unchanged by adding, removing
  or editing any number of peers that hold other addresses.
\<close>

theorem policy_isolation:
  assumes "newPolicy ps = Inr pol" "list_all (\<lambda>p. wf_allow (pp_Allow p)) ps"
    and "newPolicy qs = Inr pol'" "list_all (\<lambda>p. wf_allow (pp_Allow p)) qs"
    and "\<And>p. Unmap (pp_TunnelIP p) = Unmap ip \<Longrightarrow> p \<in> set ps \<longleftrightarrow> p \<in> set qs"
  shows "Resolve pol ip name = Resolve pol' ip name"
  using assms by (rule pe.isolation)

theorem policy_isolation_witness:
  "\<exists>pol pol'. newPolicy example_peers = Inr pol \<and> newPolicy [hd example_peers] = Inr pol'
     \<and> Resolve pol (Addr4 0x0A630007) ''db'' = Resolve pol' (Addr4 0x0A630007) ''db''"
proof -
  obtain pol where p: "newPolicy example_peers = Inr pol" using example_peers_policy by blast
  then have "\<exists>pol'. newPolicy [hd example_peers] = Inr pol'"
    by (auto simp: newPolicy_Inr example_peers_def)
  then obtain pol' where p': "newPolicy [hd example_peers] = Inr pol'" by blast
  have wf: "list_all (\<lambda>p. wf_allow (pp_Allow p)) [hd example_peers]"
    using example_peers_wf by (simp add: example_peers_def)
  have same: "p \<in> set example_peers \<longleftrightarrow> p \<in> set [hd example_peers]"
    if "Unmap (pp_TunnelIP p) = Unmap (Addr4 0x0A630007)" for p
    using that by (auto simp: example_peers_def)
  show ?thesis using p p' policy_isolation [OF p example_peers_wf p' wf same] by blast
qed

end
