(* ===== verification/Secret.thy ===== *)
theory Secret
  imports Prelude
begin

unbundle bit_operations_syntax

text \<open>
  \<^verbatim>\<open>src/secret.go\<close>: secret references and their resolution. The operating system is a
  record of what opening, inspecting and reading a file and looking up a variable will give. The
  caller's \<^verbatim>\<open>SecretResolver\<close> is a parameter: a function from a reference to a value or
  an error, or none.
\<close>

section \<open>Definitions\<close>

type_synonym SecretRef = string

record osfile =
  of_mode :: "32 word"
  of_data :: string
  of_stat_err :: "goerror option"
  of_read_err :: "goerror option"

record osworld =
  os_open :: "string \<Rightarrow> osfile result"
  os_env :: "string \<rightharpoonup> string"

type_synonym SecretResolver = "SecretRef \<Rightarrow> string result"

datatype secret = Secret (secret_bytes: string)

definition secret_String :: "secret \<Rightarrow> string" where
  "secret_String s = ''[REDACTED]''"

definition secret_GoString :: "secret \<Rightarrow> string" where
  "secret_GoString s = ''[REDACTED]''"

definition noSchemeMessage :: string where
  "noSchemeMessage = ''secret: reference has no scheme: want <scheme>:<value>, for example ''
     @ ''file:/etc/gocloak/server.key or env:GOCLOAK_PSK, or a scheme your SecretResolver ''
     @ ''handles such as aws:sm:<secret-id>. The value given is not repeated here, because a ''
     @ ''reference with no scheme is usually a literal key pasted where a reference belongs''"

definition badSchemeMessage :: string where
  "badSchemeMessage = ''secret: reference does not start with a usable scheme: a scheme is a ''
     @ ''lowercase letter followed by lowercase letters, digits, '' @ [CHR 0x27] @ ''+'' @ [CHR 0x27]
     @ '', '' @ [CHR 0x27] @ ''-'' @ [CHR 0x27] @ '' or '' @ [CHR 0x27] @ ''.'' @ [CHR 0x27]
     @ '', as in file:, ''
     @ ''env: or aws:sm:. The value given is not repeated here, because it may be a literal key ''
     @ ''pasted where a reference belongs''"

text \<open>The loop of \<^verbatim>\<open>validSchemeName\<close>; \<open>first\<close> is \<^verbatim>\<open>i == 0\<close>.\<close>

fun scheme_loop :: "bool \<Rightarrow> string \<Rightarrow> bool" where
  "scheme_loop first [] = True"
| "scheme_loop first (c # cs) =
     (if is_lower c then scheme_loop False cs
      else if \<not> first \<and> (is_digit_char c \<or> c = CHR ''+'' \<or> c = CHR ''-'' \<or> c = CHR ''.'')
      then scheme_loop False cs
      else False)"

definition validSchemeName :: "string \<Rightarrow> bool" where
  "validSchemeName s = (if s = [] then False else scheme_loop True s)"

definition parseSecretRef :: "SecretRef \<Rightarrow> (string \<times> string) result" where
  "parseSecretRef ref =
     (if ref = [] then Inl (errors_New ''secret: empty reference'')
      else case index_byte ref (CHR '':'') of
        None \<Rightarrow> Inl (errors_New noSchemeMessage)
      | Some i \<Rightarrow>
          let scheme = take i ref; payload = drop (Suc i) ref in
          if \<not> validSchemeName scheme then Inl (errors_New badSchemeMessage)
          else if payload = []
          then Inl (errors_New (''secret: scheme '' @ scheme @ '' has an empty payload: want ''
                 @ scheme @ '':<value>''))
          else Inr (scheme, payload))"

definition Perm :: "32 word \<Rightarrow> 32 word" where
  "Perm m = m AND 0x1FF"

fun show_octal :: "nat \<Rightarrow> string" where
  "show_octal n = (if n < 8 then [digit_char n] else show_octal (n div 8) @ [digit_char (n mod 8)])"

declare show_octal.simps [simp del]

text \<open>The octal mask \<^verbatim>\<open>0o077\<close> is \<open>0x3F\<close>; \<^verbatim>\<open>%#o\<close> puts a zero in front.\<close>

definition resolveFile :: "osworld \<Rightarrow> string \<Rightarrow> secret result" where
  "resolveFile w path =
     (case os_open w path of
        Inl err \<Rightarrow> Inl (errorf_w (''secret: file:'' @ path @ '': '') err '''')
      | Inr f \<Rightarrow>
          (case of_stat_err f of
             Some err \<Rightarrow> Inl (errorf_w (''secret: file:'' @ path @ '': '') err '''')
           | None \<Rightarrow>
               if Perm (of_mode f) AND 0x3F \<noteq> 0
               then Inl (errors_New (''secret: file:'' @ path @ '': permissions 0''
                      @ show_octal (unat (Perm (of_mode f))) @ '' are looser than 0600''))
               else (case of_read_err f of
                   Some err \<Rightarrow> Inl (errorf_w (''secret: file:'' @ path @ '': '') err '''')
                 | None \<Rightarrow> Inr (Secret (of_data f)))))"

definition resolveEnv :: "osworld \<Rightarrow> string \<Rightarrow> secret result" where
  "resolveEnv w name =
     (case os_env w name of
        None \<Rightarrow> Inl (errors_New (''secret: env:'' @ name @ '': not set''))
      | Some value \<Rightarrow> Inr (Secret value))"

definition needs_resolver_msg :: "string \<Rightarrow> string" where
  "needs_resolver_msg scheme = ''secret: scheme '' @ [CHR 0x22] @ scheme @ [CHR 0x22]
     @ '' needs a Resolver: this package resolves file: and env: itself, and every other scheme ''
     @ ''comes from the SecretResolver set on ClientConfig.Resolver or ServerConfig.Resolver ''
     @ ''(aws:sm: and aws:ssm: live in github.com/jbrahy/gocloak/awssecrets)''"

definition secret_Resolve :: "SecretResolver option \<Rightarrow> osworld \<Rightarrow> SecretRef \<Rightarrow> secret result" where
  "secret_Resolve external w ref =
     (case parseSecretRef ref of
        Inl err \<Rightarrow> Inl err
      | Inr (scheme, payload) \<Rightarrow>
          if scheme = ''file'' then resolveFile w payload
          else if scheme = ''env'' then resolveEnv w payload
          else (case external of
              None \<Rightarrow> Inl (errors_New (needs_resolver_msg scheme))
            | Some resolve \<Rightarrow>
                (case resolve ref of
                   Inl rerr \<Rightarrow> Inl (errorf_w (''secret: '' @ scheme @ '': resolver: '') rerr '''')
                 | Inr value \<Rightarrow>
                     if value = []
                     then Inl (errors_New (''secret: '' @ scheme @ '': resolver returned no value''))
                     else Inr (Secret value))))"

section \<open>Lemmas\<close>

lemma scheme_loop_no_colon: "scheme_loop b s \<Longrightarrow> CHR '':'' \<notin> set s"
  by (induction b s rule: scheme_loop.induct)
    (auto simp: is_lower_def is_digit_char_def split: if_splits)

lemma validSchemeName_no_colon: "validSchemeName s \<Longrightarrow> CHR '':'' \<notin> set s"
  by (auto simp: validSchemeName_def dest: scheme_loop_no_colon split: if_splits)

lemma validSchemeName_nonempty: "validSchemeName s \<Longrightarrow> s \<noteq> []"
  by (auto simp: validSchemeName_def)

lemma parseSecretRef_colon:
  assumes "CHR '':'' \<notin> set s"
  shows "parseSecretRef (s @ CHR '':'' # p) =
    (if \<not> validSchemeName s then Inl (errors_New badSchemeMessage)
     else if p = []
     then Inl (errors_New (''secret: scheme '' @ s @ '' has an empty payload: want '' @ s @ '':<value>''))
     else Inr (s, p))"
  using assms by (simp add: parseSecretRef_def Let_def)

text \<open>Parsing a reference is the inverse of writing one.\<close>

lemma parseSecretRef_Inr:
  "parseSecretRef ref = Inr (s, p) \<longleftrightarrow> ref = s @ CHR '':'' # p \<and> validSchemeName s \<and> p \<noteq> []"
proof
  assume "parseSecretRef ref = Inr (s, p)"
  then obtain i where i: "index_byte ref (CHR '':'') = Some i" and "s = take i ref"
      "p = drop (Suc i) ref" "validSchemeName s" "p \<noteq> []"
    by (auto simp: parseSecretRef_def Let_def split: option.splits if_splits)
  then show "ref = s @ CHR '':'' # p \<and> validSchemeName s \<and> p \<noteq> []"
    using index_byte_split [OF i] by simp
next
  assume "ref = s @ CHR '':'' # p \<and> validSchemeName s \<and> p \<noteq> []"
  then show "parseSecretRef ref = Inr (s, p)"
    using parseSecretRef_colon [OF validSchemeName_no_colon] by simp
qed

lemma resolveFile_Inr:
  "resolveFile w path = Inr s \<longleftrightarrow>
     (\<exists>f. os_open w path = Inr f \<and> of_stat_err f = None \<and> of_read_err f = None
        \<and> Perm (of_mode f) AND 0x3F = 0 \<and> s = Secret (of_data f))"
  by (auto simp: resolveFile_def split: sum.splits option.splits)

section \<open>The resolver interface\<close>

text \<open>
  What the core asks of a \<^verbatim>\<open>SecretResolver\<close>: which references it has a value for, and which
  value. The rest follows from how the core consults it: it adds the check for an empty value,
  never asks for the two built-in schemes, and never answers in the resolver's place.
\<close>

locale secret_store =
  fixes resolve :: SecretResolver
    and holds :: "SecretRef \<Rightarrow> string \<Rightarrow> bool"
  assumes resolve_holds: "resolve ref = Inr v \<longleftrightarrow> holds ref v"
begin

lemma resolves:
  assumes "validSchemeName s" "s \<noteq> ''file''" "s \<noteq> ''env''" "p \<noteq> []"
  shows "secret_Resolve (Some resolve) w (s @ CHR '':'' # p) = Inr (Secret v) \<longleftrightarrow> v \<noteq> [] \<and> holds (s @ CHR '':'' # p) v"
proof -
  have "parseSecretRef (s @ CHR '':'' # p) = Inr (s, p)" using assms by (simp add: parseSecretRef_Inr)
  then show ?thesis
    using assms(2,3) unfolding resolve_holds [symmetric] by (auto simp: secret_Resolve_def split: sum.splits)
qed

lemma built_in:
  assumes "s = ''file'' \<or> s = ''env''"
  shows "secret_Resolve (Some resolve) w (s @ CHR '':'' # p) = secret_Resolve None w (s @ CHR '':'' # p)"
proof -
  have "CHR '':'' \<notin> set s" using assms by auto
  then show ?thesis
    using assms by (auto simp: secret_Resolve_def parseSecretRef_colon split: sum.splits)
qed

lemma functional: "holds ref v \<Longrightarrow> holds ref v' \<Longrightarrow> v = v'"
  unfolding resolve_holds [symmetric] by simp

end

section \<open>Properties\<close>

text \<open>
  Claim C18. Parsing a reference is exact and its failures are discreet. A reference parses to a
  scheme and a payload if and only if it is that scheme, a colon and that non-empty payload; and
  when it does not parse, the error text is one of three constants or names a scheme that passed
  the scheme check, so no other part of the text given, which may be a pasted key, is repeated.
\<close>

theorem parseSecretRef_exact_and_discreet:
  "(parseSecretRef ref = Inr (s, p)) = (ref = s @ CHR '':'' # p \<and> validSchemeName s \<and> p \<noteq> [])
   \<and> (\<forall>e. parseSecretRef ref = Inl e \<longrightarrow>
        emsg e \<in> {''secret: empty reference'', noSchemeMessage, badSchemeMessage}
        \<or> (\<exists>t. validSchemeName t \<and> ref = t @ '':''
             \<and> emsg e = ''secret: scheme '' @ t @ '' has an empty payload: want '' @ t @ '':<value>''))"
proof (intro conjI allI impI)
  fix e assume e: "parseSecretRef ref = Inl e"
  show "emsg e \<in> {''secret: empty reference'', noSchemeMessage, badSchemeMessage}
        \<or> (\<exists>t. validSchemeName t \<and> ref = t @ '':''
             \<and> emsg e = ''secret: scheme '' @ t @ '' has an empty payload: want '' @ t @ '':<value>'')"
  proof (cases "index_byte ref (CHR '':'')")
    case None
    with e show ?thesis by (auto simp: parseSecretRef_def errors_New_def split: if_splits)
  next
    case (Some i)
    then have ref: "ref = take i ref @ CHR '':'' # drop (Suc i) ref" "CHR '':'' \<notin> set (take i ref)"
      using index_byte_split [OF Some] index_byte_Some [OF Some] by auto
    with e show ?thesis
      using parseSecretRef_colon [OF ref(2), of "drop (Suc i) ref"]
      by (auto simp: errors_New_def split: if_splits)
  qed
qed (rule parseSecretRef_Inr)

theorem parseSecretRef_exact_and_discreet_witness:
  "parseSecretRef ''file:/etc/k'' = Inr (''file'', ''/etc/k'')
   \<and> (\<exists>e. parseSecretRef ''env:'' = Inl e \<and>
        (emsg e \<in> {''secret: empty reference'', noSchemeMessage, badSchemeMessage}
         \<or> (\<exists>t. validSchemeName t \<and> ''env:'' = t @ '':''
             \<and> emsg e = ''secret: scheme '' @ t @ '' has an empty payload: want '' @ t @ '':<value>'')))"
proof -
  have v: "validSchemeName ''file'' \<and> validSchemeName ''env''"
    by (simp add: validSchemeName_def is_lower_def)
  have "\<exists>e. parseSecretRef ''env:'' = Inl e"
    using v parseSecretRef_colon [of "''env''" "[]"] by simp
  then obtain e where e: "parseSecretRef ''env:'' = Inl e" by blast
  show ?thesis
    using v e parseSecretRef_exact_and_discreet [of "''file:/etc/k''" "''file''" "''/etc/k''"]
      parseSecretRef_exact_and_discreet [of "''env:''" "[]" "[]"] by simp
qed

text \<open>
  Which secret a reference yields, in full. Resolution succeeds only with the contents of
  a readable file whose permission bits grant nothing to group and others, with the value of a set
  environment variable, or with a non-empty value from the configured resolver for a scheme that is
  neither \<^verbatim>\<open>file\<close> nor \<^verbatim>\<open>env\<close>. The reference itself is never used as the
  value, and a resolver cannot take over the two built-in schemes.
\<close>

theorem secret_resolution_exact:
  "secret_Resolve ext w ref = Inr (Secret v) \<longleftrightarrow>
     (\<exists>s p. ref = s @ CHR '':'' # p \<and> validSchemeName s \<and> p \<noteq> [] \<and>
        (if s = ''file'' then \<exists>f. os_open w p = Inr f \<and> of_stat_err f = None
             \<and> of_read_err f = None \<and> Perm (of_mode f) AND 0x3F = 0 \<and> v = of_data f
         else if s = ''env'' then os_env w p = Some v
         else \<exists>r. ext = Some r \<and> r ref = Inr v \<and> v \<noteq> []))"
proof (cases "parseSecretRef ref")
  case (Inl e)
  then have "\<not> (\<exists>s p. ref = s @ CHR '':'' # p \<and> validSchemeName s \<and> p \<noteq> [])"
    by (metis parseSecretRef_Inr sum.distinct(1))
  with Inl show ?thesis unfolding secret_Resolve_def by (simp; blast)
next
  case (Inr sp)
  obtain s p where sp: "sp = (s, p)" by (cases sp)
  have uniq: "((ref = s' @ CHR '':'' # p' \<and> validSchemeName s') \<and> p' \<noteq> []) \<longleftrightarrow> s' = s \<and> p' = p" for s' p'
    using Inr sp parseSecretRef_Inr [of ref s' p'] by auto
  have "secret_Resolve ext w ref = Inr (Secret v) \<longleftrightarrow>
      (if s = ''file'' then \<exists>f. os_open w p = Inr f \<and> of_stat_err f = None
             \<and> of_read_err f = None \<and> Perm (of_mode f) AND 0x3F = 0 \<and> v = of_data f
         else if s = ''env'' then os_env w p = Some v
         else \<exists>r. ext = Some r \<and> r ref = Inr v \<and> v \<noteq> [])"
    by (auto simp: secret_Resolve_def Inr sp resolveFile_Inr resolveEnv_def
        split: option.splits sum.splits if_splits)
  then show ?thesis unfolding conj_assoc [symmetric] uniq by simp
qed

end
