(* ===== verification/Sanitize.thy ===== *)
theory Sanitize
  imports Prelude
begin

text \<open>
  The YAML error sanitizer of \<^verbatim>\<open>src/config.go\<close>: what of a decoder's message may be kept,
  given that parts of it are text from the document and may be a pasted key.
\<close>

section \<open>Definitions\<close>

definition yamlDupKeyPrefix :: string where
  "yamlDupKeyPrefix = ''mapping key ''"

definition yamlDupKeySuffix :: string where
  "yamlDupKeySuffix = '' already defined at line ''"

definition yamlFieldPrefix :: string where
  "yamlFieldPrefix = ''field ''"

definition yamlUnknownFieldMarker :: string where
  "yamlUnknownFieldMarker = '' not found in type ''"

definition yamlFieldSetMarker :: string where
  "yamlFieldSetMarker = '' already set in type ''"

text \<open>\<^verbatim>\<open>^[a-z][a-z0-9_]{0,39}$\<close>\<close>

definition yamlFieldNameRE :: "string \<Rightarrow> bool" where
  "yamlFieldNameRE s = (case s of [] \<Rightarrow> False
     | c # cs \<Rightarrow> is_lower c \<and> list_all (\<lambda>c. is_lower c \<or> is_digit_char c \<or> c = CHR ''_'') cs
         \<and> length cs \<le> 39)"

definition yamlLinePrefix :: "string \<Rightarrow> string" where
  "yamlLinePrefix msg =
     (if \<not> has_prefix msg ''line '' then []
      else case str_index msg '': '' of None \<Rightarrow> [] | Some i \<Rightarrow> take (i + 2) msg)"

text \<open>
  One message: the result, or none where a slice expression panics. The only expression that can is
  the one that cuts out the name of an unknown field.
\<close>

definition sanitizeYAMLMessage :: "string \<Rightarrow> string option" where
  "sanitizeYAMLMessage m =
     (let pre = yamlLinePrefix m;
          rest = drop (length pre) m;
          tail = (if str_contains rest yamlFieldSetMarker then Some m
                  else Some (pre @ ''value is not valid for this field (value redacted)''));
          unknown =
            (if has_prefix rest yamlFieldPrefix then
               case str_last_index rest yamlUnknownFieldMarker of
                 Some i \<Rightarrow>
                   (case str_slice rest (length yamlFieldPrefix) i of
                      None \<Rightarrow> None
                    | Some name \<Rightarrow>
                        if yamlFieldNameRE name then Some m
                        else Some (pre @ yamlFieldPrefix @ ''(redacted)'' @ drop i rest))
               | None \<Rightarrow> tail
             else tail)
      in if has_prefix rest yamlDupKeyPrefix then
           case str_last_index rest yamlDupKeySuffix of
             Some i \<Rightarrow> Some (pre @ yamlDupKeyPrefix @ ''(redacted)'' @ drop i rest)
           | None \<Rightarrow> unknown
         else unknown)"

text \<open>
  The errors of the YAML decoder: end of input, a list of type errors, or a parser error, which
  reports structure only.
\<close>

datatype yaml_error = YamlEOF | YamlTypeError "string list" | YamlOther goerror

definition slice_panic :: goerror where
  "slice_panic = GoError ''runtime error: slice bounds out of range'' [RuntimePanic]"

definition sanitizeYAMLError :: "yaml_error \<Rightarrow> goerror" where
  "sanitizeYAMLError err =
     (case err of
        YamlTypeError msgs \<Rightarrow>
          (case those (map sanitizeYAMLMessage msgs) of
             None \<Rightarrow> slice_panic
           | Some kept \<Rightarrow> errors_New (''yaml: '' @ str_join kept ''; ''))
      | YamlOther e \<Rightarrow> e
      | YamlEOF \<Rightarrow> io_EOF)"

text \<open>The \<^verbatim>\<open>line N: \<close> that starts every message of a type error.\<close>

definition yaml_line :: "nat \<Rightarrow> string" where
  "yaml_line n = ''line '' @ show_nat n @ '': ''"

text \<open>The text of a type mismatch: the tag, at most ten characters of the value, the Go type.\<close>

definition yaml_mismatch :: "string \<Rightarrow> string \<Rightarrow> string \<Rightarrow> string" where
  "yaml_mismatch tag v ty = (''cannot unmarshal '' @ tag @ '' '') @ CHR 0x60 # v @ CHR 0x60 # '' into '' @ ty"

section \<open>Specification\<close>

text \<open>
  The messages the decoder puts into a type error, as its documentation and its formats give them. The
  key of the first, the name in the second, the tag and the value of the fourth are the document's own
  text; line numbers, the names of Go types and of struct fields are not. A mismatch quotes ten
  characters of the value at most; of a sequence or mapping it names the tag alone.
\<close>

datatype yaml_message =
    DuplicateKey nat string nat
  | UnknownField nat string string
  | AlreadySet nat string string
  | Mismatch nat string string string
  | CollectionMismatch nat string string

fun yaml_text :: "yaml_message \<Rightarrow> string" where
  "yaml_text (DuplicateKey n key at) = yaml_line n @ yamlDupKeyPrefix @ key @ yamlDupKeySuffix @ show_nat at"
| "yaml_text (UnknownField n key ty) = yaml_line n @ yamlFieldPrefix @ key @ yamlUnknownFieldMarker @ ty"
| "yaml_text (AlreadySet n field ty) = yaml_line n @ yamlFieldPrefix @ field @ yamlFieldSetMarker @ ty"
| "yaml_text (Mismatch n tag v ty) = yaml_line n @ yaml_mismatch tag v ty"
| "yaml_text (CollectionMismatch n tag ty) = yaml_line n @ ''cannot unmarshal '' @ tag @ '' into '' @ ty"

text \<open>What the decoder guarantees of its own part: no Go type of the peers file has a space in its name.\<close>

fun decoder_message :: "yaml_message \<Rightarrow> bool" where
  "decoder_message (DuplicateKey n key at) = True"
| "decoder_message (UnknownField n key ty) = (CHR '' '' \<notin> set ty)"
| "decoder_message (AlreadySet n field ty) = (yamlFieldNameRE field \<and> CHR '' '' \<notin> set ty)"
| "decoder_message (Mismatch n tag v ty) = (length v \<le> 10 \<and> CHR '' '' \<notin> set ty)"
| "decoder_message (CollectionMismatch n tag ty) = (tag \<in> {''!!seq'', ''!!map''} \<and> CHR '' '' \<notin> set ty)"

text \<open>
  What may be printed of each. The case distinction of the fourth is not intended: see the lemma
  \<open>tag_marker_leaks_value\<close>.
\<close>

definition tag_carries_marker :: "string \<Rightarrow> bool" where
  "tag_carries_marker tag = str_contains (''cannot unmarshal '' @ tag @ '' '') yamlFieldSetMarker"

fun safe_text :: "yaml_message \<Rightarrow> string" where
  "safe_text (DuplicateKey n key at) = yaml_line n @ yamlDupKeyPrefix @ ''(redacted)'' @ yamlDupKeySuffix @ show_nat at"
| "safe_text (UnknownField n key ty) =
     yaml_line n @ yamlFieldPrefix @ (if yamlFieldNameRE key then key else ''(redacted)'') @ yamlUnknownFieldMarker @ ty"
| "safe_text (AlreadySet n field ty) = yaml_line n @ yamlFieldPrefix @ field @ yamlFieldSetMarker @ ty"
| "safe_text (Mismatch n tag v ty) =
     (if tag_carries_marker tag then yaml_line n @ yaml_mismatch tag v ty
      else yaml_line n @ ''value is not valid for this field (value redacted)'')"
| "safe_text (CollectionMismatch n tag ty) = yaml_line n @ ''value is not valid for this field (value redacted)''"

section \<open>Lemmas\<close>

lemma str_index_first:
  "c \<notin> set u \<Longrightarrow> has_prefix (c # v) (c # s) \<Longrightarrow> str_index (u @ c # v) (c # s) = Some (length u)"
  by (induction u) (auto simp: has_prefix_prefix)

text \<open>The last occurrence of a text is found there when no later one overlaps or follows it.\<close>

lemma str_last_index_mid:
  assumes "sub \<noteq> []" "\<not> sublist sub (tl (sub @ v))"
  shows "str_last_index (u @ sub @ v) sub = Some (length u)"
proof (induction u)
  case Nil
  obtain x xs where sub: "sub = x # xs" using assms(1) by (cases sub) auto
  then have "str_last_index (xs @ v) sub = None" using assms(2) by (simp add: str_last_index_None)
  then show ?case by (simp add: sub has_prefix_prefix)
next
  case (Cons a u)
  then show ?case by simp
qed

lemma digit_char_digit: "d < 10 \<Longrightarrow> is_digit_char (digit_char d)"
  by (simp add: digit_char_def is_digit_char_def)

lemma show_nat_digits: "list_all is_digit_char (show_nat n)"
  by (induction n rule: show_nat.induct) (subst show_nat.simps, simp add: digit_char_digit)

lemma colon_not_digit: "list_all is_digit_char s \<Longrightarrow> CHR '':'' \<notin> set s"
  by (auto simp: list_all_iff is_digit_char_def)

lemma yamlLinePrefix_line [simp]: "yamlLinePrefix (yaml_line n @ rest) = yaml_line n"
proof -
  have "CHR '':'' \<notin> set (''line '' @ show_nat n)"
    using colon_not_digit [OF show_nat_digits] by simp
  from str_index_first [OF this, of "'' '' @ rest" "'' ''"]
  have "str_index (yaml_line n @ rest) '': '' = Some (5 + length (show_nat n))"
    by (simp add: yaml_line_def)
  moreover have "has_prefix (yaml_line n @ rest) ''line ''" by (simp add: yaml_line_def)
  ultimately show ?thesis by (simp add: yamlLinePrefix_def yaml_line_def)
qed

lemma sanitize_dup:
  assumes "\<not> sublist yamlDupKeySuffix (tl (yamlDupKeySuffix @ v))"
  shows "sanitizeYAMLMessage (yaml_line n @ yamlDupKeyPrefix @ key @ yamlDupKeySuffix @ v) =
    Some (yaml_line n @ yamlDupKeyPrefix @ ''(redacted)'' @ yamlDupKeySuffix @ v)"
  using str_last_index_mid [OF _ assms, of "yamlDupKeyPrefix @ key"]
  by (simp add: sanitizeYAMLMessage_def Let_def has_prefix_prefix yamlDupKeySuffix_def)

lemma field_not_dup [simp]: "\<not> prefix yamlDupKeyPrefix (yamlFieldPrefix @ w)"
  by (simp add: yamlFieldPrefix_def yamlDupKeyPrefix_def)

lemma sanitize_unknown:
  assumes "\<not> sublist yamlUnknownFieldMarker (tl (yamlUnknownFieldMarker @ v))"
  shows "sanitizeYAMLMessage (yaml_line n @ yamlFieldPrefix @ key @ yamlUnknownFieldMarker @ v) =
    Some (yaml_line n @ yamlFieldPrefix @ (if yamlFieldNameRE key then key else ''(redacted)'')
      @ yamlUnknownFieldMarker @ v)"
  using str_last_index_mid [OF _ assms, of "yamlFieldPrefix @ key"]
  by (simp add: sanitizeYAMLMessage_def Let_def has_prefix_prefix yamlUnknownFieldMarker_def str_slice_def)

lemma sanitize_other:
  assumes "\<not> has_prefix rest yamlDupKeyPrefix" "\<not> has_prefix rest yamlFieldPrefix"
  shows "sanitizeYAMLMessage (yaml_line n @ rest) =
    Some (yaml_line n @ (if str_contains rest yamlFieldSetMarker then rest
      else ''value is not valid for this field (value redacted)''))"
  using assms by (simp add: sanitizeYAMLMessage_def Let_def)

text \<open>A pattern without a given byte lies on one side of it.\<close>

lemma sublist_split: "c \<notin> set m \<Longrightarrow> sublist m (xs @ c # ys) \<Longrightarrow> sublist m xs \<or> sublist m ys"
  unfolding sublist_append sublist_Cons_right
  by (auto simp: prefix_Cons dest: suffix_imp_sublist intro: sublist_order.order_trans [OF prefix_imp_sublist])

text \<open>A marker has more spaces in it than the decoder's own words after it.\<close>

definition spaces :: "string \<Rightarrow> nat" where
  "spaces s = length (filter (\<lambda>c. c = CHR '' '') s)"

lemma spaces_simps [simp]:
  "spaces [] = 0" "spaces (c # s) = (if c = CHR '' '' then Suc (spaces s) else spaces s)" "spaces (s @ t) = spaces s + spaces t"
  by (simp_all add: spaces_def)

lemma spaces_plain: "CHR '' '' \<notin> set s \<Longrightarrow> spaces s = 0"
  by (auto simp: spaces_def filter_empty_conv)

lemma too_few_spaces: "spaces s < spaces m \<Longrightarrow> \<not> sublist m s"
  by (auto simp: sublist_def)

lemma marker_once: "CHR '' '' \<notin> set d \<Longrightarrow> \<not> sublist (CHR '' '' # m) (tl ((CHR '' '' # m) @ d))"
  by (rule too_few_spaces) (simp add: spaces_plain)

lemma markers_once:
  assumes "CHR '' '' \<notin> set d"
  shows "\<not> sublist yamlDupKeySuffix (tl (yamlDupKeySuffix @ d))" "\<not> sublist yamlUnknownFieldMarker (tl (yamlUnknownFieldMarker @ d))"
  using marker_once [OF assms, of "tl yamlDupKeySuffix"] marker_once [OF assms, of "tl yamlUnknownFieldMarker"]
  by (simp_all add: yamlDupKeySuffix_def yamlUnknownFieldMarker_def)

lemma into_plain: "CHR '' '' \<notin> set ty \<Longrightarrow> \<not> sublist yamlFieldSetMarker ('' into '' @ ty)"
  by (rule too_few_spaces) (simp add: spaces_plain yamlFieldSetMarker_def)

text \<open>A marker is looked for word by word.\<close>

lemma sublist_at_space:
  "CHR '' '' \<notin> set u \<Longrightarrow> sublist (CHR '' '' # m) (u @ CHR '' '' # v) \<longleftrightarrow> prefix m v \<or> sublist (CHR '' '' # m) v"
  by (induction u) (auto simp: sublist_Cons_right)

lemma prefix_at_space:
  "CHR '' '' \<notin> set w \<Longrightarrow> CHR '' '' \<notin> set f \<Longrightarrow> prefix (w @ CHR '' '' # x) (f @ CHR '' '' # y) \<longleftrightarrow> w = f \<and> prefix x y"
proof (induction w arbitrary: f)
  case Nil
  then show ?case by (cases f) auto
next
  case (Cons a w)
  then show ?case by (cases f) auto
qed

lemma already_set_not_unknown:
  assumes "CHR '' '' \<notin> set f" "CHR '' '' \<notin> set ty"
  shows "\<not> sublist yamlUnknownFieldMarker (yamlFieldPrefix @ f @ yamlFieldSetMarker @ ty)"
proof -
  let ?m = "''not found in type ''" and ?v = "''already set in type '' @ ty"
  have "\<not> prefix (''not'' @ CHR '' '' # ''found in type '') (f @ CHR '' '' # ?v)"
    using prefix_at_space [OF _ assms(1), of "''not''" "''found in type ''" ?v] by simp
  moreover have "\<not> prefix ?m ?v" by simp
  moreover have "\<not> sublist (CHR '' '' # ?m) ?v" by (rule too_few_spaces) (simp add: spaces_plain assms(2))
  moreover have "CHR '' '' \<notin> set ''field''" by simp
  ultimately have "\<not> sublist (CHR '' '' # ?m) (''field'' @ CHR '' '' # f @ CHR '' '' # ?v)"
    using sublist_at_space [OF assms(1), of ?m ?v] sublist_at_space [of "''field''" ?m "f @ CHR '' '' # ?v"] by simp
  then show ?thesis by (simp add: yamlFieldPrefix_def yamlUnknownFieldMarker_def yamlFieldSetMarker_def)
qed

lemma field_name_plain: "yamlFieldNameRE f \<Longrightarrow> CHR '' '' \<notin> set f"
  by (auto simp: yamlFieldNameRE_def list_all_iff is_lower_def is_digit_char_def split: list.splits)

lemma sanitize_mismatch:
  assumes "length v \<le> 10" "CHR '' '' \<notin> set ty"
  shows "sanitizeYAMLMessage (yaml_text (Mismatch n tag v ty)) = Some (safe_text (Mismatch n tag v ty))"
proof -
  have c: "CHR 0x60 \<notin> set yamlFieldSetMarker" by (simp add: yamlFieldSetMarker_def)
  have "\<not> sublist yamlFieldSetMarker v"
    using assms(1) sublist_length_le [of yamlFieldSetMarker v] by (auto simp: yamlFieldSetMarker_def)
  then have "str_contains (yaml_mismatch tag v ty) yamlFieldSetMarker = tag_carries_marker tag"
    using sublist_split [OF c] into_plain [OF assms(2)] unfolding str_contains_sublist yaml_mismatch_def tag_carries_marker_def
    by (metis sublist_append)
  moreover have "\<not> has_prefix (yaml_mismatch tag v ty) yamlDupKeyPrefix" "\<not> has_prefix (yaml_mismatch tag v ty) yamlFieldPrefix"
    by (simp_all add: yaml_mismatch_def yamlDupKeyPrefix_def yamlFieldPrefix_def)
  ultimately show ?thesis by (simp add: sanitize_other)
qed

text \<open>
  The already-set class is recognised by its marker anywhere in the message, without the prefix that
  the comment names: any other message that contains the marker is kept as it is, value included.
\<close>

lemma already_set_kept_anywhere:
  assumes "\<not> has_prefix (u @ yamlFieldSetMarker @ v) yamlDupKeyPrefix"
    and "\<not> has_prefix (u @ yamlFieldSetMarker @ v) yamlFieldPrefix"
  shows "sanitizeYAMLMessage (yaml_line n @ u @ yamlFieldSetMarker @ v) = Some (yaml_line n @ u @ yamlFieldSetMarker @ v)"
  using sanitize_other [OF assms] by (simp add: str_contains_sublist)

text \<open>
  The one panic: in a message that starts with the field prefix, the marker of the unknown-field class
  may begin on the last byte of that prefix. The decoder's own formats put the name between the two.
\<close>

lemma unknown_field_panics:
  assumes "\<not> sublist yamlUnknownFieldMarker (tl (yamlUnknownFieldMarker @ v))"
  shows "sanitizeYAMLMessage (yaml_line n @ ''field'' @ yamlUnknownFieldMarker @ v) = None"
proof -
  let ?rest = "''field'' @ yamlUnknownFieldMarker @ v"
  have "has_prefix ?rest yamlFieldPrefix" "\<not> has_prefix ?rest yamlDupKeyPrefix"
    by (simp_all add: yamlFieldPrefix_def yamlUnknownFieldMarker_def yamlDupKeyPrefix_def)
  moreover have "str_last_index ?rest yamlUnknownFieldMarker = Some 5"
    using str_last_index_mid [OF _ assms, of "''field''"] by (simp add: yamlUnknownFieldMarker_def)
  moreover have "str_slice ?rest (length yamlFieldPrefix) 5 = None"
    by (simp add: str_slice_def yamlFieldPrefix_def)
  ultimately show ?thesis by (simp add: sanitizeYAMLMessage_def Let_def)
qed

lemma sanitize_already_set:
  assumes "yamlFieldNameRE f" "CHR '' '' \<notin> set ty"
  shows "sanitizeYAMLMessage (yaml_text (AlreadySet n f ty)) = Some (safe_text (AlreadySet n f ty))"
proof -
  have "str_last_index (yamlFieldPrefix @ f @ yamlFieldSetMarker @ ty) yamlUnknownFieldMarker = None"
    using already_set_not_unknown [OF field_name_plain [OF assms(1)] assms(2)]
    by (simp add: str_last_index_None yamlUnknownFieldMarker_def)
  moreover have "sublist yamlFieldSetMarker (yamlFieldPrefix @ f @ yamlFieldSetMarker @ ty)"
    by (metis append_assoc sublist_appendI)
  ultimately show ?thesis
    by (simp add: sanitizeYAMLMessage_def Let_def has_prefix_prefix str_contains_sublist)
qed

lemma sanitize_collection:
  assumes "tag \<in> {''!!seq'', ''!!map''}" "CHR '' '' \<notin> set ty"
  shows "sanitizeYAMLMessage (yaml_text (CollectionMismatch n tag ty)) = Some (safe_text (CollectionMismatch n tag ty))"
proof -
  have "\<not> sublist yamlFieldSetMarker (''cannot unmarshal '' @ tag @ '' into '' @ ty)"
    using assms by (intro too_few_spaces) (auto simp: spaces_plain yamlFieldSetMarker_def)
  moreover have "\<not> has_prefix (''cannot unmarshal '' @ tag @ '' into '' @ ty) yamlDupKeyPrefix"
      "\<not> has_prefix (''cannot unmarshal '' @ tag @ '' into '' @ ty) yamlFieldPrefix"
    by (simp_all add: yamlDupKeyPrefix_def yamlFieldPrefix_def)
  ultimately show ?thesis
    using sanitize_other [of "''cannot unmarshal '' @ tag @ '' into '' @ ty" n] by (simp add: str_contains_sublist)
qed

lemma sanitize_message: "decoder_message m \<Longrightarrow> sanitizeYAMLMessage (yaml_text m) = Some (safe_text m)"
proof (cases m)
  case (DuplicateKey n key at)
  have "CHR '' '' \<notin> set (show_nat at)" using show_nat_digits [of at] by (auto simp: list_all_iff is_digit_char_def)
  then show ?thesis using sanitize_dup [OF markers_once(1)] by (simp add: DuplicateKey)
next
  case (UnknownField n key ty)
  assume "decoder_message m"
  then show ?thesis using sanitize_unknown [OF markers_once(2)] by (simp add: UnknownField)
qed (use sanitize_already_set sanitize_mismatch sanitize_collection in \<open>simp_all del: yaml_text.simps safe_text.simps\<close>)

section \<open>Properties\<close>

text \<open>
  Claim C17. Text taken from the document does not survive in a sanitized error, and sanitizing the
  decoder's messages never panics. Whatever a list of type errors quotes, the result is the list of what
  may be printed of each: of a duplicate mapping key the two line numbers, of an unknown field its name
  only if it has the shape of a field name, of a field set twice the struct's own name, and of a type
  mismatch its line number alone, without the value and the tag. The one exception is part of the
  statement: a tag of the document that itself carries the marker of the already-set class (its
  percent escapes can spell the spaces) makes its message pass unchanged.
\<close>

theorem sanitize_drops_document_text:
  assumes "\<forall>m \<in> set ms. decoder_message m"
  shows "sanitizeYAMLError (YamlTypeError (map yaml_text ms)) = errors_New (''yaml: '' @ str_join (map safe_text ms) ''; '')"
proof -
  have "those (map sanitizeYAMLMessage (map yaml_text ms)) = Some (map safe_text ms)"
    using assms by (induction ms) (simp_all add: sanitize_message)
  then show ?thesis by (simp add: sanitizeYAMLError_def)
qed

theorem sanitize_drops_document_text_witness:
  "sanitizeYAMLError (YamlTypeError (map yaml_text [DuplicateKey 3 ''AKIA='' 2, Mismatch 4 ''!!str'' ''AKIA123...'' ''int'']))
    = errors_New (''yaml: '' @ (yaml_line 3 @ yamlDupKeyPrefix @ ''(redacted)'' @ yamlDupKeySuffix @ ''2'') @ ''; ''
        @ yaml_line 4 @ ''value is not valid for this field (value redacted)'')"
proof -
  let ?ms = "[DuplicateKey 3 ''AKIA='' 2, Mismatch 4 ''!!str'' ''AKIA123...'' ''int'']"
  have d: "\<forall>m \<in> set ?ms. decoder_message m" by simp
  have t: "\<not> tag_carries_marker ''!!str''"
    by (simp add: tag_carries_marker_def yamlFieldSetMarker_def str_contains_def)
  have n: "show_nat 2 = ''2''" by code_simp
  show ?thesis using sanitize_drops_document_text [OF d] by (simp add: t n)
qed

text \<open>
  The exception is a leak: a secret pasted where a number belongs, under such a tag, is printed as far as
  the decoder quotes it.
\<close>

lemma tag_marker_leaks_value:
  assumes "length v \<le> 10" "CHR '' '' \<notin> set ty" "tag = u @ yamlFieldSetMarker @ w"
  shows "sanitizeYAMLError (YamlTypeError [yaml_text (Mismatch n tag v ty)]) = errors_New (''yaml: '' @ yaml_line n @ yaml_mismatch tag v ty)"
proof -
  have "tag_carries_marker tag" using assms(3) unfolding tag_carries_marker_def str_contains_sublist
    by (metis append_assoc sublist_appendI)
  then show ?thesis using sanitize_mismatch [OF assms(1,2), of n tag] by (simp add: sanitizeYAMLError_def)
qed

end
