(* ===== verification/Base64.thy ===== *)
theory Base64
  imports Prelude
begin

text \<open>
  \<^verbatim>\<open>encoding/base64\<close> (\<^verbatim>\<open>StdEncoding\<close>) and \<^verbatim>\<open>encoding/hex\<close> as the sources
  use them. The decoder is Go's: it skips carriage returns and line feeds, demands the padding, and
  does not check that the unused bits of the last character are zero.
\<close>

section \<open>Definitions\<close>

text \<open>\<^verbatim>\<open>A\<close>-\<^verbatim>\<open>Z\<close>, \<^verbatim>\<open>a\<close>-\<^verbatim>\<open>z\<close>, \<^verbatim>\<open>0\<close>-\<^verbatim>\<open>9\<close>, \<^verbatim>\<open>+\<close>, \<^verbatim>\<open>/\<close>.\<close>

definition b64_code :: "nat \<Rightarrow> nat" where
  "b64_code n = (if n < 26 then n + 65 else if n < 52 then n + 71 else if n < 62 then n - 4
     else if n = 62 then 43 else 47)"

definition b64_char :: "nat \<Rightarrow> char" where
  "b64_char n = char_of (b64_code n)"

definition b64_value :: "char \<Rightarrow> nat option" where
  "b64_value c = (let n = of_char c in
     if 65 \<le> n \<and> n \<le> 90 then Some (n - 65)
     else if 97 \<le> n \<and> n \<le> 122 then Some (n - 71)
     else if 48 \<le> n \<and> n \<le> 57 then Some (n + 4)
     else if n = 43 then Some 62
     else if n = 47 then Some 63 else None)"

definition b64_byte0 :: "nat \<Rightarrow> nat \<Rightarrow> byte" where
  "b64_byte0 x y = of_nat (x * 4 + y div 16)"

definition b64_byte1 :: "nat \<Rightarrow> nat \<Rightarrow> byte" where
  "b64_byte1 y z = of_nat (y mod 16 * 16 + z div 4)"

definition b64_byte2 :: "nat \<Rightarrow> nat \<Rightarrow> byte" where
  "b64_byte2 z u = of_nat (z mod 4 * 64 + u)"

fun b64_quads :: "string \<Rightarrow> byte list option" where
  "b64_quads [] = Some []"
| "b64_quads (a # b # c # d # rest) =
     (case b64_value a of None \<Rightarrow> None | Some x \<Rightarrow>
      case b64_value b of None \<Rightarrow> None | Some y \<Rightarrow>
      if c = CHR ''='' then
        (if d = CHR ''='' \<and> rest = [] then Some [b64_byte0 x y] else None)
      else case b64_value c of None \<Rightarrow> None | Some z \<Rightarrow>
      if d = CHR ''='' then
        (if rest = [] then Some [b64_byte0 x y, b64_byte1 y z] else None)
      else case b64_value d of None \<Rightarrow> None | Some u \<Rightarrow>
      case b64_quads rest of None \<Rightarrow> None
      | Some bs \<Rightarrow> Some (b64_byte0 x y # b64_byte1 y z # b64_byte2 z u # bs))"
| "b64_quads _ = None"

definition is_newline :: "char \<Rightarrow> bool" where
  "is_newline c = (c = CHR 0x0A \<or> c = CHR 0x0D)"

definition DecodeString :: "string \<Rightarrow> byte list option" where
  "DecodeString s = b64_quads (filter (\<lambda>c. \<not> is_newline c) s)"

fun EncodeToString :: "byte list \<Rightarrow> string" where
  "EncodeToString [] = []"
| "EncodeToString [a] =
     [b64_char (unat a div 4), b64_char (unat a mod 4 * 16), CHR ''='', CHR ''='']"
| "EncodeToString [a, b] =
     [b64_char (unat a div 4), b64_char (unat a mod 4 * 16 + unat b div 16),
      b64_char (unat b mod 16 * 4), CHR ''='']"
| "EncodeToString (a # b # c # bs) =
     b64_char (unat a div 4) # b64_char (unat a mod 4 * 16 + unat b div 16)
     # b64_char (unat b mod 16 * 4 + unat c div 64) # b64_char (unat c mod 64)
     # EncodeToString bs"

definition hex_EncodeToString :: "byte list \<Rightarrow> string" where
  "hex_EncodeToString bs = concat (map show_hex_byte bs)"

section \<open>Lemmas\<close>

lemma of_char_b64_char: "n < 64 \<Longrightarrow> of_char (b64_char n) = b64_code n"
  by (simp add: b64_char_def b64_code_def)

lemma b64_value_char [simp]: "n < 64 \<Longrightarrow> b64_value (b64_char n) = Some n"
  by (auto simp: b64_value_def of_char_b64_char Let_def b64_code_def)

lemma b64_char_neq: "n < 64 \<Longrightarrow> b64_code n \<noteq> of_char c \<Longrightarrow> b64_char n \<noteq> c"
  by (auto simp: of_char_b64_char)

lemma b64_char_not_pad [simp]: "n < 64 \<Longrightarrow> b64_char n \<noteq> CHR ''=''"
  by (erule b64_char_neq) (auto simp: b64_code_def)

lemma b64_char_not_space: "n < 64 \<Longrightarrow> \<not> is_space_byte (b64_char n)"
  by (simp add: is_space_byte_def of_char_b64_char b64_code_def) linarith

lemma pad_not_space [simp]: "\<not> is_space_byte (CHR ''='')"
  by (simp add: is_space_byte_def)

lemma newline_is_space: "is_newline c \<Longrightarrow> is_space_byte c"
  by (auto simp: is_newline_def is_space_byte_def)

lemma b64_char_not_newline [simp]: "n < 64 \<Longrightarrow> \<not> is_newline (b64_char n)"
  using b64_char_not_space newline_is_space by blast

lemma unat_byte_less [simp]: "unat (b :: byte) < 256"
  using unsigned_less [of b, where 'a = nat] by simp

lemma byte_div [simp]: "unat (b :: byte) div 4 < 64" "unat b div 16 < 16" "unat b div 64 < 4"
  using unat_byte_less [of b] by (simp_all only: div_less_iff_less_mult zero_less_numeral)

lemma b64_indices [simp]:
  "unat (a :: byte) mod 4 * 16 < 64" "unat a mod 16 * 4 < 64" "unat a mod 64 < 64"
  "unat a mod 4 * 16 + unat (b :: byte) div 16 < 64" "unat a mod 16 * 4 + unat b div 64 < 64"
proof -
  have m: "unat a mod 4 < 4" "unat a mod 16 < 16" by simp_all
  then show "unat a mod 4 * 16 < 64" "unat a mod 16 * 4 < 64" "unat a mod 64 < 64" by linarith+
  show "unat a mod 4 * 16 + unat b div 16 < 64" "unat a mod 16 * 4 + unat b div 64 < 64"
    using m byte_div [of b] by linarith+
qed

lemma b64_byte0_encode [simp]:
  "b64_byte0 (unat a div 4) (unat a mod 4 * 16 + unat (b :: byte) div 16) = a"
  "b64_byte0 (unat a div 4) (unat a mod 4 * 16) = a"
proof -
  have b: "unat b div 16 < 16" by simp
  have 1: "unat a div 4 * 4 + (unat a mod 4 * 16 + unat b div 16) div 16 = unat a"
    using b by (simp add: div_add1_eq)
  have 2: "unat a div 4 * 4 + (unat a mod 4 * 16) div 16 = unat a" by simp
  show "b64_byte0 (unat a div 4) (unat a mod 4 * 16 + unat b div 16) = a"
    unfolding b64_byte0_def 1 by simp
  show "b64_byte0 (unat a div 4) (unat a mod 4 * 16) = a"
    unfolding b64_byte0_def 2 by simp
qed

lemma b64_byte1_encode [simp]:
  "b64_byte1 (unat (a :: byte) mod 4 * 16 + unat b div 16) (unat b mod 16 * 4 + unat (c :: byte) div 64) = b"
  "b64_byte1 (unat a mod 4 * 16 + unat b div 16) (unat b mod 16 * 4) = b"
proof -
  have b: "unat b div 16 < 16" and c: "unat c div 64 < 4" by simp_all
  have 1: "(unat a mod 4 * 16 + unat b div 16) mod 16 = unat b div 16" using b by simp
  have 2: "(unat b mod 16 * 4 + unat c div 64) div 4 = unat b mod 16" using c by simp
  have 3: "(unat b mod 16 * 4) div 4 = unat b mod 16" by simp
  have 4: "unat b div 16 * 16 + unat b mod 16 = unat b" by simp
  show "b64_byte1 (unat a mod 4 * 16 + unat b div 16) (unat b mod 16 * 4 + unat c div 64) = b"
    unfolding b64_byte1_def 1 2 4 by simp
  show "b64_byte1 (unat a mod 4 * 16 + unat b div 16) (unat b mod 16 * 4) = b"
    unfolding b64_byte1_def 1 3 4 by simp
qed

lemma b64_byte2_encode [simp]:
  "b64_byte2 (unat (b :: byte) mod 16 * 4 + unat (c :: byte) div 64) (unat c mod 64) = c"
proof -
  have c: "unat c div 64 < 4" by simp
  have 1: "(unat b mod 16 * 4 + unat c div 64) mod 4 = unat c div 64" using c by simp
  have 2: "unat c div 64 * 64 + unat c mod 64 = unat c" by simp
  show ?thesis unfolding b64_byte2_def 1 2 by simp
qed

lemma b64_quads_encode: "b64_quads (EncodeToString bs) = Some bs"
  by (induction bs rule: EncodeToString.induct) simp_all

lemma EncodeToString_chars:
  "c \<in> set (EncodeToString bs) \<Longrightarrow> (\<exists>n < 64. c = b64_char n) \<or> c = CHR ''=''"
  by (induction bs rule: EncodeToString.induct) (auto intro: b64_indices byte_div)

lemma filter_newline_encode: "filter (\<lambda>c. \<not> is_newline c) (EncodeToString bs) = EncodeToString bs"
proof (rule filter_True, rule ballI)
  fix c assume "c \<in> set (EncodeToString bs)"
  then show "\<not> is_newline c"
    using EncodeToString_chars [of c bs] b64_char_not_space newline_is_space pad_not_space by metis
qed

text \<open>Decoding what the encoder produced gives the bytes back.\<close>

lemma DecodeString_EncodeToString [simp]: "DecodeString (EncodeToString bs) = Some bs"
  by (simp add: DecodeString_def filter_newline_encode b64_quads_encode)

lemma EncodeToString_eq_Nil [simp]: "EncodeToString bs = [] \<longleftrightarrow> bs = []"
  by (cases bs rule: EncodeToString.cases) auto

lemma trim_space_encode [simp]: "trim_space (EncodeToString bs) = EncodeToString bs"
  using EncodeToString_chars b64_char_not_space pad_not_space by (intro trim_space_keep) metis

subsection \<open>Hexadecimal text is injective\<close>

lemma hex_char_inj: "a < 16 \<Longrightarrow> b < 16 \<Longrightarrow> hex_char a = hex_char b \<Longrightarrow> a = b"
  by (auto simp: hex_char_def split: if_splits)

lemma show_hex_byte_inj: "show_hex_byte a = show_hex_byte b \<Longrightarrow> a = b"
proof -
  assume eq: "show_hex_byte a = show_hex_byte b"
  have "unat a div 16 = unat b div 16" "unat a mod 16 = unat b mod 16"
    using eq by (auto simp: show_hex_byte_def intro: hex_char_inj)
  then have "unat a = unat b" by (metis div_mult_mod_eq)
  then show "a = b" by (simp add: unsigned_word_eqI)
qed

lemma hex_EncodeToString_inj: "hex_EncodeToString a = hex_EncodeToString b \<longleftrightarrow> a = b"
proof
  have len: "length (show_hex_byte x) = 2" for x by (simp add: show_hex_byte_def)
  show "hex_EncodeToString a = hex_EncodeToString b \<Longrightarrow> a = b"
  proof (induction a arbitrary: b)
    case Nil
    then show ?case by (cases b) (auto simp: hex_EncodeToString_def show_hex_byte_def)
  next
    case (Cons x xs)
    then obtain y ys where b: "b = y # ys" "show_hex_byte x @ hex_EncodeToString xs
        = show_hex_byte y @ hex_EncodeToString ys"
      by (cases b) (auto simp: hex_EncodeToString_def show_hex_byte_def)
    then have "show_hex_byte x = show_hex_byte y" "hex_EncodeToString xs = hex_EncodeToString ys"
      using len by auto
    then show ?case using Cons.IH b(1) show_hex_byte_inj by blast
  qed
qed simp

lemma length_hex_EncodeToString [simp]: "length (hex_EncodeToString bs) = 2 * length bs"
  by (induction bs) (simp_all add: hex_EncodeToString_def show_hex_byte_def)

end
