(* ===== verification/Config.thy ===== *)
theory Config
  imports Policy Secret Sanitize Base64 "HOL-Library.AList"
begin

unbundle bit_operations_syntax

text \<open>
  \<^verbatim>\<open>src/config.go\<close> up to the hot reload: the two configuration files, their validation, and
  the difference between two peer lists. The YAML decoder is a parameter: two functions from the
  file's bytes, the outcome of the first and of the second \<^verbatim>\<open>Decode\<close> call. Reading a file
  is a parameter too.
\<close>

section \<open>Definitions\<close>

definition DefaultMTU :: int where "DefaultMTU = 1280"
definition minMTU :: int where "minMTU = 1280"
definition maxMTU :: int where "maxMTU = 1500"
definition DefaultMaxConcurrent :: int where "DefaultMaxConcurrent = 32"
definition DefaultDialsPerSecond :: int where "DefaultDialsPerSecond = 10"
definition DefaultLogFormat :: string where "DefaultLogFormat = ''json''"
definition wgKeyLen :: nat where "wgKeyLen = 32"
definition reloadDebounce :: duration where "reloadDebounce = 50 * 1000000"
definition watchRearmInterval :: duration where "watchRearmInterval = 30 * second"

text \<open>\<^verbatim>\<open>10.99.0.0/24\<close> and \<^verbatim>\<open>10.99.0.1\<close>.\<close>

definition tunnelSubnet :: netprefix where
  "tunnelSubnet = NetPrefix (Addr4 0x0A630000) 24"

definition serverTunnelIP :: addr where
  "serverTunnelIP = Addr4 0x0A630001"

subsection \<open>Shared validators\<close>

definition parseTunnelIP :: "string \<Rightarrow> addr result" where
  "parseTunnelIP s =
     (if s = [] then Inl (errors_New ''is required'')
      else case ParseAddr s of
        None \<Rightarrow> Inl (errors_New ''is not a valid ip address'')
      | Some a \<Rightarrow>
          let addr = Unmap a in
          if \<not> IsValid addr \<or> IsUnspecified addr
          then Inl (errors_New ''must not be the unspecified address'')
          else Inr addr)"

text \<open>
  \<^verbatim>\<open>subnetBroadcast\<close> in 32-bit arithmetic: the shift by 32 of a \<open>/0\<close> prefix gives zero and
  the subtraction then wraps to all ones.
\<close>

definition subnetBroadcast :: "netprefix \<Rightarrow> addr" where
  "subnetBroadcast p =
     (let b = (case pfx_addr (Masked p) of Addr4 w \<Rightarrow> As4 w | _ \<Rightarrow> [0, 0, 0, 0]);
          host = push_bit (32 - pfx_bits p) 1 - 1 :: 32 word;
          v = push_bit 24 (ucast (b ! 0)) OR push_bit 16 (ucast (b ! 1))
              OR push_bit 8 (ucast (b ! 2)) OR ucast (b ! 3) :: 32 word;
          v' = v OR host
      in Addr4 (be_word32 [ucast (drop_bit 24 v'), ucast (drop_bit 16 v'), ucast (drop_bit 8 v'), ucast v']))"

definition validPublicKey :: "string \<Rightarrow> goerror option" where
  "validPublicKey s =
     (if s = [] then Some (errors_New ''is required'')
      else case DecodeString s of
        None \<Rightarrow> Some (errors_New ''is not valid base64'')
      | Some key \<Rightarrow>
          if length key \<noteq> wgKeyLen
          then Some (errors_New (''decodes to '' @ show_nat (length key) @ '' bytes, want ''
                 @ show_nat wgKeyLen))
          else None)"

definition validSecretRef :: "SecretRef \<Rightarrow> goerror option" where
  "validSecretRef ref =
     (if ref = [] then Some (errors_New ''is required'')
      else case parseSecretRef ref of
        Inl err \<Rightarrow> Some (errors_New (''must be a reference of the form <scheme>:<value>, ''
                 @ ''for example file:<path> or env:<VAR>''))
      | Inr _ \<Rightarrow> None)"

text \<open>\<^verbatim>\<open>decodeStrict\<close>: the outcomes of the two \<^verbatim>\<open>Decode\<close> calls on the file's bytes.\<close>

definition decodeStrict :: "(string \<Rightarrow> yaml_error + 'v) \<Rightarrow> (string \<Rightarrow> yaml_error + unit)
    \<Rightarrow> string \<Rightarrow> 'v result" where
  "decodeStrict decode1 decode2 data =
     (case decode1 data of
        Inl YamlEOF \<Rightarrow> Inl (errors_New ''empty document'')
      | Inl err \<Rightarrow> Inl (sanitizeYAMLError err)
      | Inr v \<Rightarrow>
          (case decode2 data of
             Inr _ \<Rightarrow> Inl (errors_New ''file contains more than one YAML document'')
           | Inl YamlEOF \<Rightarrow> Inr v
           | Inl err \<Rightarrow> Inl (sanitizeYAMLError err)))"

subsection \<open>server.yaml\<close>

record serverYAML =
  sy_ListenPort :: int
  sy_PrivateKey :: SecretRef
  sy_TunnelIP :: string
  sy_MTU :: int
  sy_PeersFile :: string
  sy_LogFormat :: string

record ServerFileConfig =
  sfc_ListenPort :: int
  sfc_PrivateKey :: SecretRef
  sfc_TunnelIP :: addr
  sfc_MTU :: int
  sfc_PeersFile :: string
  sfc_LogFormat :: string

definition cfg_err :: "string \<Rightarrow> string \<Rightarrow> goerror" where
  "cfg_err path m = errors_New (''gocloak: config: '' @ path @ '': '' @ m)"

definition cfg_wrap :: "string \<Rightarrow> string \<Rightarrow> goerror \<Rightarrow> goerror" where
  "cfg_wrap path field e = errorf_w (''gocloak: config: '' @ path @ '': '' @ field) e ''''"

definition validateServer :: "string \<Rightarrow> serverYAML \<Rightarrow> ServerFileConfig result" where
  "validateServer path raw =
     (if sy_ListenPort raw < 1 \<or> sy_ListenPort raw > 65535
      then Inl (cfg_err path (''listen_port '' @ show_int (sy_ListenPort raw) @ '' is not in 1-65535''))
      else case validSecretRef (sy_PrivateKey raw) of
        Some err \<Rightarrow> Inl (cfg_wrap path ''private_key: '' err)
      | None \<Rightarrow>
      (case parseTunnelIP (sy_TunnelIP raw) of
        Inl err \<Rightarrow> Inl (cfg_wrap path ''tunnel_ip: '' err)
      | Inr addr \<Rightarrow>
          if addr \<noteq> serverTunnelIP
          then Inl (cfg_err path (''tunnel_ip must be the server address ''
                 @ Addr_String serverTunnelIP @ '' (spec section 3.2)''))
          else let mtu = (if sy_MTU raw = 0 then DefaultMTU else sy_MTU raw) in
          if mtu < minMTU \<or> mtu > maxMTU
          then Inl (cfg_err path (''mtu '' @ show_int mtu @ '' is not in '' @ show_int minMTU
                 @ ''-'' @ show_int maxMTU))
          else if sy_PeersFile raw = [] then Inl (cfg_err path ''peers_file is required'')
          else let fmt = (if sy_LogFormat raw = [] then DefaultLogFormat else sy_LogFormat raw) in
          if fmt \<noteq> ''json'' \<and> fmt \<noteq> ''text''
          then Inl (cfg_err path ''log_format must be json or text'')
          else Inr \<lparr>sfc_ListenPort = sy_ListenPort raw, sfc_PrivateKey = sy_PrivateKey raw,
                    sfc_TunnelIP = addr, sfc_MTU = mtu, sfc_PeersFile = sy_PeersFile raw,
                    sfc_LogFormat = fmt\<rparr>))"

definition LoadServerConfig :: "(string \<Rightarrow> string result) \<Rightarrow> (string \<Rightarrow> yaml_error + serverYAML)
    \<Rightarrow> (string \<Rightarrow> yaml_error + unit) \<Rightarrow> string \<Rightarrow> ServerFileConfig result" where
  "LoadServerConfig readFile decode1 decode2 path =
     (case readFile path of
        Inl err \<Rightarrow> Inl (errorf_w (''gocloak: config: read '' @ path @ '': '') err '''')
      | Inr data \<Rightarrow>
          (case decodeStrict decode1 decode2 data of
             Inl err \<Rightarrow> Inl (cfg_wrap path '''' err)
           | Inr raw \<Rightarrow> validateServer path raw))"

subsection \<open>peers.yaml\<close>

record limitsYAML =
  ly_MaxConcurrent :: int
  ly_DialsPerSecond :: int

record peerYAML =
  py_Name :: string
  py_PublicKey :: string
  py_PSK :: SecretRef
  py_TunnelIP :: string
  py_Limits :: limitsYAML
  py_Allow :: "(string \<times> string) list"

record peersYAML =
  psy_Peers :: "peerYAML list"

record peerLimits =
  MaxConcurrent :: int
  DialsPerSecond :: int

record peerConfig =
  pc_Name :: string
  pc_PublicKey :: string
  pc_PSK :: SecretRef
  pc_TunnelIP :: addr
  pc_Limits :: peerLimits
  pc_Allow :: allow_map

record PeersConfig =
  cfg_peers :: "peerConfig list"
  cfg_policy :: policy

text \<open>\<^verbatim>\<open>maps.Equal\<close>.\<close>

definition maps_Equal :: "('k \<times> 'v) list \<Rightarrow> ('k \<times> 'v) list \<Rightarrow> bool" where
  "maps_Equal m1 m2 = (length m1 = length m2 \<and> list_all (\<lambda>(k, v). map_of m2 k = Some v) m1)"

definition peer_equal :: "peerConfig \<Rightarrow> peerConfig \<Rightarrow> bool" where
  "peer_equal p q = (pc_Name p = pc_Name q \<and> pc_PublicKey p = pc_PublicKey q
     \<and> pc_PSK p = pc_PSK q \<and> pc_TunnelIP p = pc_TunnelIP q \<and> pc_Limits p = pc_Limits q
     \<and> maps_Equal (pc_Allow p) (pc_Allow q))"

definition peerNames :: "peerConfig list \<Rightarrow> string list" where
  "peerNames peers = map pc_Name peers"

text \<open>The loop of \<^verbatim>\<open>validatePeer\<close> over the allow map.\<close>

fun validateAllow :: "string \<Rightarrow> allow_map \<Rightarrow> (string \<times> string) list \<Rightarrow> allow_map result" where
  "validateAllow peer allow [] = Inr allow"
| "validateAllow peer allow ((name, backend) # es) =
     (if \<not> ValidServiceName name
      then Inl (errors_New (''peer '' @ peer @ '': allow: invalid service name''))
      else case ParseAddrPort backend of
        None \<Rightarrow> Inl (errors_New (''peer '' @ peer @ '': allow: '' @ name
                 @ '': backend must be a literal ip:port''))
      | Some ap \<Rightarrow>
          if \<not> ap_IsValid ap \<or> ap_port ap = 0
          then Inl (errors_New (''peer '' @ peer @ '': allow: '' @ name
                 @ '': backend port must not be zero''))
          else validateAllow peer
                 (AList.update name (AddrPort (Unmap (ap_addr ap)) (ap_port ap)) allow) es)"

definition peer_msg :: "string \<Rightarrow> string \<Rightarrow> goerror" where
  "peer_msg name m = errors_New (''peer '' @ name @ '': '' @ m)"

definition validateLimits :: "string \<Rightarrow> limitsYAML \<Rightarrow> peerLimits result" where
  "validateLimits name l =
     (if ly_MaxConcurrent l < 0 \<or> ly_DialsPerSecond l < 0
      then Inl (peer_msg name ''limits must not be negative'')
      else Inr \<lparr>MaxConcurrent = (if ly_MaxConcurrent l = 0 then DefaultMaxConcurrent else ly_MaxConcurrent l),
                DialsPerSecond = (if ly_DialsPerSecond l = 0 then DefaultDialsPerSecond else ly_DialsPerSecond l)\<rparr>)"

definition validateTunnelAddr :: "string \<Rightarrow> string \<Rightarrow> addr result" where
  "validateTunnelAddr name s =
     (case parseTunnelIP s of
        Inl err \<Rightarrow> Inl (errorf_w (''peer '' @ name @ '': tunnel_ip: '') err '''')
      | Inr addr \<Rightarrow>
          if \<not> Contains tunnelSubnet addr
          then Inl (peer_msg name (''tunnel_ip '' @ Addr_String addr @ '' is outside the tunnel subnet ''
                 @ Prefix_String tunnelSubnet))
          else if addr = serverTunnelIP
          then Inl (peer_msg name (''tunnel_ip '' @ Addr_String addr @ '' is the server address''))
          else if addr = pfx_addr (Masked tunnelSubnet) \<or> addr = subnetBroadcast tunnelSubnet
          then Inl (peer_msg name (''tunnel_ip '' @ Addr_String addr @ '' is not a host address in ''
                 @ Prefix_String tunnelSubnet))
          else Inr addr)"

definition validatePeer :: "peerYAML \<Rightarrow> peerConfig result" where
  "validatePeer rp =
     (if py_Name rp = [] then Inl (errors_New ''name is required'')
      else if \<not> ValidServiceName (py_Name rp)
      then Inl (errors_New ''name must match [a-z0-9][a-z0-9-]{0,62}'')
      else case validPublicKey (py_PublicKey rp) of
        Some err \<Rightarrow> Inl (errorf_w (''peer '' @ py_Name rp @ '': public_key: '') err '''')
      | None \<Rightarrow>
      (case validSecretRef (py_PSK rp) of
        Some err \<Rightarrow> Inl (errorf_w (''peer '' @ py_Name rp @ '': psk: '') err '''')
      | None \<Rightarrow>
      andThen (validateTunnelAddr (py_Name rp) (py_TunnelIP rp)) (\<lambda>addr.
      andThen (validateLimits (py_Name rp) (py_Limits rp)) (\<lambda>limits.
      andThen (validateAllow (py_Name rp) [] (py_Allow rp)) (\<lambda>allow.
        Inr \<lparr>pc_Name = py_Name rp, pc_PublicKey = py_PublicKey rp, pc_PSK = py_PSK rp,
             pc_TunnelIP = addr, pc_Limits = limits, pc_Allow = allow\<rparr>)))))"

definition at_peer :: "string \<Rightarrow> nat \<Rightarrow> string" where
  "at_peer path i = ''gocloak: config: '' @ path @ '': peers['' @ show_nat i @ '']: ''"

text \<open>
  The validation loop of \<^verbatim>\<open>LoadPeersConfig\<close>; the three sets of what was seen so far are
  the names, keys and addresses of the peers accepted so far.
\<close>

fun peers_loop :: "string \<Rightarrow> nat \<Rightarrow> peerConfig list \<Rightarrow> peerYAML list \<Rightarrow> peerConfig list result" where
  "peers_loop path i peers [] = Inr peers"
| "peers_loop path i peers (rp # rps) =
     (case validatePeer rp of
        Inl err \<Rightarrow> Inl (errorf_w (at_peer path i) err '''')
      | Inr p \<Rightarrow>
          if List.member (map pc_Name peers) (pc_Name p)
          then Inl (errors_New (at_peer path i @ ''duplicate peer name '' @ pc_Name p))
          else if List.member (map pc_PublicKey peers) (pc_PublicKey p)
          then Inl (errors_New (at_peer path i @ ''peer '' @ pc_Name p @ '': duplicate public_key''))
          else if List.member (map pc_TunnelIP peers) (pc_TunnelIP p)
          then Inl (errors_New (at_peer path i @ ''peer '' @ pc_Name p @ '': duplicate tunnel_ip ''
                 @ Addr_String (pc_TunnelIP p)))
          else peers_loop path (Suc i) (peers @ [p]) rps)"

definition peer_policy :: "peerConfig \<Rightarrow> peerPolicy" where
  "peer_policy p = \<lparr>pp_TunnelIP = pc_TunnelIP p, pp_Allow = pc_Allow p\<rparr>"

definition buildPeersConfig :: "string \<Rightarrow> peersYAML \<Rightarrow> PeersConfig result" where
  "buildPeersConfig path raw =
     andThen (peers_loop path 0 [] (psy_Peers raw)) (\<lambda>peers.
     (case newPolicy (map peer_policy peers) of
        Inl err \<Rightarrow> Inl (cfg_wrap path '''' err)
      | Inr pol \<Rightarrow> Inr \<lparr>cfg_peers = peers, cfg_policy = pol\<rparr>))"

definition LoadPeersConfig :: "(string \<Rightarrow> string result) \<Rightarrow> (string \<Rightarrow> yaml_error + peersYAML)
    \<Rightarrow> (string \<Rightarrow> yaml_error + unit) \<Rightarrow> string \<Rightarrow> PeersConfig result" where
  "LoadPeersConfig readFile decode1 decode2 path =
     (case readFile path of
        Inl err \<Rightarrow> Inl (errorf_w (''gocloak: config: read '' @ path @ '': '') err '''')
      | Inr data \<Rightarrow>
          (case decodeStrict decode1 decode2 data of
             Inl err \<Rightarrow> Inl (cfg_wrap path '''' err)
           | Inr raw \<Rightarrow> buildPeersConfig path raw))"

subsection \<open>The difference between two peer lists\<close>

record peerDiff =
  Added :: "peerConfig list"
  Removed :: "peerConfig list"
  Changed :: "peerConfig list"

definition diff_IsEmpty :: "peerDiff \<Rightarrow> bool" where
  "diff_IsEmpty d = (length (Added d) = 0 \<and> length (Removed d) = 0 \<and> length (Changed d) = 0)"

definition peers_by_key :: "peerConfig list \<Rightarrow> string \<Rightarrow> peerConfig option" where
  "peers_by_key ps = map_of (rev (map (\<lambda>p. (pc_PublicKey p, p)) ps))"

definition diffPeers :: "peerConfig list \<Rightarrow> peerConfig list \<Rightarrow> peerDiff" where
  "diffPeers prev next =
     \<lparr>Added = filter (\<lambda>p. peers_by_key prev (pc_PublicKey p) = None) next,
      Removed = filter (\<lambda>p. \<not> List.member (map pc_PublicKey next) (pc_PublicKey p)) prev,
      Changed = filter (\<lambda>p. case peers_by_key prev (pc_PublicKey p) of
          None \<Rightarrow> False | Some old \<Rightarrow> \<not> peer_equal old p) next\<rparr>"

section \<open>Lemmas\<close>

subsection \<open>Tunnel addresses\<close>

text \<open>The peer addresses: \<^verbatim>\<open>10.99.0.2\<close> to \<^verbatim>\<open>10.99.0.254\<close>.\<close>

definition tunnel_hosts :: "addr set" where
  "tunnel_hosts = (\<lambda>n. Addr4 (0x0A630000 + of_nat n)) ` {2..<255}"

lemma push_bit_one_minus_one: "push_bit n 1 - 1 = (mask n :: 32 word)"
  by (simp add: mask_eq_decr_exp push_bit_eq_mult)

lemma ucast_As4_word:
  "push_bit 24 (ucast (As4 w ! 0) :: 32 word) OR push_bit 16 (ucast (As4 w ! 1))
     OR push_bit 8 (ucast (As4 w ! 2)) OR ucast (As4 w ! 3) = w"
proof (rule bit_word_eqI)
  fix n assume "n < LENGTH(32)"
  then consider "n < 8" | "8 \<le> n" "n < 16" | "16 \<le> n" "n < 24" | "24 \<le> n" "n < 32"
    by fastforce
  then show "bit (push_bit 24 (ucast (As4 w ! 0) :: 32 word) OR push_bit 16 (ucast (As4 w ! 1))
     OR push_bit 8 (ucast (As4 w ! 2)) OR ucast (As4 w ! 3)) n = bit w n"
    by cases (auto simp: As4_def bit_simps)
qed

lemma subnetBroadcast_eq:
  assumes "pfx_addr p = Addr4 w"
  shows "subnetBroadcast p = Addr4 (w OR mask (32 - pfx_bits p))"
proof -
  let ?m = "mask (32 - pfx_bits p) :: 32 word"
  have m: "pfx_addr (Masked p) = Addr4 (w AND NOT ?m)" by (simp add: Masked_def assms)
  have "subnetBroadcast p = Addr4 ((w AND NOT ?m) OR ?m)"
    unfolding subnetBroadcast_def Let_def push_bit_one_minus_one m addr.case ucast_As4_word
    by (simp only: As4_def [symmetric] be_word32_As4)
  also have "(w AND NOT ?m) OR ?m = w OR ?m"
    by (auto simp: bit_eq_iff bit_simps)
  finally show ?thesis .
qed

lemma unat_host: "n < 256 \<Longrightarrow> unat (0x0A630000 + of_nat n :: 32 word) = 0x0A630000 + n"
  by (simp add: unat_word_ariths unat_of_nat)

lemma host_inject: "n < 256 \<Longrightarrow> k < 256 \<Longrightarrow> (of_nat n :: 32 word) = of_nat k \<longleftrightarrow> n = k"
  using unat_host [of n] unat_host [of k] by (metis add_left_cancel)

lemma tunnel_host_iff:
  "a \<in> tunnel_hosts \<longleftrightarrow> Contains tunnelSubnet a \<and> a \<noteq> serverTunnelIP
     \<and> a \<noteq> pfx_addr (Masked tunnelSubnet) \<and> a \<noteq> subnetBroadcast tunnelSubnet"
proof -
  have bc: "subnetBroadcast tunnelSubnet = Addr4 0x0A6300FF"
    by (subst subnetBroadcast_eq [where w = "0x0A630000"]) (simp_all add: tunnelSubnet_def mask_numeral)
  have nw: "pfx_addr (Masked tunnelSubnet) = Addr4 0x0A630000"
    by (simp add: tunnelSubnet_def Masked_def mask_numeral)
  have sub: "Contains tunnelSubnet (Addr4 w) \<longleftrightarrow> (\<exists>n < 256. w = 0x0A630000 + of_nat n)" for w
  proof -
    have "drop_bit 8 w = drop_bit 8 (0x0A630000 :: 32 word) \<longleftrightarrow> unat w div 256 = 0x0A6300"
      by (simp add: word_unat_eq_iff drop_bit_eq_div unat_div)
    also have "\<dots> \<longleftrightarrow> (\<exists>n < 256. unat w = 0x0A630000 + n)"
    proof
      assume "unat w div 256 = 0x0A6300"
      then have "unat w = 0x0A630000 + unat w mod 256" using div_mult_mod_eq [of "unat w" 256] by simp
      then show "\<exists>n < 256. unat w = 0x0A630000 + n" by (intro exI [of _ "unat w mod 256"]) simp
    qed auto
    also have "\<dots> \<longleftrightarrow> (\<exists>n < 256. w = 0x0A630000 + of_nat n)"
      by (intro ex_cong1 conj_cong refl) (simp add: word_unat_eq_iff unat_host)
    finally show ?thesis by (simp add: Contains_24 tunnelSubnet_def)
  qed
  show ?thesis
  proof (cases a)
    case (Addr4 w)
    have "a \<in> tunnel_hosts \<longleftrightarrow> (\<exists>n < 256. w = 0x0A630000 + of_nat n \<and> n \<noteq> 0 \<and> n \<noteq> 1 \<and> n \<noteq> 255)"
      by (auto simp: tunnel_hosts_def Addr4 image_iff) force+
    also have "\<dots> \<longleftrightarrow> (\<exists>n < 256. w = 0x0A630000 + of_nat n) \<and> w \<noteq> 0x0A630000 + of_nat 0
        \<and> w \<noteq> 0x0A630000 + of_nat 1 \<and> w \<noteq> 0x0A630000 + of_nat 255"
      using host_inject [of _ 0] host_inject [of _ 1] host_inject [of _ 255] by fastforce
    finally show ?thesis by (auto simp: Addr4 sub bc nw serverTunnelIP_def)
  qed (auto simp: tunnel_hosts_def Contains_24 tunnelSubnet_def)
qed

lemma card_tunnel_hosts: "card tunnel_hosts = 253"
proof -
  have "inj_on (\<lambda>n. Addr4 (0x0A630000 + of_nat n)) {2..<255}"
    by (rule inj_onI) (simp add: host_inject)
  then show ?thesis by (simp add: tunnel_hosts_def card_image)
qed

subsection \<open>Peers\<close>

text \<open>What a validated peer entry guarantees.\<close>

definition peer_wf :: "peerConfig \<Rightarrow> bool" where
  "peer_wf p = (ValidServiceName (pc_Name p) \<and> validPublicKey (pc_PublicKey p) = None
     \<and> validSecretRef (pc_PSK p) = None \<and> pc_TunnelIP p \<in> tunnel_hosts
     \<and> 0 < MaxConcurrent (pc_Limits p) \<and> 0 < DialsPerSecond (pc_Limits p)
     \<and> wf_allow (pc_Allow p)
     \<and> (\<forall>(n, b) \<in> set (pc_Allow p). ValidServiceName n \<and> ap_IsValid b \<and> ap_port b \<noteq> 0
          \<and> Unmap (ap_addr b) = ap_addr b))"

lemma validateTunnelAddr_host: "validateTunnelAddr name s = Inr a \<Longrightarrow> a \<in> tunnel_hosts"
  by (auto simp: tunnel_host_iff validateTunnelAddr_def split: sum.splits if_splits)

lemma validateLimits_pos:
  "validateLimits name l = Inr lim \<Longrightarrow> 0 < MaxConcurrent lim \<and> 0 < DialsPerSecond lim"
  by (auto simp: validateLimits_def DefaultMaxConcurrent_def DefaultDialsPerSecond_def split: if_splits)

lemma validateAllow_wf:
  assumes "validateAllow peer allow es = Inr al" "wf_allow allow"
    and "\<forall>(n, b) \<in> set allow. ValidServiceName n \<and> ap_IsValid b \<and> ap_port b \<noteq> 0 \<and> Unmap (ap_addr b) = ap_addr b"
  shows "wf_allow al \<and> (\<forall>(n, b) \<in> set al. ValidServiceName n \<and> ap_IsValid b \<and> ap_port b \<noteq> 0
      \<and> Unmap (ap_addr b) = ap_addr b)"
  using assms
proof (induction peer allow es rule: validateAllow.induct)
  case (2 peer allow name backend es)
  from "2.prems"(1) obtain ap where ap: "ValidServiceName name" "ParseAddrPort backend = Some ap"
      "ap_IsValid ap" "ap_port ap \<noteq> 0"
    by (auto split: if_splits option.splits)
  let ?al = "AList.update name (AddrPort (Unmap (ap_addr ap)) (ap_port ap)) allow"
  have "wf_allow ?al" using "2.prems"(2) by (simp add: wf_allow_def distinct_update)
  moreover have "\<forall>(n, b) \<in> set ?al. ValidServiceName n \<and> ap_IsValid b \<and> ap_port b \<noteq> 0
      \<and> Unmap (ap_addr b) = ap_addr b"
  proof (clarify, goal_cases)
    case (1 n b)
    then have "map_of ?al n = Some b"
      using \<open>wf_allow ?al\<close> by (simp add: wf_allow_def)
    then show ?case
      using "2.prems"(3) ap by (auto simp: AList.update_conv' ap_IsValid_def split: if_splits dest!: map_of_SomeD)
  qed
  ultimately show ?case using "2.IH" "2.prems"(1) ap by simp
qed simp

lemmas validateAllow_wf_Nil = validateAllow_wf [where allow = "[]", simplified wf_allow_def, simplified]

lemma validatePeer_wf: "validatePeer rp = Inr p \<Longrightarrow> peer_wf p"
  by (auto simp: validatePeer_def peer_wf_def andThen_eq_Inr wf_allow_def
      dest: validateTunnelAddr_host validateLimits_pos dest!: validateAllow_wf_Nil
      split: if_splits option.splits)

lemma validatePeer_fields:
  "validatePeer rp = Inr p \<Longrightarrow> pc_Name p = py_Name rp \<and> pc_PublicKey p = py_PublicKey rp \<and> pc_PSK p = py_PSK rp"
  by (auto simp: validatePeer_def andThen_eq_Inr split: if_splits option.splits)

text \<open>What a loaded peer list guarantees.\<close>

definition peers_wf :: "peerConfig list \<Rightarrow> bool" where
  "peers_wf ps = (list_all peer_wf ps \<and> distinct (map pc_Name ps)
     \<and> distinct (map pc_PublicKey ps) \<and> distinct (map pc_TunnelIP ps))"

lemma peers_wf_nil: "peers_wf []"
  by (simp add: peers_wf_def)

lemma peers_loop_wf:
  "peers_loop path i peers rps = Inr ps \<Longrightarrow> peers_wf peers \<Longrightarrow> peers_wf ps"
  by (induction path i peers rps rule: peers_loop.induct)
    (auto simp: peers_wf_def dest: validatePeer_wf split: sum.splits if_splits)

lemma peers_loop_length: "peers_loop path i peers rps = Inr ps \<Longrightarrow> length ps = length peers + length rps"
  by (induction path i peers rps rule: peers_loop.induct) (auto split: sum.splits if_splits)

lemma buildPeersConfig_Inr:
  "buildPeersConfig path raw = Inr cfg \<Longrightarrow>
     peers_wf (cfg_peers cfg) \<and> newPolicy (map peer_policy (cfg_peers cfg)) = Inr (cfg_policy cfg)
     \<and> length (cfg_peers cfg) = length (psy_Peers raw)"
  by (cases "peers_loop path 0 [] (psy_Peers raw)"; cases "newPolicy (map peer_policy (projr (peers_loop path 0 [] (psy_Peers raw))))")
    (auto simp: buildPeersConfig_def peers_wf_nil dest: peers_loop_wf peers_loop_length)

lemma LoadPeersConfig_Inr:
  assumes "LoadPeersConfig readFile decode1 decode2 path = Inr cfg"
  obtains raw where "buildPeersConfig path raw = Inr cfg"
  using assms by (auto simp: LoadPeersConfig_def split: sum.splits)

lemma tunnel_hosts_unmapped: "a \<in> tunnel_hosts \<Longrightarrow> Unmap a = a"
  by (auto simp: tunnel_hosts_def)

lemma LoadPeersConfig_wf:
  assumes "LoadPeersConfig readFile decode1 decode2 path = Inr cfg"
  shows "peers_wf (cfg_peers cfg)" "newPolicy (map peer_policy (cfg_peers cfg)) = Inr (cfg_policy cfg)"
  using assms by (auto elim!: LoadPeersConfig_Inr dest!: buildPeersConfig_Inr)

lemma peers_wf_policies: "peers_wf ps \<Longrightarrow> list_all (\<lambda>p. wf_allow (pp_Allow p)) (map peer_policy ps)"
  by (auto simp: peers_wf_def peer_wf_def list_all_iff peer_policy_def)

subsection \<open>Differences\<close>

lemma peers_by_key_Some:
  "distinct (map pc_PublicKey ps) \<Longrightarrow> peers_by_key ps k = Some p \<longleftrightarrow> p \<in> set ps \<and> pc_PublicKey p = k"
  unfolding peers_by_key_def
  by (subst map_of_eq_Some_iff) (auto simp: rev_map comp_def simp flip: rev_map)

lemma peers_by_key_None: "peers_by_key ps k = None \<longleftrightarrow> k \<notin> pc_PublicKey ` set ps"
  unfolding peers_by_key_def by (simp add: map_of_eq_None_iff image_comp comp_def)

lemma maps_Equal_refl: "wf_allow m \<Longrightarrow> maps_Equal m m"
  by (auto simp: maps_Equal_def list_all_iff wf_allow_def)

lemma maps_Equal_iff:
  assumes "distinct (map fst m)" "distinct (map fst n)"
  shows "maps_Equal m n \<longleftrightarrow> map_of m = map_of n"
proof
  assume eq: "maps_Equal m n"
  then have sub: "set m \<subseteq> set n"
    by (auto simp: maps_Equal_def list_all_iff dest: map_of_SomeD)
  have "length m = length n" using eq by (simp add: maps_Equal_def)
  then have "card (set m) = card (set n)"
    using assms by (simp add: distinct_card distinct_map)
  then have "set m = set n" using sub by (simp add: card_subset_eq)
  then show "map_of m = map_of n" using assms by (simp add: map_of_inject_set)
next
  assume eq: "map_of m = map_of n"
  then have "set m = set n" using assms by (simp add: map_of_inject_set)
  then have "length m = length n"
    using assms by (metis distinct_card distinct_map)
  then show "maps_Equal m n" using assms eq [symmetric] by (auto simp: maps_Equal_def list_all_iff)
qed

lemma peer_equal_iff:
  assumes "peer_wf p" "peer_wf q"
  shows "peer_equal p q \<longleftrightarrow> p\<lparr>pc_Allow := []\<rparr> = q\<lparr>pc_Allow := []\<rparr> \<and> map_of (pc_Allow p) = map_of (pc_Allow q)"
  using assms by (cases p; cases q) (auto simp: peer_equal_def peer_wf_def wf_allow_def maps_Equal_iff)

lemma diffPeers_key:
  assumes "distinct (map pc_PublicKey prev)"
  shows "p \<in> set (Added (diffPeers prev next)) \<longleftrightarrow> p \<in> set next \<and> pc_PublicKey p \<notin> pc_PublicKey ` set prev"
    and "p \<in> set (Removed (diffPeers prev next)) \<longleftrightarrow> p \<in> set prev \<and> pc_PublicKey p \<notin> pc_PublicKey ` set next"
    and "p \<in> set (Changed (diffPeers prev next)) \<longleftrightarrow>
      p \<in> set next \<and> (\<exists>old \<in> set prev. pc_PublicKey old = pc_PublicKey p \<and> \<not> peer_equal old p)"
proof -
  show "p \<in> set (Added (diffPeers prev next)) \<longleftrightarrow> p \<in> set next \<and> pc_PublicKey p \<notin> pc_PublicKey ` set prev"
    by (auto simp: diffPeers_def peers_by_key_None)
  show "p \<in> set (Removed (diffPeers prev next)) \<longleftrightarrow> p \<in> set prev \<and> pc_PublicKey p \<notin> pc_PublicKey ` set next"
    by (auto simp: diffPeers_def)
  show "p \<in> set (Changed (diffPeers prev next)) \<longleftrightarrow>
      p \<in> set next \<and> (\<exists>old \<in> set prev. pc_PublicKey old = pc_PublicKey p \<and> \<not> peer_equal old p)"
  proof (cases "peers_by_key prev (pc_PublicKey p)")
    case None
    then have "pc_PublicKey p \<notin> pc_PublicKey ` set prev" by (simp add: peers_by_key_None)
    then have "\<not> (\<exists>old \<in> set prev. pc_PublicKey old = pc_PublicKey p \<and> \<not> peer_equal old p)"
      by (metis image_eqI)
    then show ?thesis using None by (simp add: diffPeers_def)
  next
    case (Some old)
    have "q = old" if "q \<in> set prev" "pc_PublicKey q = pc_PublicKey p" for q
    proof -
      have "peers_by_key prev (pc_PublicKey p) = Some q" using that peers_by_key_Some [OF assms] by blast
      then show ?thesis using Some by simp
    qed
    moreover have "old \<in> set prev" "pc_PublicKey old = pc_PublicKey p"
      using Some peers_by_key_Some [OF assms] by simp_all
    ultimately have "(\<exists>q \<in> set prev. pc_PublicKey q = pc_PublicKey p \<and> \<not> peer_equal q p) \<longleftrightarrow> \<not> peer_equal old p"
      by metis
    then show ?thesis using Some by (simp add: diffPeers_def)
  qed
qed

text \<open>What the consumer of a difference does to a table keyed by public key.\<close>

definition apply_keys :: "peerDiff \<Rightarrow> (string \<rightharpoonup> peerConfig) \<Rightarrow> string \<rightharpoonup> peerConfig" where
  "apply_keys d t = (\<lambda>k. if k \<in> pc_PublicKey ` set (Removed d) then None
     else case map_of (map (\<lambda>p. (pc_PublicKey p, p)) (Added d @ Changed d)) k of
       Some p \<Rightarrow> Some p | None \<Rightarrow> t k)"

definition same_peer :: "peerConfig option \<Rightarrow> peerConfig option \<Rightarrow> bool" where
  "same_peer p q = rel_option peer_equal p q"

lemma diff_written_key:
  assumes "distinct (map pc_PublicKey prev)"
  shows "map_of (map (\<lambda>p. (pc_PublicKey p, p)) (Added (diffPeers prev next) @ Changed (diffPeers prev next))) k = Some p
      \<Longrightarrow> p \<in> set next \<and> pc_PublicKey p = k \<and> (k \<notin> pc_PublicKey ` set prev
        \<or> (\<exists>old \<in> set prev. pc_PublicKey old = k \<and> \<not> peer_equal old p))" (is "?m k = _ \<Longrightarrow> _")
    and "map_of (map (\<lambda>p. (pc_PublicKey p, p)) (Added (diffPeers prev next) @ Changed (diffPeers prev next))) k = None
      \<Longrightarrow> pc_PublicKey p = k \<Longrightarrow> p \<notin> set (Added (diffPeers prev next) @ Changed (diffPeers prev next))"
proof -
  assume "?m k = Some p"
  then have "p \<in> set (Added (diffPeers prev next)) \<union> set (Changed (diffPeers prev next))" "pc_PublicKey p = k"
    using map_of_SomeD by fastforce+
  then show "p \<in> set next \<and> pc_PublicKey p = k \<and> (k \<notin> pc_PublicKey ` set prev
      \<or> (\<exists>old \<in> set prev. pc_PublicKey old = k \<and> \<not> peer_equal old p))"
    using diffPeers_key(1,3) [OF assms, of p "next"] by (metis UnE)
next
  assume "?m k = None" "pc_PublicKey p = k"
  then show "p \<notin> set (Added (diffPeers prev next) @ Changed (diffPeers prev next))"
    unfolding map_of_eq_None_iff by force
qed

lemma apply_keys_gone:
  assumes dp: "distinct (map pc_PublicKey prev)" and None: "peers_by_key next k = None"
  shows "apply_keys (diffPeers prev next) (peers_by_key prev) k = None"
proof -
  let ?d = "diffPeers prev next"
  let ?m = "map_of (map (\<lambda>p. (pc_PublicKey p, p)) (Added ?d @ Changed ?d))"
  have kn: "k \<notin> pc_PublicKey ` set next" using None by (simp add: peers_by_key_None)
  then have "?m k \<noteq> Some q" for q using diff_written_key(1) [OF dp, of "next" k, of q] by (metis imageI)
  then have "?m k = None" by (metis not_Some_eq)
  moreover have "k \<in> pc_PublicKey ` set (Removed ?d)" if k: "k \<in> pc_PublicKey ` set prev"
  proof -
    obtain q where q: "q \<in> set prev" "k = pc_PublicKey q" using k by (rule imageE)
    then have "q \<in> set (Removed ?d)" using kn by (simp add: diffPeers_key(2) [OF dp, of _ "next"])
    then show ?thesis using q(2) by simp
  qed
  moreover have "peers_by_key prev k = None" if "k \<notin> pc_PublicKey ` set prev"
    using that by (rule peers_by_key_None [THEN iffD2])
  ultimately show ?thesis unfolding apply_keys_def by (simp del: map_append) metis
qed

lemma apply_keys_diffPeers:
  assumes "peers_wf prev" "peers_wf next"
  shows "same_peer (apply_keys (diffPeers prev next) (peers_by_key prev) k) (peers_by_key next k)"
proof -
  have dp: "distinct (map pc_PublicKey prev)" and dn: "distinct (map pc_PublicKey next)"
    using assms by (auto simp: peers_wf_def)
  let ?d = "diffPeers prev next"
  let ?m = "map_of (map (\<lambda>p. (pc_PublicKey p, p)) (Added ?d @ Changed ?d))"
  note D = diffPeers_key [OF dp, of _ "next"]
  have uniq: "p = q" if "p \<in> set next" "q \<in> set next" "pc_PublicKey p = pc_PublicKey q" for p q
    using that dn by (simp add: distinct_map inj_on_def)
  note mem = diff_written_key(1) [OF dp, of "next" k] and none = diff_written_key(2) [OF dp, of "next" k]
  show ?thesis
  proof (cases "peers_by_key next k")
    case None
    then show ?thesis using apply_keys_gone [OF dp None] by (simp add: same_peer_def)
  next
    case (Some p)
    then have p: "p \<in> set next" "pc_PublicKey p = k" using peers_by_key_Some [OF dn] by auto
    have nr: "k \<notin> pc_PublicKey ` set (Removed ?d)" using p D(2) by (metis image_iff)
    have pw: "peer_equal p p" using assms p
      by (auto simp: peers_wf_def list_all_iff peer_equal_def peer_wf_def maps_Equal_refl)
    show ?thesis
    proof (cases "?m k")
      case (Some q)
      then have "q = p" using mem uniq p by blast
      then show ?thesis using Some nr pw \<open>peers_by_key next k = Some p\<close>
        by (simp add: apply_keys_def same_peer_def del: map_append)
    next
      case None
      then have "p \<notin> set (Added ?d @ Changed ?d)" using none p by blast
      then obtain old where old: "old \<in> set prev" "pc_PublicKey old = k" "peer_equal old p"
        using D(1) [of p] D(3) [of p] p by (metis Un_iff image_iff set_append)
      then have "peers_by_key prev k = Some old" using peers_by_key_Some [OF dp] by auto
      then show ?thesis using None nr old \<open>peers_by_key next k = Some p\<close>
        by (simp add: apply_keys_def same_peer_def del: map_append)
    qed
  qed
qed

lemma diff_IsEmpty_iff:
  assumes "peers_wf prev" "peers_wf next"
  shows "diff_IsEmpty (diffPeers prev next) \<longleftrightarrow>
    (\<forall>k. same_peer (peers_by_key prev k) (peers_by_key next k))" (is "?e \<longleftrightarrow> ?s")
proof
  assume ?e
  then have "apply_keys (diffPeers prev next) t = t" for t
    by (simp add: diff_IsEmpty_def apply_keys_def)
  then show ?s using apply_keys_diffPeers [OF assms] by simp
next
  assume s: ?s
  have dp: "distinct (map pc_PublicKey prev)" and dn: "distinct (map pc_PublicKey next)"
    using assms by (auto simp: peers_wf_def)
  note D = diffPeers_key [OF dp, of _ "next"]
  have dom: "k \<in> pc_PublicKey ` set prev \<longleftrightarrow> k \<in> pc_PublicKey ` set next" for k
    using s [rule_format, of k] peers_by_key_None [of prev k] peers_by_key_None [of "next" k]
    by (cases "peers_by_key prev k"; cases "peers_by_key next k") (simp_all add: same_peer_def)
  have eq: "peer_equal old p" if "old \<in> set prev" "p \<in> set next" "pc_PublicKey old = pc_PublicKey p" for old p
  proof -
    have "peers_by_key prev (pc_PublicKey p) = Some old" "peers_by_key next (pc_PublicKey p) = Some p"
      using that peers_by_key_Some [OF dp] peers_by_key_Some [OF dn] by auto
    then show ?thesis using s [rule_format, of "pc_PublicKey p"] by (simp add: same_peer_def)
  qed
  have "p \<notin> set (Added (diffPeers prev next))" "p \<notin> set (Removed (diffPeers prev next))"
    "p \<notin> set (Changed (diffPeers prev next))" for p
    using D [of p] dom [of "pc_PublicKey p"] eq by (metis imageI)+
  then have "set (Added (diffPeers prev next)) = {}" "set (Removed (diffPeers prev next)) = {}"
    "set (Changed (diffPeers prev next)) = {}" by (simp_all only: set_eq_iff empty_iff simp_thms)
  then show ?e by (simp add: diff_IsEmpty_def)
qed

lemma peers_wf_bound:
  assumes "peers_wf ps"
  shows "length ps \<le> 253"
proof -
  have "length ps = card (pc_TunnelIP ` set ps)"
    using assms distinct_card [of "map pc_TunnelIP ps"] by (simp add: peers_wf_def)
  also have "\<dots> \<le> card tunnel_hosts"
    using assms by (intro card_mono) (auto simp: peers_wf_def peer_wf_def list_all_iff tunnel_hosts_def)
  finally show ?thesis by (simp add: card_tunnel_hosts)
qed

lemma peer_grants_policy:
  assumes "peer_wf p"
  shows "peer_grants (peer_policy p) ip name b \<longleftrightarrow> pc_TunnelIP p = Unmap ip \<and> (name, b) \<in> set (pc_Allow p)"
  using assms tunnel_hosts_unmapped [of "pc_TunnelIP p"]
  by (simp add: peer_grants_def peer_policy_def peer_wf_def)

lemma policy_of_peers:
  assumes "peers_wf ps" "newPolicy (map peer_policy ps) = Inr pol"
  shows "Resolve pol ip name = Some b \<longleftrightarrow> (\<exists>p \<in> set ps. pc_TunnelIP p = Unmap ip \<and> (name, b) \<in> set (pc_Allow p))"
proof -
  have "Resolve pol ip name = Some b \<longleftrightarrow> (\<exists>p \<in> set ps. peer_grants (peer_policy p) ip name b)"
    using pe.resolve_iff [OF assms(2) peers_wf_policies [OF assms(1)], of ip name b] by simp
  also have "\<dots> \<longleftrightarrow> (\<exists>p \<in> set ps. pc_TunnelIP p = Unmap ip \<and> (name, b) \<in> set (pc_Allow p))"
    using assms(1) by (intro bex_cong refl peer_grants_policy) (simp add: peers_wf_def list_all_iff)
  finally show ?thesis .
qed

section \<open>Properties\<close>

text \<open>
  Claim C11. What a successful load of the peers file guarantees: every peer in force has a valid
  name, a public key decoding to 32 bytes, a well-formed secret reference, a host address of the
  tunnel subnet that is not the server's, positive limits and literal backends; names, key
  spellings and addresses are pairwise distinct, so there are at most 253 peers; and the policy
  that comes with the list grants exactly the entries of the list.
\<close>

theorem load_peers_invariant:
  assumes "LoadPeersConfig readFile decode1 decode2 path = Inr cfg"
  shows "peers_wf (cfg_peers cfg) \<and> length (cfg_peers cfg) \<le> 253
    \<and> (Resolve (cfg_policy cfg) ip name = Some b \<longleftrightarrow>
        (\<exists>p \<in> set (cfg_peers cfg). pc_TunnelIP p = Unmap ip \<and> (name, b) \<in> set (pc_Allow p)))"
  using LoadPeersConfig_wf [OF assms] peers_wf_bound policy_of_peers by blast

definition example_key :: string where
  "example_key = ''AAAAAAAAAAAAAAAAAAAAAAAAAAAAAAAAAAAAAAAAAAA=''"

definition example_peer :: "string \<Rightarrow> string \<Rightarrow> string \<Rightarrow> peerYAML" where
  "example_peer name key ip = \<lparr>py_Name = name, py_PublicKey = key, py_PSK = ''env:PSK'',
     py_TunnelIP = ip, py_Limits = \<lparr>ly_MaxConcurrent = 0, ly_DialsPerSecond = 3\<rparr>,
     py_Allow = [(''db'', ''192.0.2.10:22'')]\<rparr>"


definition example_alias :: string where
  "example_alias = ''AAAAAAAAAAAAAAAAAAAAAAAAAAAAAAAAAAAAAAAAAAB=''"

lemma example_parse:
  "validPublicKey example_key = None"
  "validPublicKey example_alias = None"
  "DecodeString example_alias = DecodeString example_key"
  by code_simp+

lemma example_addrs:
  "ParseAddr ''10.99.0.7'' = Some (Addr4 0x0A630007)"
  "ParseAddr ''10.99.0.8'' = Some (Addr4 0x0A630008)"
  "ParseAddr ''192.0.2.10'' = Some (Addr4 0xC000020A)"
  by code_simp+

lemma example_addrport:
  "ParseAddrPort ''192.0.2.10:22'' = Some (AddrPort (Addr4 0xC000020A) 22)"
  using example_addrs
  by (simp add: ParseAddrPort_def split_addr_port_def parse_uint16_def decimal_value_def
      is_digit_char_def Is6_def)

lemma example_names:
  "ValidServiceName ''a''" "ValidServiceName ''b''" "ValidServiceName ''db''"
  "validSecretRef ''env:PSK'' = None"
  by code_simp+

lemma validPublicKey_decodes: "validPublicKey s = None \<Longrightarrow> \<exists>k. DecodeString s = Some k \<and> length k = wgKeyLen"
  by (auto simp: validPublicKey_def split: if_splits option.splits)

lemmas example_parses = example_parse example_addrs example_addrport example_names

lemma example_host:
  "validateTunnelAddr name ''10.99.0.7'' = Inr (Addr4 0x0A630007)"
  "validateTunnelAddr name ''10.99.0.8'' = Inr (Addr4 0x0A630008)"
proof -
  have h: "Addr4 0x0A630007 \<in> tunnel_hosts" "Addr4 0x0A630008 \<in> tunnel_hosts"
    by (auto simp: tunnel_hosts_def image_iff intro: bexI [of _ 7] bexI [of _ 8])
  show "validateTunnelAddr name ''10.99.0.7'' = Inr (Addr4 0x0A630007)"
    "validateTunnelAddr name ''10.99.0.8'' = Inr (Addr4 0x0A630008)"
    using h unfolding tunnel_host_iff
    by (simp_all add: validateTunnelAddr_def parseTunnelIP_def example_parses Let_def IsUnspecified_def)
qed

definition example_config :: "string \<Rightarrow> string \<Rightarrow> peerConfig" where
  "example_config name key = \<lparr>pc_Name = name, pc_PublicKey = key, pc_PSK = ''env:PSK'',
     pc_TunnelIP = (if name = ''a'' then Addr4 0x0A630007 else Addr4 0x0A630008),
     pc_Limits = \<lparr>MaxConcurrent = 32, DialsPerSecond = 3\<rparr>,
     pc_Allow = [(''db'', AddrPort (Addr4 0xC000020A) 22)]\<rparr>"

lemma example_validatePeer:
  "validatePeer (example_peer ''a'' example_key ''10.99.0.7'') = Inr (example_config ''a'' example_key)"
  "validatePeer (example_peer ''b'' example_alias ''10.99.0.8'') = Inr (example_config ''b'' example_alias)"
  by (simp_all add: validatePeer_def example_peer_def example_parses example_host validateLimits_def
      example_config_def DefaultMaxConcurrent_def ap_IsValid_def)

definition example_raw :: peersYAML where
  "example_raw = \<lparr>psy_Peers = [example_peer ''a'' example_key ''10.99.0.7'',
     example_peer ''b'' example_alias ''10.99.0.8'']\<rparr>"

lemma example_build:
  "\<exists>pol. buildPeersConfig path example_raw =
     Inr \<lparr>cfg_peers = [example_config ''a'' example_key, example_config ''b'' example_alias], cfg_policy = pol\<rparr>"
proof -
  let ?ps = "[example_config ''a'' example_key, example_config ''b'' example_alias]"
  have "peers_loop path 0 [] (psy_Peers example_raw) = Inr ?ps"
    unfolding example_raw_def
    by (simp add: example_validatePeer, simp add: example_config_def example_key_def example_alias_def)
  moreover have "\<exists>pol. newPolicy (map peer_policy ?ps) = Inr pol"
    by (simp add: newPolicy_Inr peer_policy_def example_config_def peer_ok_def entry_ok_def
        backend_ok_def ap_IsValid_def IsUnspecified_def example_parses)
  ultimately show ?thesis by (auto simp: buildPeersConfig_def)
qed

theorem load_peers_invariant_witness:
  "\<exists>cfg. LoadPeersConfig (\<lambda>_. Inr []) (\<lambda>_. Inr example_raw) (\<lambda>_. Inl YamlEOF) ''p'' = Inr cfg
     \<and> length (cfg_peers cfg) = 2
     \<and> Resolve (cfg_policy cfg) (Addr4 0x0A630007) ''db'' = Some (AddrPort (Addr4 0xC000020A) 22)"
proof -
  obtain pol where p: "buildPeersConfig ''p'' example_raw =
      Inr \<lparr>cfg_peers = [example_config ''a'' example_key, example_config ''b'' example_alias], cfg_policy = pol\<rparr>"
      (is "_ = Inr ?c")
    using example_build by blast
  then have l: "LoadPeersConfig (\<lambda>_. Inr []) (\<lambda>_. Inr example_raw) (\<lambda>_. Inl YamlEOF) ''p'' = Inr ?c"
    by (simp add: LoadPeersConfig_def decodeStrict_def)
  have "Resolve (cfg_policy ?c) (Addr4 0x0A630007) ''db'' = Some (AddrPort (Addr4 0xC000020A) 22)"
    using load_peers_invariant [OF l, of "Addr4 0x0A630007" "''db''" "AddrPort (Addr4 0xC000020A) 22"]
    by (simp add: example_config_def)
  with l show ?thesis by (intro exI [of _ ?c]) simp
qed

text \<open>
  Claim C40. The duplicate check on \<^verbatim>\<open>public_key\<close> compares spellings, not keys. The decoder
  ignores the unused low bits of the last digit, so there is a peers file with two peers whose
  keys decode to the same 32 bytes, and the load accepts it as two distinct peers with two tunnel
  addresses.
\<close>

theorem duplicate_key_alias_accepted:
  "\<exists>cfg p q. LoadPeersConfig (\<lambda>_. Inr []) (\<lambda>_. Inr example_raw) (\<lambda>_. Inl YamlEOF) ''p'' = Inr cfg
     \<and> p \<in> set (cfg_peers cfg) \<and> q \<in> set (cfg_peers cfg) \<and> pc_TunnelIP p \<noteq> pc_TunnelIP q
     \<and> DecodeString (pc_PublicKey p) \<noteq> None
     \<and> DecodeString (pc_PublicKey p) = DecodeString (pc_PublicKey q)"
proof -
  obtain pol where "buildPeersConfig ''p'' example_raw =
      Inr \<lparr>cfg_peers = [example_config ''a'' example_key, example_config ''b'' example_alias], cfg_policy = pol\<rparr>"
      (is "_ = Inr ?c")
    using example_build by blast
  then show ?thesis
    by (intro exI [of _ ?c] exI [of _ "example_config ''a'' example_key"]
          exI [of _ "example_config ''b'' example_alias"])
      (use validPublicKey_decodes [OF example_parse(1)] in
        \<open>auto simp: LoadPeersConfig_def decodeStrict_def example_config_def example_parse\<close>)
qed

lemma validateTunnelAddr_iff:
  "validateTunnelAddr name s = Inr a \<longleftrightarrow> (\<exists>x. ParseAddr s = Some x \<and> Unmap x = a \<and> a \<in> tunnel_hosts)"
proof -
  have v: "IsValid a \<and> \<not> IsUnspecified a" if "a \<in> tunnel_hosts" for a
    using that by (auto simp: tunnel_hosts_def IsUnspecified_def word_unat_eq_iff unat_host)
  have e: "ParseAddr [] = None" by code_simp
  show ?thesis
  proof
    assume "validateTunnelAddr name s = Inr a"
    then have "parseTunnelIP s = Inr a" "a \<in> tunnel_hosts"
      using validateTunnelAddr_host by (auto simp: validateTunnelAddr_def split: sum.splits if_splits)
    then show "\<exists>x. ParseAddr s = Some x \<and> Unmap x = a \<and> a \<in> tunnel_hosts"
      by (auto simp: parseTunnelIP_def Let_def split: option.splits if_splits)
  next
    assume "\<exists>x. ParseAddr s = Some x \<and> Unmap x = a \<and> a \<in> tunnel_hosts"
    then obtain x where x: "ParseAddr s = Some x" "Unmap x = a" "a \<in> tunnel_hosts" by blast
    then have "parseTunnelIP s = Inr a" using v [of a] e by (auto simp: parseTunnelIP_def)
    then show "validateTunnelAddr name s = Inr a"
      using x(3) by (simp add: validateTunnelAddr_def tunnel_host_iff)
  qed
qed

lemma tunnel_hosts_valid: "a \<in> tunnel_hosts \<Longrightarrow> IsValid a"
  by (auto simp: tunnel_hosts_def)

text \<open>
  A peer's tunnel address is accepted if and only if the text parses to one of the 253
  host addresses \<^verbatim>\<open>10.99.0.2\<close> to \<^verbatim>\<open>10.99.0.254\<close> (in IPv4 or IPv4-in-IPv6 spelling), and it is
  then kept in its IPv4 form.
\<close>

theorem tunnel_address_exact:
  "validateTunnelAddr name s = Inr a \<longleftrightarrow> (\<exists>x. ParseAddr s = Some x \<and> Unmap x = a \<and> a \<in> tunnel_hosts)"
  by (rule validateTunnelAddr_iff)

text \<open>
  The broadcast address of an IPv4 prefix is its last address: the network bits kept, all
  host bits set, in 32-bit wrap-around arithmetic, including the \<^verbatim>\<open>/0\<close> prefix, where the shift
  leaves nothing and the subtraction wraps to all ones.
\<close>

theorem subnetBroadcast_last:
  "\<exists>b. subnetBroadcast (NetPrefix (Addr4 w) n) = Addr4 b \<and> Contains (NetPrefix (Addr4 w) n) (Addr4 b)
     \<and> (\<forall>v. Contains (NetPrefix (Addr4 w) n) (Addr4 v) \<longrightarrow> v \<le> b) \<and> (n = 0 \<longrightarrow> b = 0xFFFFFFFF)"
proof -
  let ?b = "w OR mask (32 - n)"
  have "v \<le> ?b" if "drop_bit (32 - n) (v XOR w) = 0" for v
  proof -
    have "bit v i \<longleftrightarrow> bit w i" if "32 - n \<le> i" for i
    proof -
      have "\<not> bit (drop_bit (32 - n) (v XOR w)) (i - (32 - n))"
        using \<open>drop_bit (32 - n) (v XOR w) = 0\<close> by simp
      then show ?thesis using that by (simp add: bit_xor_iff bit_drop_bit_eq)
    qed
    then have "?b = v OR ?b"
      by (auto simp: bit_eq_iff bit_simps)
    then show ?thesis by (metis le_word_or2)
  qed
  moreover have "drop_bit (32 - n) (?b XOR w) = 0"
    by (auto simp: bit_eq_iff bit_simps)
  moreover have "n = 0 \<longrightarrow> ?b = 0xFFFFFFFF"
  proof -
    have "w OR mask 32 = mask 32" by (auto simp: bit_eq_iff bit_simps)
    also have "mask 32 = (0xFFFFFFFF :: 32 word)" by (simp add: mask_numeral)
    finally show ?thesis by simp
  qed
  ultimately show ?thesis
    by (intro exI [of _ ?b]) (simp add: subnetBroadcast_eq Contains_def)
qed

theorem subnetBroadcast_last_witness:
  "subnetBroadcast tunnelSubnet = Addr4 0x0A6300FF
     \<and> Contains tunnelSubnet (Addr4 0x0A630001) \<and> (0x0A630001 :: 32 word) \<le> 0x0A6300FF"
proof -
  have c: "Contains (NetPrefix (Addr4 0x0A630000) 24) (Addr4 0x0A630001)"
    by (simp add: Contains_24 drop_bit_eq_div)
  have "subnetBroadcast tunnelSubnet = Addr4 0x0A6300FF"
    by (subst subnetBroadcast_eq [where w = "0x0A630000"]) (simp_all add: tunnelSubnet_def mask_numeral)
  then show ?thesis
    using subnetBroadcast_last [of "0x0A630000" 24] c by (auto simp: tunnelSubnet_def)
qed


text \<open>
  Claim C13. The reload difference is complete and minimal. For two loaded peer lists, removing the
  removed keys from the old table and then writing the added and changed entries gives the new
  table, entry by entry up to the order of the allow map; and the difference is empty exactly when
  the two tables already agree.
\<close>

theorem diffPeers_complete_and_minimal:
  assumes "LoadPeersConfig readFile decode1 decode2 path = Inr prev"
    and "LoadPeersConfig readFile' decode1' decode2' path' = Inr cfg"
  shows "same_peer (apply_keys (diffPeers (cfg_peers prev) (cfg_peers cfg)) (peers_by_key (cfg_peers prev)) k)
      (peers_by_key (cfg_peers cfg) k)
    \<and> diff_IsEmpty (diffPeers (cfg_peers prev) (cfg_peers cfg)) =
      (\<forall>k. same_peer (peers_by_key (cfg_peers prev) k) (peers_by_key (cfg_peers cfg) k))"
  using apply_keys_diffPeers diff_IsEmpty_iff LoadPeersConfig_wf(1) [OF assms(1)]
    LoadPeersConfig_wf(1) [OF assms(2)] by blast

lemma example_load:
  "\<exists>pol. LoadPeersConfig (\<lambda>_. Inr []) (\<lambda>_. Inr example_raw) (\<lambda>_. Inl YamlEOF) ''p'' =
     Inr \<lparr>cfg_peers = [example_config ''a'' example_key, example_config ''b'' example_alias], cfg_policy = pol\<rparr>"
  using example_build [of "''p''"] by (simp add: LoadPeersConfig_def decodeStrict_def)

lemma empty_load:
  "LoadPeersConfig (\<lambda>_. Inr []) (\<lambda>_. Inr \<lparr>psy_Peers = []\<rparr>) (\<lambda>_. Inl YamlEOF) ''p'' =
     Inr \<lparr>cfg_peers = [], cfg_policy = \<lparr>pol_peers = Map.empty\<rparr>\<rparr>"
  by (simp add: LoadPeersConfig_def decodeStrict_def buildPeersConfig_def newPolicy_def)

theorem diffPeers_complete_and_minimal_witness:
  "\<exists>prev cfg. LoadPeersConfig (\<lambda>_. Inr []) (\<lambda>_. Inr example_raw) (\<lambda>_. Inl YamlEOF) ''p'' = Inr prev
     \<and> LoadPeersConfig (\<lambda>_. Inr []) (\<lambda>_. Inr \<lparr>psy_Peers = []\<rparr>) (\<lambda>_. Inl YamlEOF) ''p'' = Inr cfg
     \<and> apply_keys (diffPeers (cfg_peers prev) (cfg_peers cfg)) (peers_by_key (cfg_peers prev)) example_key = None"
proof -
  obtain pol where l: "LoadPeersConfig (\<lambda>_. Inr []) (\<lambda>_. Inr example_raw) (\<lambda>_. Inl YamlEOF) ''p'' =
     Inr \<lparr>cfg_peers = [example_config ''a'' example_key, example_config ''b'' example_alias], cfg_policy = pol\<rparr>"
    using example_load by blast
  note n = peers_by_key_None [THEN iffD2, of example_key "[]"]
  have "apply_keys (diffPeers [example_config ''a'' example_key, example_config ''b'' example_alias] [])
      (peers_by_key [example_config ''a'' example_key, example_config ''b'' example_alias]) example_key = None"
    using diffPeers_complete_and_minimal [OF l empty_load, of example_key, THEN conjunct1] n
    by (simp add: same_peer_def)
  then show ?thesis using l empty_load by (metis PeersConfig.select_convs(1))
qed

text \<open>
  The server file is accepted exactly when its port is in 1 to 65535, its key is a
  well-formed reference, its tunnel address parses to the server address, its MTU is absent or in
  1280 to 1500, a peers file is named and the log format is absent or one of the two known ones;
  the accepted configuration carries the values of the file with the defaults filled in.
\<close>

theorem validateServer_exact:
  "validateServer path raw = Inr cfg \<longleftrightarrow>
     1 \<le> sy_ListenPort raw \<and> sy_ListenPort raw \<le> 65535
     \<and> validSecretRef (sy_PrivateKey raw) = None
     \<and> parseTunnelIP (sy_TunnelIP raw) = Inr serverTunnelIP
     \<and> (sy_MTU raw = 0 \<or> 1280 \<le> sy_MTU raw \<and> sy_MTU raw \<le> 1500)
     \<and> sy_PeersFile raw \<noteq> [] \<and> sy_LogFormat raw \<in> {[], ''json'', ''text''}
     \<and> cfg = \<lparr>sfc_ListenPort = sy_ListenPort raw, sfc_PrivateKey = sy_PrivateKey raw,
          sfc_TunnelIP = serverTunnelIP, sfc_MTU = (if sy_MTU raw = 0 then 1280 else sy_MTU raw),
          sfc_PeersFile = sy_PeersFile raw,
          sfc_LogFormat = (if sy_LogFormat raw = [] then ''json'' else sy_LogFormat raw)\<rparr>"
  by (cases "parseTunnelIP (sy_TunnelIP raw)"; cases "validSecretRef (sy_PrivateKey raw)")
    (auto simp: validateServer_def Let_def DefaultMTU_def minMTU_def maxMTU_def DefaultLogFormat_def)

end
