(* ===== verification/Watcher.thy ===== *)
theory Watcher
  imports Config
begin

text \<open>
  The hot reload of \<^verbatim>\<open>src/config.go\<close> (from line 657): the watcher that holds the peer list in
  force and replaces it when the file changes. The file system, the YAML decoder and fsnotify are a
  parameter, a record of what each call would return at that moment; the event loop is a function
  from one event to the next state, the reload results handed to the callback, and, when the loop
  ends, its return value.
\<close>

section \<open>Definitions\<close>

text \<open>What the calls the watcher makes would return now.\<close>

record fsenv =
  fe_Abs :: "string \<Rightarrow> string result"
  fe_Dir :: "string \<Rightarrow> string"
  fe_Stat :: "string \<Rightarrow> (int \<times> time) result"
  fe_ReadFile :: "string \<Rightarrow> string result"
  fe_Decode1 :: "string \<Rightarrow> yaml_error + peersYAML"
  fe_Decode2 :: "string \<Rightarrow> yaml_error + unit"
  fe_NewWatcher :: "unit result"
  fe_Add :: "string \<Rightarrow> goerror option"

record fileID =
  fid_size :: int
  fid_modTime :: time

definition statFileID :: "fsenv \<Rightarrow> string \<Rightarrow> fileID" where
  "statFileID env path = (case fe_Stat env path of
      Inl _ \<Rightarrow> \<lparr>fid_size = 0, fid_modTime = 0\<rparr>
    | Inr (sz, mt) \<Rightarrow> \<lparr>fid_size = sz, fid_modTime = mt\<rparr>)"

definition load_peers :: "fsenv \<Rightarrow> string \<Rightarrow> PeersConfig result" where
  "load_peers env path = LoadPeersConfig (fe_ReadFile env) (fe_Decode1 env) (fe_Decode2 env) path"

text \<open>\<^verbatim>\<open>filepath.Base\<close>.\<close>

definition path_base :: "string \<Rightarrow> string" where
  "path_base p =
     (if p = [] then ''.''
      else let p1 = rev (dropWhile (\<lambda>c. c = CHR ''/'') (rev p));
               p2 = rev (takeWhile (\<lambda>c. c \<noteq> CHR ''/'') (rev p1))
           in if p2 = [] then ''/'' else p2)"

record reloadResult =
  rr_Path :: string
  rr_Err :: "goerror option"
  rr_PeerCount :: nat
  rr_Diff :: peerDiff

record peerWatcher =
  pw_path :: string
  pw_dir :: string
  pw_base :: string
  pw_cur :: PeersConfig
  pw_seen :: fileID
  pw_closed :: bool

definition empty_diff :: peerDiff where
  "empty_diff = \<lparr>Added = [], Removed = [], Changed = []\<rparr>"

definition newPeerWatcher :: "fsenv \<Rightarrow> string \<Rightarrow> peerWatcher result" where
  "newPeerWatcher env path =
     (case fe_Abs env path of
        Inl err \<Rightarrow> Inl (errorf_w (''gocloak: config: '' @ path @ '': '') err '''')
      | Inr ab \<Rightarrow>
          let id = statFileID env ab in
          (case load_peers env ab of
             Inl err \<Rightarrow> Inl err
           | Inr cfg \<Rightarrow>
               let w = \<lparr>pw_path = ab, pw_dir = fe_Dir env ab, pw_base = path_base ab, pw_cur = cfg,
                        pw_seen = id, pw_closed = False\<rparr> in
               (case fe_NewWatcher env of
                  Inl err \<Rightarrow> Inl (errorf_w (''gocloak: config: watch '' @ path @ '': '') err '''')
                | Inr _ \<Rightarrow>
                    (case fe_Add env (pw_dir w) of
                       Some err \<Rightarrow> Inl (errorf_w (''gocloak: config: watch '' @ pw_dir w @ '': '') err '''')
                     | None \<Rightarrow> Inr w))))"

definition pw_policy :: "peerWatcher \<Rightarrow> policy" where
  "pw_policy w = cfg_policy (pw_cur w)"

definition pw_Config :: "peerWatcher \<Rightarrow> PeersConfig" where
  "pw_Config w = pw_cur w"

definition reloadLocked :: "fsenv \<Rightarrow> peerWatcher \<Rightarrow> reloadResult \<times> peerWatcher" where
  "reloadLocked env w =
     (let id = statFileID env (pw_path w) in
      case load_peers env (pw_path w) of
        Inl err \<Rightarrow>
          (\<lparr>rr_Path = pw_path w, rr_Err = Some err, rr_PeerCount = length (cfg_peers (pw_cur w)),
            rr_Diff = empty_diff\<rparr>, w\<lparr>pw_seen := id\<rparr>)
      | Inr cfg \<Rightarrow>
          let prev = pw_cur w; diff = diffPeers (cfg_peers prev) (cfg_peers cfg) in
          (\<lparr>rr_Path = pw_path w, rr_Err = None, rr_PeerCount = length (cfg_peers cfg), rr_Diff = diff\<rparr>,
           w\<lparr>pw_cur := cfg, pw_seen := id\<rparr>))"

definition reload :: "fsenv \<Rightarrow> peerWatcher \<Rightarrow> reloadResult \<times> peerWatcher" where
  "reload env w = reloadLocked env w"

text \<open>
  \<^verbatim>\<open>report\<close>: the callback gets the result; without a callback it is logged, and a reload that
  changed nothing is not.
\<close>

datatype report_action = Callback reloadResult | LogError reloadResult | LogInfo reloadResult | Quiet

definition report :: "bool \<Rightarrow> reloadResult \<Rightarrow> report_action" where
  "report hasCallback r =
     (if hasCallback then Callback r
      else if rr_Err r \<noteq> None then LogError r
      else if diff_IsEmpty (rr_Diff r) then Quiet
      else LogInfo r)"

text \<open>
  \<^verbatim>\<open>Run\<close>: the state of the loop is the watcher and whether the debounce timer is running. A
  select case is an event; the timer case can only fire while the timer runs. A tick looks at the file
  before it may reload it, and the file can change in between: the event carries what that first
  look meets.
\<close>

record runState =
  rs_watcher :: peerWatcher
  rs_debounce :: bool
  rs_rearmed :: nat

datatype runEvent =
    CtxDone
  | FsEvent string bool
  | FsEventsClosed
  | FsError
  | FsErrorsClosed
  | DebounceFires
  | RearmTick fsenv

definition rearmWatch :: "runState \<Rightarrow> runState" where
  "rearmWatch s = s\<lparr>rs_rearmed := rs_rearmed s + 1\<rparr>"

definition resetTimer :: "runState \<Rightarrow> runState" where
  "resetTimer s = s\<lparr>rs_debounce := True\<rparr>"

definition watch_closed_err :: goerror where
  "watch_closed_err = errors_New ''gocloak: config: peers file watch closed''"

definition run_event :: "fsenv \<Rightarrow> runEvent \<Rightarrow> runState \<Rightarrow> runState \<times> reloadResult list \<times> goerror option option" where
  "run_event env ev s = (case ev of
      CtxDone \<Rightarrow> (s, [], Some None)
    | FsEventsClosed \<Rightarrow> (s, [], Some (Some watch_closed_err))
    | FsErrorsClosed \<Rightarrow> (s, [], Some (Some watch_closed_err))
    | FsEvent name replaced \<Rightarrow>
        if path_base name \<noteq> pw_base (rs_watcher s) then (s, [], None)
        else let s1 = (if replaced then rearmWatch s else s) in (resetTimer s1, [], None)
    | FsError \<Rightarrow> (resetTimer (rearmWatch s), [], None)
    | DebounceFires \<Rightarrow>
        if rs_debounce s
        then (case reload env (rs_watcher s) of (r, w) \<Rightarrow>
                (s\<lparr>rs_watcher := w, rs_debounce := False\<rparr>, [r], None))
        else (s, [], None)
    | RearmTick look \<Rightarrow>
        let s1 = rearmWatch s in
        if statFileID look (pw_path (rs_watcher s1)) \<noteq> pw_seen (rs_watcher s1)
        then (case reloadLocked env (rs_watcher s1) of (r, w) \<Rightarrow> (s1\<lparr>rs_watcher := w\<rparr>, [r], None))
        else (s1, [], None))"

text \<open>A run: a list of events, each with the environment it meets.\<close>

fun watcher_Run :: "(fsenv \<times> runEvent) list \<Rightarrow> runState \<Rightarrow> runState \<times> reloadResult list \<times> goerror option option" where
  "watcher_Run [] s = (s, [], None)"
| "watcher_Run ((env, ev) # evs) s =
     (case run_event env ev s of
        (s1, rs, Some ret) \<Rightarrow> (s1, rs, Some ret)
      | (s1, rs, None) \<Rightarrow>
          (case watcher_Run evs s1 of (s2, rs2, ret) \<Rightarrow> (s2, rs @ rs2, ret)))"

definition pw_Close :: "peerWatcher \<Rightarrow> goerror option \<Rightarrow> goerror option \<times> peerWatcher" where
  "pw_Close w closeErr = (if pw_closed w then (None, w) else (closeErr, w\<lparr>pw_closed := True\<rparr>))"

section \<open>Lemmas\<close>

text \<open>The consumer's table after a list of results, and the invariant of the loop.\<close>

definition apply_results :: "(string \<rightharpoonup> peerConfig) \<Rightarrow> reloadResult list \<Rightarrow> string \<rightharpoonup> peerConfig" where
  "apply_results t rs = fold (\<lambda>r t. apply_keys (rr_Diff r) t) rs t"

definition watcher_inv :: "peerWatcher \<Rightarrow> bool" where
  "watcher_inv w = (peers_wf (cfg_peers (pw_cur w))
     \<and> newPolicy (map peer_policy (cfg_peers (pw_cur w))) = Inr (cfg_policy (pw_cur w)))"

lemma load_peers_inv:
  assumes "load_peers env path = Inr cfg"
  shows "peers_wf (cfg_peers cfg)" "newPolicy (map peer_policy (cfg_peers cfg)) = Inr (cfg_policy cfg)"
  using assms LoadPeersConfig_wf unfolding load_peers_def by blast+

lemma newPeerWatcher_inv:
  assumes "newPeerWatcher env path = Inr w"
  shows "watcher_inv w"
proof -
  obtain ab cfg where "load_peers env ab = Inr cfg" "pw_cur w = cfg"
    using assms by (auto simp: newPeerWatcher_def Let_def split: sum.splits option.splits)
  then show ?thesis using load_peers_inv by (auto simp: watcher_inv_def)
qed

lemma reloadLocked_inv:
  assumes "watcher_inv w" "reloadLocked env w = (r, w')"
  shows "watcher_inv w'"
proof (cases "load_peers env (pw_path w)")
  case (Inl e)
  then show ?thesis using assms by (auto simp: reloadLocked_def Let_def watcher_inv_def)
next
  case (Inr cfg)
  then show ?thesis using assms load_peers_inv [OF Inr] by (auto simp: reloadLocked_def Let_def watcher_inv_def)
qed

lemma run_event_inv:
  assumes "watcher_inv (rs_watcher s)" "run_event env ev s = (s', rs, ret)"
  shows "watcher_inv (rs_watcher s')"
  using assms
  by (cases ev)
    (auto simp: run_event_def Let_def reload_def rearmWatch_def resetTimer_def
      dest: reloadLocked_inv split: if_splits prod.splits)

lemma watcher_Run_inv:
  "watcher_inv (rs_watcher s) \<Longrightarrow> watcher_inv (rs_watcher (fst (watcher_Run evs s)))"
proof (induction evs s rule: watcher_Run.induct)
  case (2 env ev evs s)
  obtain s1 rs ret where e: "run_event env ev s = (s1, rs, ret)" by (metis prod.collapse)
  have "watcher_inv (rs_watcher s1)" using run_event_inv [OF "2.prems" e] .
  then show ?case using "2.IH" e by (cases ret) (auto split: prod.splits)
qed simp

lemma reloadLocked_fields:
  assumes "reloadLocked env w = (r, w')"
  shows "pw_path w' = pw_path w" "pw_base w' = pw_base w" "pw_seen w' = statFileID env (pw_path w)"
  using assms by (auto simp: reloadLocked_def Let_def split: sum.splits)

lemma reloadLocked_Some_Err:
  assumes "reloadLocked env w = (r, w')"
  shows "(rr_Err r \<noteq> None \<longrightarrow> pw_cur w' = pw_cur w \<and> rr_Diff r = empty_diff)
    \<and> (rr_Err r = None \<longrightarrow> load_peers env (pw_path w) = Inr (pw_cur w')
        \<and> rr_Diff r = diffPeers (cfg_peers (pw_cur w)) (cfg_peers (pw_cur w')))
    \<and> rr_PeerCount r = length (cfg_peers (pw_cur w'))"
  using assms by (auto simp: reloadLocked_def Let_def split: sum.splits)

text \<open>Tables that hold the same peers under the same keys.\<close>

definition same_table :: "(string \<rightharpoonup> peerConfig) \<Rightarrow> (string \<rightharpoonup> peerConfig) \<Rightarrow> bool" where
  "same_table t u = (\<forall>k. same_peer (t k) (u k))"

lemma peer_equal_sym: "wf_allow (pc_Allow p) \<Longrightarrow> wf_allow (pc_Allow q) \<Longrightarrow> peer_equal p q \<Longrightarrow> peer_equal q p"
  by (auto simp: peer_equal_def wf_allow_def maps_Equal_iff)

lemma maps_Equal_trans:
  assumes "maps_Equal a b" "maps_Equal b c"
  shows "maps_Equal a c"
  using assms by (fastforce simp: maps_Equal_def list_all_iff dest: map_of_SomeD)

lemma peer_equal_trans: "peer_equal p q \<Longrightarrow> peer_equal q r \<Longrightarrow> peer_equal p r"
  by (auto simp: peer_equal_def intro: maps_Equal_trans)

lemma same_table_trans: "same_table t u \<Longrightarrow> same_table u v \<Longrightarrow> same_table t v"
proof -
  have "rel_option peer_equal x y \<Longrightarrow> rel_option peer_equal y z \<Longrightarrow> rel_option peer_equal x z" for x y z
    by (cases x; cases y; cases z) (auto intro: peer_equal_trans)
  then show "same_table t u \<Longrightarrow> same_table u v \<Longrightarrow> same_table t v"
    unfolding same_table_def same_peer_def by blast
qed

lemma apply_keys_same:
  assumes "same_table t u" "list_all peer_wf (Added d @ Changed d)"
  shows "same_table (apply_keys d t) (apply_keys d u)"
proof -
  have e: "peer_equal p p" if "p \<in> set (Added d) \<union> set (Changed d)" for p
    using that assms(2) by (auto simp: list_all_iff peer_equal_def peer_wf_def maps_Equal_refl)
  show ?thesis
    unfolding same_table_def same_peer_def apply_keys_def
  proof
    fix k
    let ?m = "map_of (map (\<lambda>p. (pc_PublicKey p, p)) (Added d @ Changed d))"
    have "rel_option peer_equal (case ?m k of None \<Rightarrow> t k | Some p \<Rightarrow> Some p)
        (case ?m k of None \<Rightarrow> u k | Some p \<Rightarrow> Some p)"
    proof (cases "?m k")
      case None
      then show ?thesis using assms(1) by (simp add: same_table_def same_peer_def del: map_append)
    next
      case (Some p)
      then have "p \<in> set (Added d) \<union> set (Changed d)" using map_of_SomeD [OF Some] by auto
      then show ?thesis using Some e by (simp del: map_append)
    qed
    then show "rel_option peer_equal
       (if k \<in> pc_PublicKey ` set (Removed d) then None else case ?m k of None \<Rightarrow> t k | Some p \<Rightarrow> Some p)
       (if k \<in> pc_PublicKey ` set (Removed d) then None else case ?m k of None \<Rightarrow> u k | Some p \<Rightarrow> Some p)"
      by (simp del: map_append)
  qed
qed

lemma diffPeers_subset:
  "set (Added (diffPeers prev next)) \<subseteq> set next" "set (Changed (diffPeers prev next)) \<subseteq> set next"
  by (auto simp: diffPeers_def)

lemma empty_diff_apply: "apply_keys empty_diff t = t"
  by (simp add: apply_keys_def empty_diff_def)

text \<open>One reload moves the consumer's table from the old list to the new one.\<close>

lemma reloadLocked_tracks:
  assumes "watcher_inv w" "reloadLocked env w = (r, w')" "same_table t (peers_by_key (cfg_peers (pw_cur w)))"
  shows "same_table (apply_keys (rr_Diff r) t) (peers_by_key (cfg_peers (pw_cur w')))"
proof (cases "rr_Err r")
  case None
  then have d: "rr_Diff r = diffPeers (cfg_peers (pw_cur w)) (cfg_peers (pw_cur w'))"
    using reloadLocked_Some_Err [OF assms(2)] by simp
  have wf: "peers_wf (cfg_peers (pw_cur w))" "peers_wf (cfg_peers (pw_cur w'))"
    using assms(1) reloadLocked_inv [OF assms(1,2)] by (simp_all add: watcher_inv_def)
  have "list_all peer_wf (Added (rr_Diff r) @ Changed (rr_Diff r))"
    using wf(2) diffPeers_subset unfolding d peers_wf_def list_all_iff by fastforce
  then have "same_table (apply_keys (rr_Diff r) t) (apply_keys (rr_Diff r) (peers_by_key (cfg_peers (pw_cur w))))"
    using assms(3) by (rule apply_keys_same [rotated])
  moreover have "same_table (apply_keys (rr_Diff r) (peers_by_key (cfg_peers (pw_cur w)))) (peers_by_key (cfg_peers (pw_cur w')))"
    using apply_keys_diffPeers [OF wf] by (simp add: d same_table_def)
  ultimately show ?thesis by (rule same_table_trans)
next
  case (Some e)
  then show ?thesis using reloadLocked_Some_Err [OF assms(2)] assms(3) by (simp add: empty_diff_apply)
qed

lemma run_event_tracks:
  assumes "watcher_inv (rs_watcher s)" "run_event env ev s = (s', rs, ret)"
    "same_table t (peers_by_key (cfg_peers (pw_cur (rs_watcher s))))"
  shows "same_table (apply_results t rs) (peers_by_key (cfg_peers (pw_cur (rs_watcher s'))))"
proof -
  consider (same) "rs = []" "pw_cur (rs_watcher s') = pw_cur (rs_watcher s)"
    | (reload) r where "rs = [r]" "reloadLocked env (rs_watcher s) = (r, rs_watcher s')"
    using assms(2)
    by (cases ev) (auto simp: run_event_def Let_def reload_def rearmWatch_def resetTimer_def
        split: if_splits prod.splits)
  then show ?thesis
  proof cases
    case same
    then show ?thesis using assms(3) by (simp add: apply_results_def)
  next
    case (reload r)
    then show ?thesis using reloadLocked_tracks [OF assms(1) reload(2) assms(3)] by (simp add: apply_results_def)
  qed
qed

lemma apply_results_append: "apply_results t (rs @ rs') = apply_results (apply_results t rs) rs'"
  by (simp add: apply_results_def)

lemma watcher_Run_tracks:
  assumes "watcher_inv (rs_watcher s)" "same_table t (peers_by_key (cfg_peers (pw_cur (rs_watcher s))))"
    "watcher_Run evs s = (s', rs, ret)"
  shows "same_table (apply_results t rs) (peers_by_key (cfg_peers (pw_cur (rs_watcher s'))))"
  using assms
proof (induction evs arbitrary: s t rs)
  case Nil
  then show ?case by (simp add: apply_results_def)
next
  case (Cons e evs)
  obtain env ev where e: "e = (env, ev)" by (cases e)
  obtain s1 rs1 ret1 where r: "run_event env ev s = (s1, rs1, ret1)" by (metis prod.collapse)
  have i: "watcher_inv (rs_watcher s1)" using run_event_inv [OF Cons.prems(1) r] .
  have t: "same_table (apply_results t rs1) (peers_by_key (cfg_peers (pw_cur (rs_watcher s1))))"
    using run_event_tracks [OF Cons.prems(1) r Cons.prems(2)] .
  show ?case
  proof (cases ret1)
    case None
    obtain s2 rs2 ret2 where "watcher_Run evs s1 = (s2, rs2, ret2)" by (metis prod.collapse)
    then show ?thesis using Cons.IH [OF i t] Cons.prems(3) None
      by (auto simp: e r apply_results_append)
  next
    case (Some x)
    then show ?thesis using Cons.prems(3) t by (simp add: e r)
  qed
qed

text \<open>
  What a run owes its consumer, without the loop: the moments at which the file is read again are an expired
  debounce timer that an event on the file's name or an error of the watch started, and a tick that
  finds a file other than the one last read; each of them is reported once, with its own difference.
\<close>

fun reloads_due :: "string \<Rightarrow> string \<Rightarrow> fileID \<Rightarrow> bool \<Rightarrow> (fsenv \<times> runEvent) list \<Rightarrow> fsenv list" where
  "reloads_due path name seen timer [] = []"
| "reloads_due path name seen timer ((env, ev) # evs) = (case ev of
      CtxDone \<Rightarrow> []
    | FsEventsClosed \<Rightarrow> []
    | FsErrorsClosed \<Rightarrow> []
    | FsEvent file _ \<Rightarrow> reloads_due path name seen (timer \<or> path_base file = name) evs
    | FsError \<Rightarrow> reloads_due path name seen True evs
    | DebounceFires \<Rightarrow>
        if timer then env # reloads_due path name (statFileID env path) False evs else reloads_due path name seen False evs
    | RearmTick look \<Rightarrow>
        if statFileID look path \<noteq> seen then env # reloads_due path name (statFileID env path) timer evs
        else reloads_due path name seen timer evs)"

fun report_each :: "string \<Rightarrow> PeersConfig \<Rightarrow> fsenv list \<Rightarrow> reloadResult list \<times> PeersConfig" where
  "report_each path cfg [] = ([], cfg)"
| "report_each path cfg (env # envs) = (case load_peers env path of
      Inl err \<Rightarrow> (case report_each path cfg envs of (rs, final) \<Rightarrow>
        (\<lparr>rr_Path = path, rr_Err = Some err, rr_PeerCount = length (cfg_peers cfg), rr_Diff = empty_diff\<rparr> # rs, final))
    | Inr next \<Rightarrow> (case report_each path next envs of (rs, final) \<Rightarrow>
        (\<lparr>rr_Path = path, rr_Err = None, rr_PeerCount = length (cfg_peers next),
           rr_Diff = diffPeers (cfg_peers cfg) (cfg_peers next)\<rparr> # rs, final)))"

definition owed :: "runState \<Rightarrow> (fsenv \<times> runEvent) list \<Rightarrow> reloadResult list \<times> PeersConfig" where
  "owed s evs = report_each (pw_path (rs_watcher s)) (pw_cur (rs_watcher s))
     (reloads_due (pw_path (rs_watcher s)) (pw_base (rs_watcher s)) (pw_seen (rs_watcher s)) (rs_debounce s) evs)"

lemma reload_reports:
  assumes "reloadLocked env w = (r, w')" "report_each (pw_path w') (pw_cur w') envs = (rs, cfg)"
  shows "report_each (pw_path w) (pw_cur w) (env # envs) = (r # rs, cfg)"
  using assms by (auto simp: reloadLocked_def Let_def split: sum.splits)

lemma reload_owed:
  assumes "reloadLocked env (rs_watcher s) = (r, rs_watcher s1)" "owed s1 evs = (rs, cfg)"
    and "reloads_due (pw_path (rs_watcher s)) (pw_base (rs_watcher s)) (pw_seen (rs_watcher s)) (rs_debounce s) (e # evs)
      = env # reloads_due (pw_path (rs_watcher s)) (pw_base (rs_watcher s)) (statFileID env (pw_path (rs_watcher s))) (rs_debounce s1) evs"
  shows "owed s (e # evs) = (r # rs, cfg)"
  using reload_reports [OF assms(1)] assms(2) unfolding owed_def assms(3) reloadLocked_fields [OF assms(1)] by simp

lemma run_event_owed:
  assumes "run_event env ev s = (s1, rs, None)" "owed s1 evs = (rs', cfg)"
  shows "owed s ((env, ev) # evs) = (rs @ rs', cfg)"
proof -
  have reload: "owed s ((env, ev) # evs) = (rs @ rs', cfg)"
    if "rs = [r]" "reloadLocked env (rs_watcher s) = (r, rs_watcher s1)"
      "ev = DebounceFires \<and> rs_debounce s \<and> \<not> rs_debounce s1
        \<or> (\<exists>look. ev = RearmTick look \<and> statFileID look (pw_path (rs_watcher s)) \<noteq> pw_seen (rs_watcher s)
            \<and> rs_debounce s1 = rs_debounce s)" for r
    using that(1,3) reload_owed [OF that(2) assms(2), of "(env, ev)"] by (auto simp del: report_each.simps)
  have other: "owed s ((env, ev) # evs) = owed s1 evs" if "rs = []"
    using assms(1) that
    by (cases ev) (auto simp: run_event_def owed_def resetTimer_def rearmWatch_def Let_def reload_def split: if_splits prod.splits)
  have "rs = [] \<or> (\<exists>r. rs = [r] \<and> reloadLocked env (rs_watcher s) = (r, rs_watcher s1)
      \<and> (ev = DebounceFires \<and> rs_debounce s \<and> \<not> rs_debounce s1
        \<or> (\<exists>look. ev = RearmTick look \<and> statFileID look (pw_path (rs_watcher s)) \<noteq> pw_seen (rs_watcher s)
            \<and> rs_debounce s1 = rs_debounce s)))"
    using assms(1) by (cases ev) (auto simp: run_event_def rearmWatch_def Let_def reload_def split: if_splits prod.splits)
  then show ?thesis using reload other assms(2) by auto
qed

lemma watcher_Run_owed: "watcher_Run evs s = (s', rs, ret) \<Longrightarrow> owed s evs = (rs, pw_cur (rs_watcher s'))"
proof (induction evs arbitrary: s rs)
  case (Cons e evs)
  obtain env ev where e: "e = (env, ev)" by (cases e)
  obtain s1 rs1 ret1 where r: "run_event env ev s = (s1, rs1, ret1)" by (metis prod.collapse)
  show ?case
  proof (cases ret1)
    case None
    obtain rs2 where "watcher_Run evs s1 = (s', rs2, ret)" "rs = rs1 @ rs2"
      using Cons.prems by (auto simp: e r None split: prod.splits)
    then show ?thesis using run_event_owed [OF r [unfolded None]] Cons.IH by (simp add: e)
  next
    case (Some x)
    then show ?thesis
      using Cons.prems r by (cases ev) (auto simp: e run_event_def owed_def Let_def split: if_splits prod.splits)
  qed
qed (simp add: owed_def)

lemma same_table_refl:
  assumes "peers_wf ps"
  shows "same_table (peers_by_key ps) (peers_by_key ps)"
  unfolding same_table_def same_peer_def
proof
  fix k
  show "rel_option peer_equal (peers_by_key ps k) (peers_by_key ps k)"
  proof (cases "peers_by_key ps k")
    case (Some p)
    then have "peer_wf p" using assms peers_by_key_Some [of ps k p] by (simp add: peers_wf_def list_all_iff)
    then show ?thesis using Some by (simp add: peer_equal_def peer_wf_def maps_Equal_refl)
  qed simp
qed

section \<open>Properties\<close>

text \<open>
  Claim C9. A reload is all or nothing and fails safe. On any error (reading, decoding, validating)
  the configuration in force stays exactly the previous one and the reported difference is empty;
  on success the new configuration is the complete loaded one and the difference is the one from
  the configuration it replaces. In both cases the invariant of the watcher is kept: the peers are
  well formed and the policy in force is the one built from them.
\<close>

theorem reload_fail_safe:
  assumes "watcher_inv w"
  shows "case reload env w of (r, w') \<Rightarrow> watcher_inv w'
    \<and> (case load_peers env (pw_path w) of
         Inl e \<Rightarrow> rr_Err r = Some e \<and> pw_cur w' = pw_cur w \<and> diff_IsEmpty (rr_Diff r)
       | Inr cfg \<Rightarrow> rr_Err r = None \<and> pw_cur w' = cfg
           \<and> rr_Diff r = diffPeers (cfg_peers (pw_cur w)) (cfg_peers cfg))
    \<and> rr_PeerCount r = length (cfg_peers (pw_cur w'))"
  using reloadLocked_inv [OF assms, of env]
  by (auto simp: reload_def reloadLocked_def Let_def empty_diff_def diff_IsEmpty_def split: sum.splits)

definition example_env :: fsenv where
  "example_env = \<lparr>fe_Abs = Inr, fe_Dir = id, fe_Stat = (\<lambda>_. Inr (1, 1)), fe_ReadFile = (\<lambda>_. Inr []),
     fe_Decode1 = (\<lambda>_. Inr \<lparr>psy_Peers = []\<rparr>), fe_Decode2 = (\<lambda>_. Inl YamlEOF),
     fe_NewWatcher = Inr (), fe_Add = (\<lambda>_. None)\<rparr>"

definition example_empty :: PeersConfig where
  "example_empty = \<lparr>cfg_peers = [], cfg_policy = \<lparr>pol_peers = Map.empty\<rparr>\<rparr>"

definition example_watcher :: peerWatcher where
  "example_watcher = \<lparr>pw_path = ''p'', pw_dir = ''p'', pw_base = ''p'', pw_cur = example_empty,
     pw_seen = \<lparr>fid_size = 0, fid_modTime = 0\<rparr>, pw_closed = False\<rparr>"

lemma example_env_load: "load_peers example_env ''p'' = Inr example_empty"
  using empty_load by (simp add: load_peers_def example_env_def example_empty_def)

lemma example_watcher_inv: "watcher_inv example_watcher"
  by (simp add: watcher_inv_def example_watcher_def example_empty_def peers_wf_nil newPolicy_def)

theorem reload_fail_safe_witness:
  "pw_cur (snd (reload (example_env\<lparr>fe_ReadFile := \<lambda>_. Inl io_EOF\<rparr>) example_watcher)) = pw_cur example_watcher"
  using reload_fail_safe [OF example_watcher_inv, of "example_env\<lparr>fe_ReadFile := \<lambda>_. Inl io_EOF\<rparr>"]
  by (auto simp: load_peers_def LoadPeersConfig_def split: prod.splits)

text \<open>
  Claim C12. No change is lost or reported twice. Over any run of the event loop, whatever the events
  and whatever the file holds at each of them, the callback is called exactly once for each moment at
  which the file was due to be read again, in order: with the error and an empty difference when it
  did not load, and otherwise with the difference between the configuration in force until then and the
  one in force from then on. Applying the reported differences in order to a table of the peers in force
  at the start gives the table of the peers in force at the end.
\<close>

theorem watcher_reports_every_change:
  assumes "newPeerWatcher env path = Inr w"
    and "watcher_Run evs \<lparr>rs_watcher = w, rs_debounce = False, rs_rearmed = 0\<rparr> = (s', rs, ret)"
  shows "same_table (apply_results (peers_by_key (cfg_peers (pw_cur w))) rs)
      (peers_by_key (cfg_peers (pw_cur (rs_watcher s'))))
    \<and> watcher_inv (rs_watcher s')
    \<and> (rs, pw_cur (rs_watcher s')) =
        report_each (pw_path w) (pw_cur w) (reloads_due (pw_path w) (pw_base w) (pw_seen w) False evs)"
proof -
  let ?s = "\<lparr>rs_watcher = w, rs_debounce = False, rs_rearmed = 0\<rparr>"
  have i: "watcher_inv (rs_watcher ?s)" using newPeerWatcher_inv [OF assms(1)] by simp
  then have "same_table (peers_by_key (cfg_peers (pw_cur w))) (peers_by_key (cfg_peers (pw_cur w)))"
    by (simp add: watcher_inv_def same_table_refl)
  then show ?thesis
    using watcher_Run_tracks [OF i _ assms(2)] watcher_Run_inv [OF i, of evs] watcher_Run_owed [OF assms(2)] assms(2) by (simp add: owed_def)
qed

theorem watcher_reports_every_change_witness:
  "\<exists>w s' rs ret. newPeerWatcher example_env ''p'' = Inr w
     \<and> watcher_Run [(example_env, FsEvent ''p'' True), (example_env, DebounceFires)]
         \<lparr>rs_watcher = w, rs_debounce = False, rs_rearmed = 0\<rparr> = (s', rs, ret)
     \<and> rs = [\<lparr>rr_Path = ''p'', rr_Err = None, rr_PeerCount = 0, rr_Diff = diffPeers [] []\<rparr>] \<and> watcher_inv (rs_watcher s')"
proof -
  obtain w where w: "newPeerWatcher example_env ''p'' = Inr w" "pw_base w = ''p''" "pw_path w = ''p''" "pw_cur w = example_empty"
    using example_env_load
    by (auto simp: newPeerWatcher_def Let_def example_env_def path_base_def)
  let ?evs = "[(example_env, FsEvent ''p'' True), (example_env, DebounceFires)]"
  let ?s = "\<lparr>rs_watcher = w, rs_debounce = False, rs_rearmed = 0\<rparr>"
  obtain s' rs ret where r: "watcher_Run ?evs ?s = (s', rs, ret)" by (metis prod.collapse)
  have "reloads_due (pw_path w) (pw_base w) (pw_seen w) False ?evs = [example_env]" by (simp add: w path_base_def)
  then have "rs = [\<lparr>rr_Path = ''p'', rr_Err = None, rr_PeerCount = 0, rr_Diff = diffPeers [] []\<rparr>]"
    using watcher_reports_every_change [OF w(1) r] by (simp add: w example_env_load) (simp add: example_empty_def)
  then show ?thesis using w r watcher_reports_every_change [OF w(1) r] by blast
qed

text \<open>
  A change of the file is not missed. An event on the file's name starts the debounce
  timer, and when the timer fires the file is reloaded; and even when no event arrives, a tick of
  the re-arm timer reloads the file whenever its size or modification time differ from those of the
  file that was last read.
\<close>

theorem watcher_change_leads_to_reload:
  "(path_base name = pw_base (rs_watcher s) \<longrightarrow>
      (case run_event env (FsEvent name replaced) s of (s1, rs, ret) \<Rightarrow>
         rs_debounce s1 \<and> ret = None \<and>
         (case run_event env' DebounceFires s1 of (s2, rs2, ret2) \<Rightarrow>
            rs2 = [fst (reload env' (rs_watcher s))] \<and> rs_watcher s2 = snd (reload env' (rs_watcher s)) \<and> ret2 = None)))
   \<and> (statFileID look (pw_path (rs_watcher s)) \<noteq> pw_seen (rs_watcher s) \<longrightarrow>
      (case run_event env (RearmTick look) s of (s1, rs, ret) \<Rightarrow>
         rs = [fst (reload env (rs_watcher s))] \<and> rs_watcher s1 = snd (reload env (rs_watcher s)) \<and> ret = None
         \<and> pw_seen (rs_watcher s1) = statFileID env (pw_path (rs_watcher s))))"
  by (auto simp: run_event_def Let_def rearmWatch_def resetTimer_def reload_def
      dest: reloadLocked_fields(3) split: prod.splits)

theorem watcher_change_leads_to_reload_witness:
  "\<exists>r. fst (snd (run_event example_env (RearmTick example_env) \<lparr>rs_watcher = example_watcher, rs_debounce = False, rs_rearmed = 0\<rparr>)) = [r]"
proof -
  let ?s = "\<lparr>rs_watcher = example_watcher, rs_debounce = False, rs_rearmed = 0\<rparr>"
  have "statFileID example_env (pw_path (rs_watcher ?s)) \<noteq> pw_seen (rs_watcher ?s)"
    by (simp add: statFileID_def example_env_def example_watcher_def)
  then show ?thesis
    using watcher_change_leads_to_reload [where env = example_env and look = example_env and env' = example_env and s = ?s
        and name = "''q''" and replaced = False, THEN conjunct2]
    by (auto split: prod.splits)
qed

end
