(* ===== verification/Device.thy ===== *)
theory Device
  imports Config
begin

text \<open>
  \<^verbatim>\<open>src/device.go\<close>: the userspace WireGuard device both sides build on. The packages
  \<^verbatim>\<open>wireguard/device\<close> and \<^verbatim>\<open>wireguard/tun/netstack\<close> are a parameter: a record of the
  calls the file makes, acting on a state of their own. What the file relies on is the documented
  configuration protocol of WireGuard (a text of \<^verbatim>\<open>key=value\<close> lines); it is written out in the
  last section as a function on a table of peers and routes, and \<open>follows_uapi\<close> is the hypothesis
  that the parameter behaves like it.
\<close>

section \<open>Definitions\<close>

definition keepaliveInterval :: nat where "keepaliveInterval = 25"

text \<open>The calls on the WireGuard and netstack packages. Handles are numbers.\<close>

record 'w wglib =
  CreateNetTUN :: "addr list \<Rightarrow> int \<Rightarrow> 'w \<Rightarrow> nat result \<times> 'w"
  NewDevice :: "nat \<Rightarrow> int \<Rightarrow> 'w \<Rightarrow> nat \<times> 'w"
  IpcSet :: "nat \<Rightarrow> string \<Rightarrow> 'w \<Rightarrow> goerror option \<times> 'w"
  DevUp :: "nat \<Rightarrow> 'w \<Rightarrow> goerror option \<times> 'w"
  DevClose :: "nat \<Rightarrow> 'w \<Rightarrow> 'w"
  TunClose :: "nat \<Rightarrow> 'w \<Rightarrow> goerror option \<times> 'w"

record deviceOptions =
  do_TunnelIP :: addr
  do_MTU :: int
  do_PrivateKey :: secret
  do_ListenPort :: int
  do_LogLevel :: int

record devicePeer =
  dp_PublicKey :: string
  dp_PresharedKey :: secret
  dp_AllowedIP :: addr
  dp_Endpoint :: addrport

record tunnelDevice =
  td_tun :: "nat option"
  td_dev :: "nat option"
  td_closed :: bool
  td_closeErr :: "goerror option"

definition keyToHex :: "string \<Rightarrow> string result" where
  "keyToHex b64 =
     (let b64' = trim_space b64 in
      if b64' = [] then Inl (errors_New ''is required'')
      else case DecodeString b64' of
        None \<Rightarrow> Inl (errors_New ''is not valid base64'')
      | Some raw \<Rightarrow>
          if length raw \<noteq> wgKeyLen
          then Inl (errors_New (''decodes to '' @ show_nat (length raw) @ '' bytes, want '' @ show_nat wgKeyLen))
          else Inr (hex_EncodeToString raw))"

text \<open>One \<^verbatim>\<open>key=value\<close> line.\<close>

definition uline :: "string \<Rightarrow> string \<Rightarrow> string" where
  "uline k v = k @ ''='' @ v @ [CHR 0x0A]"

definition ipcConfig :: "devicePeer \<Rightarrow> bool \<Rightarrow> string result" where
  "ipcConfig p updateOnly =
     andThen (mapErr (\<lambda>e. errorf_w ''gocloak: device: peer: public key: '' e '''') (keyToHex (dp_PublicKey p))) (\<lambda>pub.
     andThen (mapErr (\<lambda>e. errorf_w ''gocloak: device: peer: preshared key: '' e '''')
       (keyToHex (secret_bytes (dp_PresharedKey p)))) (\<lambda>psk.
     if \<not> IsValid (dp_AllowedIP p) then Inl (errors_New ''gocloak: device: peer: allowed IP is required'')
     else if \<not> Contains tunnelSubnet (dp_AllowedIP p)
     then Inl (errors_New (''gocloak: device: peer: allowed IP '' @ Addr_String (dp_AllowedIP p)
            @ '' is outside '' @ Prefix_String tunnelSubnet))
     else let hasEndpoint = (dp_Endpoint p \<noteq> addrport_zero) in
     if hasEndpoint \<and> (\<not> ap_IsValid (dp_Endpoint p) \<or> ap_port (dp_Endpoint p) = 0)
     then Inl (errors_New (''gocloak: device: peer: endpoint '' @ AddrPort_String (dp_Endpoint p)
            @ '' is not a usable address and port''))
     else Inr (uline ''public_key'' pub
       @ (if updateOnly then uline ''update_only'' ''true'' else [])
       @ uline ''preshared_key'' psk
       @ (if hasEndpoint then uline ''endpoint'' (AddrPort_String (dp_Endpoint p)) else [])
       @ uline ''replace_allowed_ips'' ''true''
       @ uline ''allowed_ip'' (Addr_String (dp_AllowedIP p) @ ''/32'')
       @ (if hasEndpoint then uline ''persistent_keepalive_interval'' (show_nat keepaliveInterval) else []))))"

text \<open>A method call on the device handle, with its error wrapped.\<close>

definition dev_ipc :: "'w wglib \<Rightarrow> tunnelDevice \<Rightarrow> string \<Rightarrow> string \<Rightarrow> 'w \<Rightarrow> goerror option \<times> 'w" where
  "dev_ipc lib d what cfg w =
     (case IpcSet lib (the (td_dev d)) cfg w of
        (None, w') \<Rightarrow> (None, w')
      | (Some err, w') \<Rightarrow> (Some (errorf_w what err ''''), w'))"

definition applyPeer :: "'w wglib \<Rightarrow> tunnelDevice \<Rightarrow> devicePeer \<Rightarrow> bool \<Rightarrow> 'w \<Rightarrow> goerror option \<times> 'w" where
  "applyPeer lib d p updateOnly w =
     (case ipcConfig p updateOnly of
        Inl err \<Rightarrow> (Some err, w)
      | Inr cfg \<Rightarrow> dev_ipc lib d ''gocloak: device: apply peer: '' cfg w)"

definition AddPeer :: "'w wglib \<Rightarrow> tunnelDevice \<Rightarrow> devicePeer \<Rightarrow> 'w \<Rightarrow> goerror option \<times> 'w" where
  "AddPeer lib d p w = applyPeer lib d p False w"

definition UpdatePeer :: "'w wglib \<Rightarrow> tunnelDevice \<Rightarrow> devicePeer \<Rightarrow> 'w \<Rightarrow> goerror option \<times> 'w" where
  "UpdatePeer lib d p w = applyPeer lib d p True w"

definition RemovePeer :: "'w wglib \<Rightarrow> tunnelDevice \<Rightarrow> string \<Rightarrow> 'w \<Rightarrow> goerror option \<times> 'w" where
  "RemovePeer lib d publicKey w =
     (case keyToHex publicKey of
        Inl err \<Rightarrow> (Some (errorf_w ''gocloak: device: remove peer: public key: '' err ''''), w)
      | Inr pub \<Rightarrow> dev_ipc lib d ''gocloak: device: remove peer: ''
           (uline ''public_key'' pub @ uline ''remove'' ''true'') w)"

definition SetPeerEndpoint :: "'w wglib \<Rightarrow> tunnelDevice \<Rightarrow> string \<Rightarrow> addrport \<Rightarrow> 'w \<Rightarrow> goerror option \<times> 'w" where
  "SetPeerEndpoint lib d publicKey endpoint w =
     (case keyToHex publicKey of
        Inl err \<Rightarrow> (Some (errorf_w ''gocloak: device: set peer endpoint: public key: '' err ''''), w)
      | Inr pub \<Rightarrow>
          if \<not> ap_IsValid endpoint \<or> ap_port endpoint = 0
          then (Some (errors_New (''gocloak: device: set peer endpoint: '' @ AddrPort_String endpoint
                  @ '' is not a usable address and port'')), w)
          else dev_ipc lib d ''gocloak: device: set peer endpoint: ''
            (uline ''public_key'' pub @ uline ''update_only'' ''true''
              @ uline ''endpoint'' (AddrPort_String endpoint)) w)"

definition dev_Close :: "'w wglib \<Rightarrow> tunnelDevice \<Rightarrow> 'w \<Rightarrow> goerror option \<times> tunnelDevice \<times> 'w" where
  "dev_Close lib d w =
     (if td_closed d then (td_closeErr d, d, w)
      else let d' = d\<lparr>td_closed := True\<rparr> in
        (case td_dev d of
           Some h \<Rightarrow> (td_closeErr d', d', DevClose lib h w)
         | None \<Rightarrow>
             (case td_tun d of
                Some t \<Rightarrow> (case TunClose lib t w of
                    (err, w') \<Rightarrow> (err, d'\<lparr>td_closeErr := err\<rparr>, w'))
              | None \<Rightarrow> (td_closeErr d', d', w))))"

text \<open>The checks at the start of \<^verbatim>\<open>newTunnelDevice\<close>: the effective MTU and the key in hex.\<close>

definition device_checks :: "deviceOptions \<Rightarrow> (int \<times> string) result" where
  "device_checks opts =
     (if \<not> IsValid (do_TunnelIP opts) then Inl (errors_New ''gocloak: device: tunnel IP is required'')
      else if \<not> Contains tunnelSubnet (do_TunnelIP opts)
      then Inl (errors_New (''gocloak: device: tunnel IP '' @ Addr_String (do_TunnelIP opts)
             @ '' is outside '' @ Prefix_String tunnelSubnet))
      else if do_ListenPort opts < 0 \<or> do_ListenPort opts > 65535
      then Inl (errors_New (''gocloak: device: listen port '' @ show_int (do_ListenPort opts)
             @ '' is not in 0-65535''))
      else let mtu = (if do_MTU opts = 0 then DefaultMTU else do_MTU opts) in
      if mtu < minMTU \<or> mtu > maxMTU
      then Inl (errors_New (''gocloak: device: mtu '' @ show_int mtu @ '' is not in ''
             @ show_int minMTU @ ''-'' @ show_int maxMTU))
      else case keyToHex (secret_bytes (do_PrivateKey opts)) of
        Inl err \<Rightarrow> Inl (errorf_w ''gocloak: device: private key: '' err '''')
      | Inr privateKey \<Rightarrow> Inr (mtu, privateKey))"

definition newTunnelDevice :: "'w wglib \<Rightarrow> deviceOptions \<Rightarrow> 'w \<Rightarrow> tunnelDevice result \<times> 'w" where
  "newTunnelDevice lib opts w =
     (case device_checks opts of
        Inl err \<Rightarrow> (Inl err, w)
      | Inr (mtu, privateKey) \<Rightarrow>
      (case CreateNetTUN lib [do_TunnelIP opts] mtu w of
        (Inl err, w1) \<Rightarrow> (Inl (errorf_w ''gocloak: device: create netstack tun: '' err ''''), w1)
      | (Inr tun, w1) \<Rightarrow>
      (case NewDevice lib tun (do_LogLevel opts) w1 of (h, w2) \<Rightarrow>
        let d = \<lparr>td_tun = Some tun, td_dev = Some h, td_closed = False, td_closeErr = None\<rparr>;
            cfg = uline ''private_key'' privateKey
              @ (if do_ListenPort opts \<noteq> 0 then uline ''listen_port'' (show_int (do_ListenPort opts)) else [])
        in (case IpcSet lib h cfg w2 of
              (Some err, w3) \<Rightarrow> (Inl (errorf_w ''gocloak: device: configure: '' err ''''),
                 snd (snd (dev_Close lib d w3)))
            | (None, w3) \<Rightarrow>
                (case DevUp lib h w3 of
                   (Some err, w4) \<Rightarrow> (Inl (errorf_w ''gocloak: device: bring up: '' err ''''),
                      snd (snd (dev_Close lib d w4)))
                 | (None, w4) \<Rightarrow> (Inr d, w4))))))"

text \<open>Which of the two wireguard-go log functions are live: \<open>None\<close> is the discarding one.\<close>

record 'l devLogger =
  dl_Verbosef :: "'l option"
  dl_Errorf :: "'l option"

definition newDeviceLogger :: "'l \<Rightarrow> int \<Rightarrow> 'l option \<Rightarrow> 'l devLogger" where
  "newDeviceLogger logPrintf level logf =
     (let f = (case logf of None \<Rightarrow> logPrintf | Some f \<Rightarrow> f);
          lg = \<lparr>dl_Verbosef = None, dl_Errorf = None\<rparr>;
          lg1 = (if level \<ge> 2 then lg\<lparr>dl_Verbosef := Some f\<rparr> else lg)
      in if level \<ge> 1 then lg1\<lparr>dl_Errorf := Some f\<rparr> else lg1)"

section \<open>The configuration protocol\<close>

text \<open>
  A peer of the device's table, and the table: peers by the hexadecimal key, and the cryptokey
  routes, which give each allowed address to one peer. A \<^verbatim>\<open>public_key\<close> line selects a peer and
  creates it when it is missing; \<^verbatim>\<open>update_only\<close> undoes the creation and makes the rest of the
  block void; \<^verbatim>\<open>remove\<close> deletes the peer with its routes; \<^verbatim>\<open>replace_allowed_ips\<close> drops the
  peer's routes; \<^verbatim>\<open>allowed_ip\<close> routes an address to the peer, taking it from whichever peer had
  it.
\<close>

record wg_peer =
  wp_psk :: string
  wp_endpoint :: string
  wp_keepalive :: string

record wg_table =
  wt_peers :: "string \<rightharpoonup> wg_peer"
  wt_routes :: "string \<rightharpoonup> string"

record uapi_state =
  us_table :: wg_table
  us_cur :: string
  us_created :: bool
  us_void :: bool

definition blank_peer :: wg_peer where
  "blank_peer = \<lparr>wp_psk = [], wp_endpoint = [], wp_keepalive = ''0''\<rparr>"

definition drop_routes :: "string \<Rightarrow> wg_table \<Rightarrow> wg_table" where
  "drop_routes k t = t\<lparr>wt_routes := (\<lambda>ip. if wt_routes t ip = Some k then None else wt_routes t ip)\<rparr>"

definition delete_peer :: "string \<Rightarrow> wg_table \<Rightarrow> wg_table" where
  "delete_peer k t = drop_routes k (t\<lparr>wt_peers := (wt_peers t)(k := None)\<rparr>)"

definition edit_peer :: "(wg_peer \<Rightarrow> wg_peer) \<Rightarrow> uapi_state \<Rightarrow> uapi_state" where
  "edit_peer f s = (if us_void s then s
     else s\<lparr>us_table := (us_table s)\<lparr>wt_peers :=
       (wt_peers (us_table s))(us_cur s := map_option f (wt_peers (us_table s) (us_cur s)))\<rparr>\<rparr>)"

definition uapi_line :: "string \<times> string \<Rightarrow> uapi_state \<Rightarrow> uapi_state" where
  "uapi_line kv s = (case kv of (k, v) \<Rightarrow>
     if k = ''public_key'' then
       (if wt_peers (us_table s) v = None
        then s\<lparr>us_cur := v, us_created := True, us_void := False,
               us_table := (us_table s)\<lparr>wt_peers := (wt_peers (us_table s))(v \<mapsto> blank_peer)\<rparr>\<rparr>
        else s\<lparr>us_cur := v, us_created := False, us_void := False\<rparr>)
     else if k = ''update_only'' then
       (if us_created s \<and> \<not> us_void s
        then s\<lparr>us_table := delete_peer (us_cur s) (us_table s), us_void := True\<rparr> else s)
     else if k = ''remove'' then
       (if us_void s then s else s\<lparr>us_table := delete_peer (us_cur s) (us_table s), us_void := True\<rparr>)
     else if k = ''preshared_key'' then edit_peer (\<lambda>p. p\<lparr>wp_psk := v\<rparr>) s
     else if k = ''endpoint'' then edit_peer (\<lambda>p. p\<lparr>wp_endpoint := v\<rparr>) s
     else if k = ''persistent_keepalive_interval'' then edit_peer (\<lambda>p. p\<lparr>wp_keepalive := v\<rparr>) s
     else if k = ''replace_allowed_ips'' then
       (if us_void s then s else s\<lparr>us_table := drop_routes (us_cur s) (us_table s)\<rparr>)
     else if k = ''allowed_ip'' then
       (if us_void s then s else s\<lparr>us_table := (us_table s)\<lparr>wt_routes := (wt_routes (us_table s))(v \<mapsto> us_cur s)\<rparr>\<rparr>)
     else s)"

text \<open>Splitting the text: at each newline, then at the first equals sign.\<close>

fun split_lines :: "string \<Rightarrow> string \<Rightarrow> string list" where
  "split_lines acc [] = (if acc = [] then [] else [acc])"
| "split_lines acc (c # cs) = (if c = CHR 0x0A then acc # split_lines [] cs else split_lines (acc @ [c]) cs)"

definition parse_line :: "string \<Rightarrow> string \<times> string" where
  "parse_line l = (case str_cut l (CHR ''='') of (k, v, _) \<Rightarrow> (k, v))"

definition uapi_lines :: "string \<Rightarrow> (string \<times> string) list" where
  "uapi_lines cfg = map parse_line (split_lines [] cfg)"

definition uapi_set :: "string \<Rightarrow> wg_table \<Rightarrow> wg_table" where
  "uapi_set cfg t = us_table (fold uapi_line (uapi_lines cfg)
     \<lparr>us_table = t, us_cur = [], us_created = False, us_void = True\<rparr>)"

text \<open>The hypothesis on the library: a configuration call that succeeds has the documented effect.\<close>

definition follows_uapi :: "'w wglib \<Rightarrow> (nat \<Rightarrow> 'w \<Rightarrow> wg_table) \<Rightarrow> bool" where
  "follows_uapi lib tbl = (\<forall>h cfg w w'. IpcSet lib h cfg w = (None, w') \<longrightarrow> tbl h w' = uapi_set cfg (tbl h w))"

section \<open>Lemmas\<close>

subsection \<open>Keys\<close>

lemma keyToHex_Inr:
  "keyToHex s = Inr h \<longleftrightarrow> (\<exists>raw. DecodeString (trim_space s) = Some raw \<and> length raw = 32 \<and> h = hex_EncodeToString raw)"
proof -
  have "DecodeString [] = Some []" by (simp add: DecodeString_def)
  then show ?thesis
    by (auto simp: keyToHex_def Let_def wgKeyLen_def split: option.splits if_splits)
qed

definition hex_digits :: "char set" where
  "hex_digits = set ''0123456789abcdef''"

definition hex_key :: "string \<Rightarrow> bool" where
  "hex_key h = (length h = 64 \<and> set h \<subseteq> hex_digits)"

lemma hex_char_digit: "d < 16 \<Longrightarrow> hex_char d \<in> hex_digits"
proof -
  have "\<forall>d \<in> set [0..<16]. hex_char d \<in> hex_digits" by code_simp
  then show "d < 16 \<Longrightarrow> ?thesis" by simp
qed

lemma hex_EncodeToString_digits: "set (hex_EncodeToString bs) \<subseteq> hex_digits"
  by (induction bs) (simp_all add: hex_EncodeToString_def show_hex_byte_def hex_char_digit)

lemma keyToHex_hex_key: "keyToHex s = Inr h \<Longrightarrow> hex_key h"
  using hex_EncodeToString_digits by (auto simp: keyToHex_Inr hex_key_def)

lemma hex_key_no_newline: "hex_key h \<Longrightarrow> CHR 0x0A \<notin> set h"
  by (auto simp: hex_key_def hex_digits_def)

lemma show_nat_digit_chars: "c \<in> set (show_nat n) \<Longrightarrow> \<exists>d < 10. c = digit_char d"
proof (induction n rule: show_nat.induct)
  case (1 n)
  then show ?case
    by (cases "n < 10") (auto simp: show_nat.simps [of n] intro: exI [of _ "n mod 10"])
qed

lemma digit_char_not_newline: "d < 10 \<Longrightarrow> digit_char d \<noteq> CHR 0x0A"
proof -
  have "\<forall>d \<in> set [0..<10]. digit_char d \<noteq> CHR 0x0A" by code_simp
  then show "d < 10 \<Longrightarrow> ?thesis" by simp
qed

lemma show_nat_no_newline: "CHR 0x0A \<notin> set (show_nat n)"
  using show_nat_digit_chars digit_char_not_newline by metis

lemma string4_no_newline: "CHR 0x0A \<notin> set (string4 w)"
  by (simp add: string4_def As4_def show_nat_no_newline)

subsection \<open>The text of a block\<close>

lemma split_lines_append:
  "CHR 0x0A \<notin> set l \<Longrightarrow> split_lines acc (l @ CHR 0x0A # r) = (acc @ l) # split_lines [] r"
  by (induction l arbitrary: acc) auto

lemma uapi_lines_Nil [simp]: "uapi_lines [] = []"
  by (simp add: uapi_lines_def)

lemma uapi_lines_uline:
  assumes "CHR 0x0A \<notin> set k" "CHR ''='' \<notin> set k" "CHR 0x0A \<notin> set v"
  shows "uapi_lines (uline k v @ r) = (k, v) # uapi_lines r"
proof -
  have "split_lines [] (uline k v @ r) = (k @ ''='' @ v) # split_lines [] r"
    using split_lines_append [of "k @ ''='' @ v" "[]" r] assms by (simp add: uline_def)
  then show ?thesis using assms by (simp add: uapi_lines_def parse_line_def str_cut_def)
qed

lemmas uapi_lines_last = uapi_lines_uline [where r = "[]", simplified]

text \<open>A value may also hold newlines: the text is then read line by line.\<close>

lemma split_lines_line: "split_lines acc (xs @ CHR 0x0A # r) = split_lines acc (xs @ [CHR 0x0A]) @ split_lines [] r"
  by (induction xs arbitrary: acc) auto

lemma uapi_lines_any: "uapi_lines (uline k v @ r) = uapi_lines (uline k v) @ uapi_lines r"
  using split_lines_line [of "[]" "k @ ''='' @ v" r] by (simp add: uapi_lines_def uline_def)


lemma Contains_tunnel_v4: "Contains tunnelSubnet a \<Longrightarrow> \<exists>w. a = Addr4 w"
  by (auto simp: tunnelSubnet_def Contains_24)

text \<open>The lines of a peer block.\<close>

definition peer_lines :: "string \<Rightarrow> bool \<Rightarrow> string \<Rightarrow> string option \<Rightarrow> string \<Rightarrow> (string \<times> string) list" where
  "peer_lines pub u psk ep ip =
     (''public_key'', pub) # (if u then [(''update_only'', ''true'')] else [])
     @ [(''preshared_key'', psk)] @ (case ep of None \<Rightarrow> [] | Some e \<Rightarrow> [(''endpoint'', e)])
     @ [(''replace_allowed_ips'', ''true''), (''allowed_ip'', ip)]
     @ (case ep of None \<Rightarrow> [] | Some e \<Rightarrow> [(''persistent_keepalive_interval'', ''25'')])"

definition peer_endpoint :: "devicePeer \<Rightarrow> string option" where
  "peer_endpoint p = (if dp_Endpoint p = addrport_zero then None else Some (AddrPort_String (dp_Endpoint p)))"

definition allowed_text :: "addr \<Rightarrow> string" where
  "allowed_text a = Addr_String a @ ''/32''"

text \<open>
  Everything \<^verbatim>\<open>ipcConfig\<close> accepts: well-formed keys and an address of the subnet. The text it
  gives then reads back as exactly the intended lines, provided the endpoint's text is one line.
\<close>

definition one_line :: "string option \<Rightarrow> bool" where
  "one_line ep = (case ep of None \<Rightarrow> True | Some e \<Rightarrow> CHR 0x0A \<notin> set e)"

lemma ipcConfig_Inr:
  assumes "ipcConfig p u = Inr cfg"
  obtains pub psk where "keyToHex (dp_PublicKey p) = Inr pub"
    "keyToHex (secret_bytes (dp_PresharedKey p)) = Inr psk" "Contains tunnelSubnet (dp_AllowedIP p)"
    "cfg = uline ''public_key'' pub @ (if u then uline ''update_only'' ''true'' else [])
       @ uline ''preshared_key'' psk
       @ (case peer_endpoint p of None \<Rightarrow> [] | Some e \<Rightarrow> uline ''endpoint'' e)
       @ uline ''replace_allowed_ips'' ''true'' @ uline ''allowed_ip'' (allowed_text (dp_AllowedIP p))
       @ (case peer_endpoint p of None \<Rightarrow> [] | Some e \<Rightarrow> uline ''persistent_keepalive_interval'' (show_nat keepaliveInterval))"
  using assms
  by (auto simp: ipcConfig_def andThen_eq_Inr Let_def peer_endpoint_def allowed_text_def split: if_splits)

lemma show_keepalive: "show_nat keepaliveInterval = ''25''"
  by code_simp

definition block_lines :: "string \<Rightarrow> bool \<Rightarrow> string \<Rightarrow> (string \<times> string) list option \<Rightarrow> string \<Rightarrow> (string \<times> string) list" where
  "block_lines pub u psk endpoint ip =
     (''public_key'', pub) # (if u then [(''update_only'', ''true'')] else [])
     @ [(''preshared_key'', psk)] @ (case endpoint of None \<Rightarrow> [] | Some ls \<Rightarrow> ls)
     @ [(''replace_allowed_ips'', ''true''), (''allowed_ip'', ip)]
     @ (case endpoint of None \<Rightarrow> [] | Some _ \<Rightarrow> [(''persistent_keepalive_interval'', ''25'')])"

lemma ipcConfig_any_lines:
  assumes "ipcConfig p u = Inr cfg"
  obtains pub psk where "keyToHex (dp_PublicKey p) = Inr pub" "keyToHex (secret_bytes (dp_PresharedKey p)) = Inr psk"
    "uapi_lines cfg = block_lines pub u psk (map_option (\<lambda>e. uapi_lines (uline ''endpoint'' e)) (peer_endpoint p)) (allowed_text (dp_AllowedIP p))"
proof -
  from assms obtain pub psk where k: "keyToHex (dp_PublicKey p) = Inr pub"
    "keyToHex (secret_bytes (dp_PresharedKey p)) = Inr psk"
    and c: "Contains tunnelSubnet (dp_AllowedIP p)"
    and cfg: "cfg = uline ''public_key'' pub @ (if u then uline ''update_only'' ''true'' else [])
       @ uline ''preshared_key'' psk
       @ (case peer_endpoint p of None \<Rightarrow> [] | Some e \<Rightarrow> uline ''endpoint'' e)
       @ uline ''replace_allowed_ips'' ''true'' @ uline ''allowed_ip'' (allowed_text (dp_AllowedIP p))
       @ (case peer_endpoint p of None \<Rightarrow> [] | Some e \<Rightarrow> uline ''persistent_keepalive_interval'' (show_nat keepaliveInterval))"
    by (rule ipcConfig_Inr)
  have nl: "CHR 0x0A \<notin> set pub" "CHR 0x0A \<notin> set psk"
    using k keyToHex_hex_key hex_key_no_newline by blast+
  have ip: "CHR 0x0A \<notin> set (allowed_text (dp_AllowedIP p))"
    using Contains_tunnel_v4 [OF c] by (auto simp: allowed_text_def Addr_String_def string4_no_newline)
  have "uapi_lines cfg = block_lines pub u psk (map_option (\<lambda>e. uapi_lines (uline ''endpoint'' e)) (peer_endpoint p)) (allowed_text (dp_AllowedIP p))"
    using nl ip by (cases u; cases "peer_endpoint p")
      (simp_all add: cfg block_lines_def uapi_lines_uline uapi_lines_any [of "''endpoint''"] uapi_lines_last show_keepalive)
  with k show thesis by (rule that)
qed

lemma ipcConfig_lines:
  assumes "ipcConfig p u = Inr cfg" "one_line (peer_endpoint p)"
  obtains pub psk where "keyToHex (dp_PublicKey p) = Inr pub"
    "keyToHex (secret_bytes (dp_PresharedKey p)) = Inr psk" "Contains tunnelSubnet (dp_AllowedIP p)"
    "uapi_lines cfg = peer_lines pub u psk (peer_endpoint p) (allowed_text (dp_AllowedIP p))"
proof -
  from ipcConfig_any_lines [OF assms(1)] obtain pub psk where k: "keyToHex (dp_PublicKey p) = Inr pub"
      "keyToHex (secret_bytes (dp_PresharedKey p)) = Inr psk"
      "uapi_lines cfg = block_lines pub u psk (map_option (\<lambda>e. uapi_lines (uline ''endpoint'' e)) (peer_endpoint p)) (allowed_text (dp_AllowedIP p))" .
  have "Contains tunnelSubnet (dp_AllowedIP p)" using assms(1) by (rule ipcConfig_Inr)
  with k assms(2) show thesis
    by (intro that) (auto simp: block_lines_def peer_lines_def uapi_lines_last one_line_def split: option.splits)
qed

subsection \<open>Texts identify what they stand for\<close>

lemma decimal_value_snoc: "decimal_value (xs @ [c]) = 10 * decimal_value xs + (of_char c - 48)"
  by (simp add: decimal_value_def)

lemma of_char_digit: "d < 10 \<Longrightarrow> (of_char (digit_char d) :: nat) = 48 + d"
  by (simp add: digit_char_def)

lemma decimal_value_show_nat: "decimal_value (show_nat n) = n"
proof (induction n rule: show_nat.induct)
  case (1 n)
  show ?case
  proof (cases "n < 10")
    case True
    then show ?thesis by (simp add: show_nat.simps [of n] decimal_value_def of_char_digit)
  next
    case False
    then show ?thesis using 1 by (simp add: show_nat.simps [of n] decimal_value_snoc of_char_digit)
  qed
qed

lemma show_nat_inj: "show_nat m = show_nat n \<longleftrightarrow> m = n"
  by (metis decimal_value_show_nat)

lemma append_sep_inj:
  fixes c :: char
  assumes "c \<notin> set a" "c \<notin> set b"
  shows "a @ c # x = b @ c # y \<longleftrightarrow> a = b \<and> x = y"
proof
  assume eq: "a @ c # x = b @ c # y"
  have "Some (length a) = Some (length b)" using eq index_byte_append [OF assms(1), of x] index_byte_append [OF assms(2), of y] by metis
  then show "a = b \<and> x = y" using eq by simp
qed simp

lemma digit_char_not_dot: "d < 10 \<Longrightarrow> digit_char d \<noteq> CHR ''.''"
proof -
  have "\<forall>d \<in> set [0..<10]. digit_char d \<noteq> CHR ''.''" by code_simp
  then show "d < 10 \<Longrightarrow> ?thesis" by simp
qed

lemma show_nat_no_dot: "CHR ''.'' \<notin> set (show_nat n)"
  using show_nat_digit_chars digit_char_not_dot by metis

lemma string4_inj: "string4 w = string4 v \<longleftrightarrow> w = v"
proof
  assume "string4 w = string4 v"
  then have "map unat (As4 w) = map unat (As4 v)"
    by (simp add: string4_def As4_def append_sep_inj show_nat_no_dot show_nat_inj)
  moreover have "inj (unat :: byte \<Rightarrow> nat)" by (rule injI) (rule word_unat_eq_iff [THEN iffD2])
  ultimately have "As4 w = As4 v" by (rule map_injective)
  then show "w = v" by (metis be_word32_As4)
qed simp

lemma allowed_text_inj: "allowed_text (Addr4 w) = allowed_text (Addr4 v) \<longleftrightarrow> w = v"
  by (simp add: allowed_text_def Addr_String_def string4_inj)

subsection \<open>The effect of a block\<close>

text \<open>Routes lead to peers that exist.\<close>

definition wt_wf :: "wg_table \<Rightarrow> bool" where
  "wt_wf t = (\<forall>ip k. wt_routes t ip = Some k \<longrightarrow> wt_peers t k \<noteq> None)"

definition put_peer :: "string \<Rightarrow> string \<Rightarrow> string option \<Rightarrow> string \<Rightarrow> wg_table \<Rightarrow> wg_table" where
  "put_peer pub psk ep ip t =
     (let old = (case wt_peers t pub of None \<Rightarrow> blank_peer | Some p \<Rightarrow> p);
          p = (case ep of None \<Rightarrow> old\<lparr>wp_psk := psk\<rparr>
               | Some e \<Rightarrow> \<lparr>wp_psk = psk, wp_endpoint = e, wp_keepalive = ''25''\<rparr>)
      in \<lparr>wt_peers = (wt_peers t)(pub \<mapsto> p),
          wt_routes = (wt_routes (drop_routes pub t))(ip \<mapsto> pub)\<rparr>)"

lemma uapi_set_peer:
  assumes "uapi_lines cfg = peer_lines pub u psk ep ip" "wt_wf t"
  shows "uapi_set cfg t = (if u \<and> wt_peers t pub = None then t else put_peer pub psk ep ip t)"
proof -
  have fresh: "drop_routes pub t = t" if "wt_peers t pub = None"
    using that assms(2) by (cases t) (fastforce simp: wt_wf_def drop_routes_def fun_eq_iff)
  show ?thesis
  proof (cases "wt_peers t pub")
    case None
    then show ?thesis
      using fresh [OF None]
      by (cases t; cases u; cases ep)
        (simp_all add: uapi_set_def assms(1) peer_lines_def uapi_line_def edit_peer_def put_peer_def
          delete_peer_def drop_routes_def fun_upd_idem fun_upd_twist Let_def blank_peer_def cong: if_cong)
  next
    case (Some q)
    then show ?thesis
      by (cases t; cases u; cases ep; cases q)
        (simp_all add: uapi_set_def assms(1) peer_lines_def uapi_line_def edit_peer_def put_peer_def
          drop_routes_def Let_def cong: if_cong)
  qed
qed

lemma put_peer_wf: "wt_wf t \<Longrightarrow> wt_wf (put_peer pub psk ep ip t)"
  by (auto simp: wt_wf_def put_peer_def drop_routes_def Let_def)

lemma delete_peer_wf: "wt_wf t \<Longrightarrow> wt_wf (delete_peer k t)"
  by (auto simp: wt_wf_def delete_peer_def drop_routes_def)


lemma uapi_set_remove:
  assumes "hex_key pub" "wt_wf t"
  shows "uapi_set (uline ''public_key'' pub @ uline ''remove'' ''true'') t = delete_peer pub t"
proof -
  have "uapi_lines (uline ''public_key'' pub @ uline ''remove'' ''true'') = [(''public_key'', pub), (''remove'', ''true'')]"
    using hex_key_no_newline [OF assms(1)] by (simp add: uapi_lines_uline uapi_lines_last)
  then show ?thesis
    by (cases t; cases "wt_peers t pub")
      (simp_all add: uapi_set_def uapi_line_def delete_peer_def drop_routes_def cong: if_cong)
qed

lemma uapi_set_endpoint:
  assumes "hex_key pub" "wt_wf t" "CHR 0x0A \<notin> set ep"
  shows "uapi_set (uline ''public_key'' pub @ uline ''update_only'' ''true'' @ uline ''endpoint'' ep) t =
    t\<lparr>wt_peers := (wt_peers t)(pub := map_option (\<lambda>p. p\<lparr>wp_endpoint := ep\<rparr>) (wt_peers t pub))\<rparr>"
proof -
  have l: "uapi_lines (uline ''public_key'' pub @ uline ''update_only'' ''true'' @ uline ''endpoint'' ep) =
      [(''public_key'', pub), (''update_only'', ''true''), (''endpoint'', ep)]"
    using hex_key_no_newline [OF assms(1)] assms(3) by (simp add: uapi_lines_uline uapi_lines_last)
  have fresh: "drop_routes pub t = t" if "wt_peers t pub = None"
    using that assms(2) by (cases t) (fastforce simp: wt_wf_def drop_routes_def fun_eq_iff)
  show ?thesis
    using fresh
    by (cases t; cases "wt_peers t pub")
      (simp_all add: uapi_set_def l uapi_line_def edit_peer_def delete_peer_def drop_routes_def fun_upd_idem)
qed

subsection \<open>The operations on a device that follows the protocol\<close>

lemma dev_ipc_None:
  "dev_ipc lib d what cfg w = (None, w') \<longleftrightarrow> IpcSet lib (the (td_dev d)) cfg w = (None, w')"
  by (auto simp: dev_ipc_def split: prod.splits option.splits)

lemma follows_uapiD:
  "follows_uapi lib tbl \<Longrightarrow> dev_ipc lib d what cfg w = (None, w') \<Longrightarrow>
     tbl (the (td_dev d)) w' = uapi_set cfg (tbl (the (td_dev d)) w)"
  by (simp add: follows_uapi_def dev_ipc_None)

lemma applyPeer_table:
  assumes "follows_uapi lib tbl" "applyPeer lib d p u w = (None, w')" "one_line (peer_endpoint p)"
    and "wt_wf (tbl (the (td_dev d)) w)"
  obtains pub psk where "keyToHex (dp_PublicKey p) = Inr pub" "keyToHex (secret_bytes (dp_PresharedKey p)) = Inr psk"
    "tbl (the (td_dev d)) w' =
       (if u \<and> wt_peers (tbl (the (td_dev d)) w) pub = None then tbl (the (td_dev d)) w
        else put_peer pub psk (peer_endpoint p) (allowed_text (dp_AllowedIP p)) (tbl (the (td_dev d)) w))"
proof -
  from assms(2) obtain cfg where cfg: "ipcConfig p u = Inr cfg"
      "dev_ipc lib d ''gocloak: device: apply peer: '' cfg w = (None, w')"
    by (auto simp: applyPeer_def split: sum.splits)
  obtain pub psk where k: "keyToHex (dp_PublicKey p) = Inr pub" "keyToHex (secret_bytes (dp_PresharedKey p)) = Inr psk"
    and l: "uapi_lines cfg = peer_lines pub u psk (peer_endpoint p) (allowed_text (dp_AllowedIP p))"
    using ipcConfig_lines [OF cfg(1) assms(3)] by metis
  show thesis
    using that [OF k] follows_uapiD [OF assms(1) cfg(2)] uapi_set_peer [OF l assms(4)] by simp
qed

lemma RemovePeer_table:
  assumes "follows_uapi lib tbl" "RemovePeer lib d key w = (None, w')" "wt_wf (tbl (the (td_dev d)) w)"
  obtains pub where "keyToHex key = Inr pub" "tbl (the (td_dev d)) w' = delete_peer pub (tbl (the (td_dev d)) w)"
proof -
  from assms(2) obtain pub where k: "keyToHex key = Inr pub"
    and i: "dev_ipc lib d ''gocloak: device: remove peer: '' (uline ''public_key'' pub @ uline ''remove'' ''true'') w = (None, w')"
    by (auto simp: RemovePeer_def split: sum.splits)
  show thesis
    using that [OF k] follows_uapiD [OF assms(1) i] uapi_set_remove [OF keyToHex_hex_key [OF k] assms(3)] by simp
qed


text \<open>An instance of the library: a table whose configuration calls always succeed.\<close>

definition ref_lib :: "wg_table wglib" where
  "ref_lib = \<lparr>CreateNetTUN = (\<lambda>_ _ w. (Inr 0, w)), NewDevice = (\<lambda>_ _ w. (0, w)),
     IpcSet = (\<lambda>_ cfg w. (None, uapi_set cfg w)), DevUp = (\<lambda>_ w. (None, w)),
     DevClose = (\<lambda>_ w. w), TunClose = (\<lambda>_ w. (None, w))\<rparr>"

definition ref_dev :: tunnelDevice where
  "ref_dev = \<lparr>td_tun = Some 0, td_dev = Some 0, td_closed = False, td_closeErr = None\<rparr>"

definition empty_table :: wg_table where
  "empty_table = \<lparr>wt_peers = Map.empty, wt_routes = Map.empty\<rparr>"

lemma ref_follows: "follows_uapi ref_lib (\<lambda>_ w. w)"
  by (simp add: follows_uapi_def ref_lib_def)

lemma empty_table_wf [simp]: "wt_wf empty_table"
  by (simp add: wt_wf_def empty_table_def)

lemma device_checks_Inr:
  assumes "device_checks opts = Inr (mtu, k)"
  shows "Contains tunnelSubnet (do_TunnelIP opts) \<and> 0 \<le> do_ListenPort opts \<and> do_ListenPort opts \<le> 65535
    \<and> (do_MTU opts = 0 \<or> 1280 \<le> do_MTU opts \<and> do_MTU opts \<le> 1500)
    \<and> keyToHex (secret_bytes (do_PrivateKey opts)) = Inr k"
  using assms
  by (auto simp: device_checks_def Let_def minMTU_def maxMTU_def DefaultMTU_def split: if_splits sum.splits)

lemma dev_Close_dev:
  "td_dev d = Some h \<Longrightarrow> \<not> td_closed d \<Longrightarrow> snd (snd (dev_Close lib d w)) = DevClose lib h w"
  by (simp add: dev_Close_def Let_def)

section \<open>Properties\<close>

text \<open>
  Adding a peer. On a device that follows the configuration protocol, a successful
  \<^verbatim>\<open>AddPeer\<close> leaves the peer present under its decoded key with the preshared key it was given,
  the peer's only route is its one address as a \<^verbatim>\<open>/32\<close>, any route it had before is gone, every
  other peer keeps its entry, and every other route is untouched.
\<close>

theorem add_peer_exact:
  assumes "follows_uapi lib tbl" "AddPeer lib d p w = (None, w')" "one_line (peer_endpoint p)"
    and "wt_wf (tbl (the (td_dev d)) w)"
  shows "\<exists>pub psk q. keyToHex (dp_PublicKey p) = Inr pub \<and> keyToHex (secret_bytes (dp_PresharedKey p)) = Inr psk
    \<and> wt_peers (tbl (the (td_dev d)) w') = (wt_peers (tbl (the (td_dev d)) w))(pub \<mapsto> q) \<and> wp_psk q = psk
    \<and> {ip. wt_routes (tbl (the (td_dev d)) w') ip = Some pub} = {allowed_text (dp_AllowedIP p)}
    \<and> (\<forall>ip. ip \<noteq> allowed_text (dp_AllowedIP p) \<and> wt_routes (tbl (the (td_dev d)) w) ip \<noteq> Some pub
         \<longrightarrow> wt_routes (tbl (the (td_dev d)) w') ip = wt_routes (tbl (the (td_dev d)) w) ip)
    \<and> wt_wf (tbl (the (td_dev d)) w')"
proof -
  obtain pub psk where k: "keyToHex (dp_PublicKey p) = Inr pub" "keyToHex (secret_bytes (dp_PresharedKey p)) = Inr psk"
    and t: "tbl (the (td_dev d)) w' = put_peer pub psk (peer_endpoint p) (allowed_text (dp_AllowedIP p)) (tbl (the (td_dev d)) w)"
    using applyPeer_table [OF assms(1) assms(2) [unfolded AddPeer_def] assms(3,4)] by metis
  show ?thesis
    unfolding t using k put_peer_wf [OF assms(4)]
    by (intro exI [of _ pub] exI [of _ psk])
      (auto simp: put_peer_def Let_def drop_routes_def split: option.splits)
qed

definition example_dpeer :: devicePeer where
  "example_dpeer = \<lparr>dp_PublicKey = example_key, dp_PresharedKey = Secret example_key,
     dp_AllowedIP = Addr4 0x0A630007, dp_Endpoint = addrport_zero\<rparr>"

definition example_hex :: string where
  "example_hex = replicate 64 (CHR ''0'')"

lemma example_keyToHex: "keyToHex example_key = Inr example_hex"
  by code_simp

lemma example_allowed: "allowed_text (Addr4 0x0A630007) = ''10.99.0.7/32''"
  by code_simp

lemma example_dpeer_config: "\<exists>cfg. ipcConfig example_dpeer u = Inr cfg"
  by (simp add: ipcConfig_def example_dpeer_def example_keyToHex tunnelSubnet_def Contains_24 drop_bit_eq_div)

lemma example_dpeer_line: "one_line (peer_endpoint example_dpeer)"
  by (simp add: one_line_def peer_endpoint_def example_dpeer_def)

lemma example_apply: "\<exists>w'. applyPeer ref_lib ref_dev example_dpeer u w = (None, w')"
  using example_dpeer_config [of u] by (auto simp: applyPeer_def dev_ipc_def ref_lib_def)

theorem add_peer_exact_witness:
  "\<exists>w'. AddPeer ref_lib ref_dev example_dpeer empty_table = (None, w')
     \<and> {ip. wt_routes w' ip = Some example_hex} = {''10.99.0.7/32''}"
proof -
  obtain w' where a: "AddPeer ref_lib ref_dev example_dpeer empty_table = (None, w')"
    using example_apply by (auto simp: AddPeer_def)
  then show ?thesis
    using add_peer_exact [OF ref_follows a example_dpeer_line]
    by (auto simp: example_dpeer_def example_keyToHex example_allowed)
qed

text \<open>
  Updating never creates. A successful \<^verbatim>\<open>UpdatePeer\<close> for a key the device does not
  hold changes nothing at all; for a key it holds, it has the effect of \<^verbatim>\<open>AddPeer\<close>, and in
  neither case does the set of keys change.
\<close>

theorem update_peer_never_creates:
  assumes "follows_uapi lib tbl" "UpdatePeer lib d p w = (None, w')" "one_line (peer_endpoint p)"
    and "wt_wf (tbl (the (td_dev d)) w)"
  shows "dom (wt_peers (tbl (the (td_dev d)) w')) = dom (wt_peers (tbl (the (td_dev d)) w))
    \<and> (\<forall>pub. keyToHex (dp_PublicKey p) = Inr pub \<and> wt_peers (tbl (the (td_dev d)) w) pub = None
         \<longrightarrow> tbl (the (td_dev d)) w' = tbl (the (td_dev d)) w)"
proof -
  obtain pub psk where k: "keyToHex (dp_PublicKey p) = Inr pub"
    and t: "tbl (the (td_dev d)) w' = (if wt_peers (tbl (the (td_dev d)) w) pub = None then tbl (the (td_dev d)) w
        else put_peer pub psk (peer_endpoint p) (allowed_text (dp_AllowedIP p)) (tbl (the (td_dev d)) w))"
    using applyPeer_table [OF assms(1) assms(2) [unfolded UpdatePeer_def] assms(3,4)] by metis
  then show ?thesis by (auto simp: put_peer_def Let_def dom_def)
qed

theorem update_peer_never_creates_witness:
  "\<exists>w'. UpdatePeer ref_lib ref_dev example_dpeer empty_table = (None, w') \<and> w' = empty_table"
proof -
  obtain w' where a: "UpdatePeer ref_lib ref_dev example_dpeer empty_table = (None, w')"
    using example_apply by (auto simp: UpdatePeer_def)
  then show ?thesis
    using update_peer_never_creates [OF ref_follows a example_dpeer_line empty_table_wf]
    by (simp add: example_dpeer_def example_keyToHex empty_table_def)
qed

text \<open>
  Revocation reaches the device: a successful \<^verbatim>\<open>RemovePeer\<close> leaves no entry and no
  route for the decoded key, and keeps every other entry and route. A key that does not decode is
  an error and the library is not called.
\<close>

theorem remove_peer_revokes:
  assumes "follows_uapi lib tbl" "wt_wf (tbl (the (td_dev d)) w)"
  shows "case RemovePeer lib d key w of
      (None, w') \<Rightarrow> (\<exists>pub. keyToHex key = Inr pub
        \<and> wt_peers (tbl (the (td_dev d)) w') = (wt_peers (tbl (the (td_dev d)) w))(pub := None)
        \<and> (\<forall>ip. wt_routes (tbl (the (td_dev d)) w') ip =
             (if wt_routes (tbl (the (td_dev d)) w) ip = Some pub then None else wt_routes (tbl (the (td_dev d)) w) ip)))
    | (Some err, w') \<Rightarrow> (\<forall>e. keyToHex key = Inl e \<longrightarrow> w' = w)"
proof (cases "RemovePeer lib d key w")
  case (Pair r w')
  show ?thesis
  proof (cases r)
    case None
    then obtain pub where "keyToHex key = Inr pub" "tbl (the (td_dev d)) w' = delete_peer pub (tbl (the (td_dev d)) w)"
      using RemovePeer_table assms Pair by metis
    then show ?thesis by (simp add: Pair None delete_peer_def drop_routes_def)
  next
    case (Some e)
    then show ?thesis using Pair by (auto simp: RemovePeer_def)
  qed
qed

theorem remove_peer_revokes_witness:
  "\<exists>w'. RemovePeer ref_lib ref_dev example_key \<lparr>wt_peers = [example_hex \<mapsto> blank_peer], wt_routes = [''ip'' \<mapsto> example_hex]\<rparr>
       = (None, w') \<and> wt_peers w' = Map.empty"
proof -
  let ?t = "\<lparr>wt_peers = [example_hex \<mapsto> blank_peer], wt_routes = [''ip'' \<mapsto> example_hex]\<rparr>"
  have wf: "wt_wf ?t" by (simp add: wt_wf_def)
  obtain w' where a: "RemovePeer ref_lib ref_dev example_key ?t = (None, w')"
    by (simp add: RemovePeer_def example_keyToHex dev_ipc_def ref_lib_def)
  then show ?thesis
    using remove_peer_revokes [where lib = ref_lib and tbl = "\<lambda>_ w. w" and d = ref_dev and key = example_key
        and w = ?t] ref_follows wf
    by (auto simp: example_keyToHex)
qed

text \<open>
  A failed bring-up leaks nothing. When \<^verbatim>\<open>newTunnelDevice\<close> fails, either an option
  was invalid and the library was never called, or the tunnel interface could not be created, or
  the device it had created was closed as the last thing it did. When it succeeds its options were
  valid and the device was configured with the hexadecimal form of the private key.
\<close>

theorem new_device_no_leak:
  "case newTunnelDevice lib opts w of
     (Inl e, w') \<Rightarrow> w' = w \<or> (\<exists>mtu err. CreateNetTUN lib [do_TunnelIP opts] mtu w = (Inl err, w'))
       \<or> (\<exists>h w''. w' = DevClose lib h w'')
   | (Inr d, w') \<Rightarrow> td_dev d \<noteq> None \<and> \<not> td_closed d \<and> Contains tunnelSubnet (do_TunnelIP opts)
       \<and> 0 \<le> do_ListenPort opts \<and> do_ListenPort opts \<le> 65535
       \<and> (do_MTU opts = 0 \<or> 1280 \<le> do_MTU opts \<and> do_MTU opts \<le> 1500)
       \<and> (\<exists>h. keyToHex (secret_bytes (do_PrivateKey opts)) = Inr h)"
proof (cases "device_checks opts")
  case (Inl e)
  then show ?thesis by (simp add: newTunnelDevice_def)
next
  case (Inr r)
  obtain mtu k where r: "r = (mtu, k)" by (cases r)
  show ?thesis
    using device_checks_Inr [OF Inr [unfolded r]]
    by (simp add: newTunnelDevice_def Inr r Let_def dev_Close_dev split: prod.split sum.split option.split) blast
qed

text \<open>
  Claim C15. What reaches the UAPI text in a key line is always a key: any peer block that
  \<^verbatim>\<open>ipcConfig\<close> renders reads back as exactly the intended lines, in the intended order, with the
  public and the preshared key as 64 lower-case hexadecimal digits and one \<^verbatim>\<open>/32\<close> address, whatever the
  keys are. The endpoint is written as it is: its place is taken by the lines its text consists of. That is
  the one intended line when the text has no newline in it, which is every endpoint but one whose IPv6
  zone holds a newline (\<open>endpoint_zone_adds_lines\<close> shows what such a zone can do; the theorems about the
  client assume that neither its literal nor its resolver has one).
\<close>

theorem ipcConfig_roundtrip:
  assumes "ipcConfig p u = Inr cfg"
  shows "\<exists>pub psk. hex_key pub \<and> hex_key psk \<and> keyToHex (dp_PublicKey p) = Inr pub
    \<and> keyToHex (secret_bytes (dp_PresharedKey p)) = Inr psk
    \<and> uapi_lines cfg = block_lines pub u psk
        (map_option (\<lambda>e. uapi_lines (uline ''endpoint'' e)) (peer_endpoint p)) (allowed_text (dp_AllowedIP p))
    \<and> (one_line (peer_endpoint p) \<longrightarrow>
        uapi_lines cfg = peer_lines pub u psk (peer_endpoint p) (allowed_text (dp_AllowedIP p)))"
proof -
  from ipcConfig_any_lines [OF assms] obtain pub psk where k: "keyToHex (dp_PublicKey p) = Inr pub"
      "keyToHex (secret_bytes (dp_PresharedKey p)) = Inr psk"
      "uapi_lines cfg = block_lines pub u psk (map_option (\<lambda>e. uapi_lines (uline ''endpoint'' e)) (peer_endpoint p)) (allowed_text (dp_AllowedIP p))" .
  have "uapi_lines (uline ''endpoint'' e) = [(''endpoint'', e)]" if "one_line (Some e)" for e
    using that by (simp add: uapi_lines_last one_line_def)
  then show ?thesis
    using k k(1,2) [THEN keyToHex_hex_key]
    by (intro exI [of _ pub] exI [of _ psk]) (auto simp: peer_lines_def block_lines_def split: option.splits)
qed

text \<open>
  The parser of addresses accepts any zone, and \<^verbatim>\<open>ipcConfig\<close> renders an endpoint with such a zone into
  further lines of its own: here into one that removes the very peer it adds.
\<close>

theorem endpoint_zone_adds_lines:
  "\<exists>a cfg. ParseAddr (''::1%'' @ ''a]:7'' @ [CHR 0x0A] @ ''remove=true'' @ [CHR 0x0A] @ ''endpoint=[::1%b'') = Some a
     \<and> ipcConfig (example_dpeer\<lparr>dp_Endpoint := AddrPort a 7\<rparr>) False = Inr cfg
     \<and> (''endpoint'', ''[::1%a]:7'') \<in> set (uapi_lines cfg) \<and> (''remove'', ''true'') \<in> set (uapi_lines cfg)
     \<and> wt_peers (uapi_set cfg empty_table) example_hex = None"
proof -
  let ?z = "''a]:7'' @ [CHR 0x0A] @ ''remove=true'' @ [CHR 0x0A] @ ''endpoint=[::1%b''"
  let ?a = "Addr6 1 ?z"
  have a: "ParseAddr (''::1%'' @ ?z) = Some ?a" by code_simp
  have g: "map (v6u16 1) [0..<8] = [0, 0, 0, 0, 0, 0, 0, 1]"
    by (simp add: v6u16_def upt_rec drop_bit_eq_div take_bit_eq_mod unsigned_ucast_eq)
  have b: "best_zero_run 0 [0, 0, 0, 0, 0, 0, 0, Suc 0] (0, 0) = (0, 7)" by code_simp
  have "hex_char (Suc 0) = CHR ''1''" by code_simp
  then have s6: "string6 1 = ''::1''" by (simp add: string6_def g b show_hex_nat.simps del: best_zero_run.simps)
  have "show_nat 7 = ''7''" by code_simp
  then have e: "AddrPort_String (AddrPort ?a 7) = ''[::1%'' @ ?z @ '']:7''"
    by (simp add: AddrPort_String_def Addr_String_def s6 drop_bit_eq_div)
  let ?p = "example_dpeer\<lparr>dp_Endpoint := AddrPort ?a 7\<rparr>"
  obtain cfg where c: "ipcConfig ?p False = Inr cfg"
    by (auto simp: ipcConfig_def example_dpeer_def example_keyToHex tunnelSubnet_def Contains_24 drop_bit_eq_div addrport_zero_def ap_IsValid_def)
  have pe: "peer_endpoint ?p = Some (''[::1%'' @ ?z @ '']:7'')"
    using e by (simp add: peer_endpoint_def addrport_zero_def)
  have "uapi_lines (uline ''endpoint'' (''[::1%'' @ ?z @ '']:7'')) =
      [(''endpoint'', ''[::1%a]:7''), (''remove'', ''true''), (''endpoint'', ''[::1%b]:7'')]"
    by code_simp
  then have l: "uapi_lines cfg = block_lines example_hex False example_hex
      (Some [(''endpoint'', ''[::1%a]:7''), (''remove'', ''true''), (''endpoint'', ''[::1%b]:7'')]) ''10.99.0.7/32''"
    using ipcConfig_any_lines [OF c] unfolding pe by (auto simp: example_dpeer_def example_keyToHex example_allowed)
  have "wt_peers (uapi_set cfg empty_table) example_hex = None"
    by (simp add: uapi_set_def l block_lines_def uapi_line_def edit_peer_def delete_peer_def drop_routes_def empty_table_def)
  then show ?thesis
    using a c l by (intro exI [of _ ?a] exI [of _ cfg]) (simp add: block_lines_def)
qed

theorem ipcConfig_roundtrip_witness:
  "\<exists>cfg. ipcConfig example_dpeer True = Inr cfg
     \<and> uapi_lines cfg = peer_lines example_hex True example_hex None ''10.99.0.7/32''"
proof -
  obtain cfg where c: "ipcConfig example_dpeer True = Inr cfg" using example_dpeer_config by blast
  then show ?thesis
    using ipcConfig_roundtrip [OF c] example_dpeer_line
    by (auto simp: example_dpeer_def example_keyToHex example_allowed peer_endpoint_def)
qed


end
