(* ===== verification/Float64.thy ===== *)
theory Float64
  imports Complex_Main
begin

text \<open>
  The arithmetic of Go's \<^verbatim>\<open>float64\<close> as far as the rate limiter uses it: sums, differences,
  products and quotients of non-negative numbers, each the exact result rounded to a 53-bit
  significand, ties to even. Numbers are rationals. The exponent range is not bounded: every value
  the limiter can compute lies between \<open>10\<^sup>-\<^sup>9 * 2\<^sup>-\<^sup>5\<^sup>3\<close> and \<open>2\<^sup>1\<^sup>2\<^sup>8\<close>, far inside the
  range of a double, so neither overflow nor gradual underflow can occur.
\<close>

section \<open>Definitions\<close>

definition pow2 :: "int \<Rightarrow> rat" where
  "pow2 e = (if 0 \<le> e then 2 ^ nat e else 1 / 2 ^ nat (- e))"

fun ilog2 :: "nat \<Rightarrow> nat" where
  "ilog2 n = (if n < 2 then 0 else Suc (ilog2 (n div 2)))"

declare ilog2.simps [simp del]

text \<open>The exponent of the unit in the last place of a positive number.\<close>

definition ulp_exp :: "rat \<Rightarrow> int" where
  "ulp_exp x = (case quotient_of x of (n, d) \<Rightarrow>
     let k = int (ilog2 (nat n)) - int (ilog2 (nat d))
     in (if x < pow2 k then k - 1 else k) - 52)"

text \<open>Rounding to an integer, ties to even.\<close>

definition rne :: "rat \<Rightarrow> int" where
  "rne y = (let f = \<lfloor>y\<rfloor>; r = y - of_int f
     in if r < 1 / 2 then f else if 1 / 2 < r then f + 1 else if even f then f else f + 1)"

definition fl :: "rat \<Rightarrow> rat" where
  "fl x = (if x \<le> 0 then 0 else of_int (rne (x / pow2 (ulp_exp x))) * pow2 (ulp_exp x))"

text \<open>The numbers a double can hold.\<close>

definition is_float :: "rat \<Rightarrow> bool" where
  "is_float x = (\<exists>m k. x = of_int m * pow2 k \<and> \<bar>m\<bar> \<le> 2 ^ 53)"

section \<open>What the limiter relies on\<close>

definition unit_roundoff :: rat where
  "unit_roundoff = 1 / 2 ^ 53"

text \<open>The contract of a rounding on the non-negative numbers.\<close>

locale rounding =
  fixes rnd :: "rat \<Rightarrow> rat"
  assumes rnd_mono: "0 \<le> x \<Longrightarrow> x \<le> y \<Longrightarrow> rnd x \<le> rnd y"
    and rnd_float: "0 \<le> x \<Longrightarrow> is_float x \<Longrightarrow> rnd x = x"
    and rnd_is_float: "is_float (rnd x)"
    and rnd_err: "0 \<le> x \<Longrightarrow> \<bar>rnd x - x\<bar> \<le> x * unit_roundoff"

section \<open>Powers of two\<close>

lemma pow2_pos [simp]: "0 < pow2 e"
  by (simp add: pow2_def)

lemma pow2_nonneg [simp]: "0 \<le> pow2 e"
  by (simp add: less_imp_le)

lemma pow2_neq_0 [simp]: "pow2 e \<noteq> 0"
  using pow2_pos [of e] by (metis less_irrefl)

lemma pow2_powi: "pow2 e = 2 powi e"
  unfolding pow2_def power_int_def by (auto simp only: inverse_eq_divide power_one_over split: if_splits)

lemma pow2_add: "pow2 (a + b) = pow2 a * pow2 b"
  by (simp add: pow2_powi power_int_add)

lemma pow2_diff: "pow2 (a - b) = pow2 a / pow2 b"
  by (simp add: pow2_powi power_int_diff)

lemma pow2_nat: "pow2 (int n) = 2 ^ n"
  by (simp add: pow2_def)

lemma pow2_mono: "a \<le> b \<Longrightarrow> pow2 a \<le> pow2 b"
  by (simp add: pow2_powi power_int_increasing)

lemma pow2_0 [simp]: "pow2 0 = 1"
  by (simp add: pow2_def)

lemma pow2_52: "pow2 52 = 2 ^ 52" and pow2_53: "pow2 53 = 2 ^ 53"
  by (simp_all add: pow2_def)

lemma ilog2_bounds: "0 < n \<Longrightarrow> 2 ^ ilog2 n \<le> n \<and> n < 2 ^ Suc (ilog2 n)"
proof (induction n rule: ilog2.induct)
  case (1 n)
  show ?case
  proof (cases "n < 2")
    case True
    then show ?thesis using 1 by (simp add: ilog2.simps [of n])
  next
    case False
    then have "2 ^ ilog2 (n div 2) \<le> n div 2" "n div 2 < 2 ^ Suc (ilog2 (n div 2))"
      using "1.IH" by auto
    then have "2 * 2 ^ ilog2 (n div 2) \<le> n" "n < 2 * 2 ^ Suc (ilog2 (n div 2))" by linarith+
    then show ?thesis using False by (simp add: ilog2.simps [of n])
  qed
qed

lemma ilog2_rat:
  assumes "0 < n"
  shows "pow2 (int (ilog2 (nat n))) \<le> of_int n" "of_int n < pow2 (int (ilog2 (nat n)) + 1)"
proof -
  let ?k = "ilog2 (nat n)"
  have b: "2 ^ ?k \<le> nat n" "nat n < 2 ^ Suc ?k" using ilog2_bounds [of "nat n"] assms by simp_all
  have e: "pow2 (int ?k) = of_nat (2 ^ ?k)" "pow2 (int ?k + 1) = of_nat (2 ^ Suc ?k)"
    using pow2_nat [of "Suc ?k"] by (simp_all only: pow2_nat of_nat_Suc of_nat_power of_nat_numeral add.commute)
  have n: "(of_int n :: rat) = of_nat (nat n)" using assms by simp
  show "pow2 (int ?k) \<le> of_int n" unfolding e n of_nat_le_iff by (rule b)
  show "of_int n < pow2 (int ?k + 1)" unfolding e n of_nat_less_iff by (rule b)
qed

section \<open>Exponents\<close>

lemma ulp_exp_bounds:
  assumes "0 < x"
  shows "2 ^ 52 \<le> x / pow2 (ulp_exp x)" "x / pow2 (ulp_exp x) < 2 ^ 53"
proof -
  obtain n d where q: "quotient_of x = (n, d)" by (cases "quotient_of x")
  have d: "0 < d" and x: "x = of_int n / of_int d"
    using quotient_of_denom_pos [OF q] quotient_of_div [OF q] by auto
  have n: "0 < n" using assms d by (simp add: x zero_less_divide_iff)
  define a b where "a = ilog2 (nat n)" and "b = ilog2 (nat d)"
  have na: "pow2 (int a) \<le> of_int n" "of_int n < pow2 (int a + 1)"
    using ilog2_rat [of n] n by (simp_all only: a_def)
  have db: "pow2 (int b) \<le> of_int d" "of_int d < pow2 (int b + 1)"
    using ilog2_rat [of d] d by (simp_all only: b_def)
  have lo: "pow2 (int a - int b - 1) < x"
  proof -
    have "pow2 (int a - int b - 1) = pow2 (int a) / pow2 (int b + 1)"
      by (simp add: pow2_diff [symmetric] algebra_simps)
    also have "\<dots> < of_int n / of_int d" using na db d by (intro frac_less2) auto
    finally show ?thesis by (simp add: x)
  qed
  have hi: "x < pow2 (int a - int b + 1)"
  proof -
    have "of_int n / of_int d < pow2 (int a + 1) / pow2 (int b)" using na db n by (intro frac_less) auto
    also have "\<dots> = pow2 (int a - int b + 1)" by (simp add: pow2_diff [symmetric] algebra_simps)
    finally show ?thesis by (simp add: x)
  qed
  define k where "k = (if x < pow2 (int a - int b) then int a - int b - 1 else int a - int b)"
  have k: "pow2 k \<le> x" "x < pow2 (k + 1)" using lo hi by (auto simp: k_def)
  have e: "ulp_exp x = k - 52" by (simp add: ulp_exp_def q Let_def k_def a_def b_def)
  have "x / pow2 (ulp_exp x) = x / pow2 k * 2 ^ 52" by (simp add: e pow2_diff pow2_52)
  moreover have "1 \<le> x / pow2 k" "x / pow2 k < 2"
    using k by (simp_all add: le_divide_eq divide_less_eq pow2_add mult.commute) (simp add: pow2_def)
  ultimately show "2 ^ 52 \<le> x / pow2 (ulp_exp x)" "x / pow2 (ulp_exp x) < 2 ^ 53"
    using mult_right_mono [of 1 "x / pow2 k" "2 ^ 52"] mult_strict_right_mono [of "x / pow2 k" 2 "2 ^ 52"]
    by simp_all
qed

section \<open>Rounding\<close>

lemma rne_err: "\<bar>of_int (rne y) - y\<bar> \<le> 1 / 2"
proof -
  have "of_int \<lfloor>y\<rfloor> \<le> y" "y < of_int \<lfloor>y\<rfloor> + 1" by linarith+
  then show ?thesis unfolding rne_def Let_def abs_le_iff by (auto; linarith)
qed

lemma rne_int [simp]: "rne (of_int n) = n"
  by (simp add: rne_def)

lemma rne_mono:
  assumes "x \<le> y"
  shows "rne x \<le> rne y"
proof (cases "\<lfloor>x\<rfloor> = \<lfloor>y\<rfloor>")
  case True
  then show ?thesis using assms unfolding rne_def Let_def by auto
next
  case False
  then have "\<lfloor>x\<rfloor> + 1 \<le> \<lfloor>y\<rfloor>" using floor_mono [OF assms] by linarith
  moreover have "rne x \<le> \<lfloor>x\<rfloor> + 1" "\<lfloor>y\<rfloor> \<le> rne y" unfolding rne_def Let_def by auto
  ultimately show ?thesis by linarith
qed

lemma rne_bounds:
  assumes "2 ^ 52 \<le> y" "y < 2 ^ 53"
  shows "2 ^ 52 \<le> rne y" "rne y \<le> 2 ^ 53"
proof -
  have "rne (of_int (2 ^ 52)) \<le> rne y" "rne y \<le> rne (of_int (2 ^ 53))"
    using assms by (intro rne_mono; simp)+
  then show "2 ^ 52 \<le> rne y" "rne y \<le> 2 ^ 53" by (simp_all only: rne_int)
qed

lemma fl_pos: "0 < x \<Longrightarrow> fl x = of_int (rne (x / pow2 (ulp_exp x))) * pow2 (ulp_exp x)"
  by (simp add: fl_def)

lemma fl_bounds:
  assumes "0 < x"
  shows "pow2 (ulp_exp x + 52) \<le> fl x" "fl x \<le> pow2 (ulp_exp x + 53)"
proof -
  note b = rne_bounds [OF ulp_exp_bounds [OF assms]]
  have "of_int (2 ^ 52) * pow2 (ulp_exp x) \<le> of_int (rne (x / pow2 (ulp_exp x))) * pow2 (ulp_exp x)"
    "of_int (rne (x / pow2 (ulp_exp x))) * pow2 (ulp_exp x) \<le> of_int (2 ^ 53) * pow2 (ulp_exp x)"
    using b by (intro mult_right_mono; simp)+
  then show "pow2 (ulp_exp x + 52) \<le> fl x" "fl x \<le> pow2 (ulp_exp x + 53)"
    by (simp_all add: fl_pos [OF assms] pow2_add pow2_52 pow2_53 mult.commute)
qed

lemma pow2_less_imp: "pow2 a < pow2 b \<Longrightarrow> a < b"
  using pow2_mono [of b a] by (meson linorder_not_less)

lemma ulp_exp_range:
  assumes "0 < x"
  shows "pow2 (ulp_exp x + 52) \<le> x" "x < pow2 (ulp_exp x + 53)"
  using ulp_exp_bounds [OF assms]
  by (simp_all add: pow2_add pow2_52 pow2_53 le_divide_eq divide_less_eq mult.commute)

lemma ulp_exp_mono: "0 < x \<Longrightarrow> x \<le> y \<Longrightarrow> ulp_exp x \<le> ulp_exp y"
proof -
  assume x: "0 < x" "x \<le> y"
  then have y: "0 < y" by simp
  have "pow2 (ulp_exp x + 52) < pow2 (ulp_exp y + 53)"
    using ulp_exp_range [OF x(1)] ulp_exp_range [OF y] x(2) by linarith
  then show ?thesis using pow2_less_imp by fastforce
qed

lemma fl_mono:
  assumes "x \<le> y"
  shows "fl x \<le> fl y"
proof -
  consider "x \<le> 0" | "0 < x" "ulp_exp x = ulp_exp y" | "0 < x" "ulp_exp x < ulp_exp y"
    using ulp_exp_mono [OF _ assms] by fastforce
  then show ?thesis
  proof cases
    case 1
    then show ?thesis
      using fl_bounds(1) [of y] order_trans [OF pow2_nonneg] by (cases "0 < y") (simp_all add: fl_def [of x], simp_all add: fl_def)
  next
    case 2
    then have "x / pow2 (ulp_exp x) \<le> y / pow2 (ulp_exp y)"
      using assms by (simp add: divide_right_mono)
    then show ?thesis using 2 assms rne_mono by (simp add: fl_pos mult_right_mono)
  next
    case 3
    then have "fl x \<le> pow2 (ulp_exp y + 52)"
      using fl_bounds(2) [of x] pow2_mono [of "ulp_exp x + 53" "ulp_exp y + 52"] by simp
    then show ?thesis using fl_bounds(1) [of y] 3 assms by simp
  qed
qed

lemma fl_is_float: "is_float (fl x)"
proof (cases "0 < x")
  case True
  have "\<bar>rne (x / pow2 (ulp_exp x))\<bar> \<le> 2 ^ 53"
    using rne_bounds [OF ulp_exp_bounds [OF True]] by simp
  then show ?thesis unfolding is_float_def fl_pos [OF True] by blast
next
  case False
  then show ?thesis unfolding is_float_def fl_def by (intro exI [of _ 0]) simp
qed

lemma fl_float:
  assumes "0 \<le> x" "is_float x"
  shows "fl x = x"
proof (cases "x = 0")
  case False
  then have x: "0 < x" using assms by simp
  obtain m k where m: "x = of_int m * pow2 k" "\<bar>m\<bar> \<le> 2 ^ 53" using assms(2) by (auto simp: is_float_def)
  let ?e = "ulp_exp x"
  have "\<exists>j. x / pow2 ?e = of_int j"
  proof (cases "?e \<le> k")
    case True
    then have "x / pow2 ?e = of_int m * pow2 (k - ?e)" by (simp add: m(1) pow2_diff)
    also have "\<dots> = of_int (m * 2 ^ nat (k - ?e))" using True by (simp add: pow2_def)
    finally show ?thesis by blast
  next
    case False
    have "of_int m \<le> (2 ^ 53 :: rat)" using m(2) by (simp add: abs_le_iff)
    then have "x \<le> 2 ^ 53 * pow2 k" unfolding m(1) by (rule mult_right_mono) simp
    also have "\<dots> = pow2 (k + 53)" by (simp add: pow2_add pow2_53 mult.commute)
    also have "\<dots> \<le> pow2 (?e + 52)" using False by (intro pow2_mono) simp
    finally have "x = pow2 (?e + 52)" using ulp_exp_range(1) [OF x] by (rule order_antisym)
    also have "\<dots> = of_int (2 ^ 52) * pow2 ?e" by (simp add: pow2_add pow2_52)
    finally have "x / pow2 ?e = of_int (2 ^ 52)" by (rule nonzero_divide_eq_eq [OF pow2_neq_0, THEN iffD2])
    then show ?thesis by blast
  qed
  then obtain j where j: "x / pow2 ?e = of_int j" by blast
  then have "x = of_int j * pow2 ?e" by (rule nonzero_divide_eq_eq [OF pow2_neq_0, THEN iffD1])
  then show ?thesis using x j by (simp add: fl_pos)
qed (simp add: fl_def)

lemma fl_err:
  assumes "0 \<le> x"
  shows "\<bar>fl x - x\<bar> \<le> x * unit_roundoff"
proof (cases "x = 0")
  case False
  then have x: "0 < x" using assms by simp
  let ?p = "pow2 (ulp_exp x)"
  have "fl x - x = (of_int (rne (x / ?p)) - x / ?p) * ?p" by (simp add: fl_pos [OF x] algebra_simps)
  then have "\<bar>fl x - x\<bar> = \<bar>of_int (rne (x / ?p)) - x / ?p\<bar> * ?p" by (simp add: abs_mult)
  also have "\<dots> \<le> 1 / 2 * ?p" by (rule mult_right_mono [OF rne_err]) simp
  also have "\<dots> \<le> x * unit_roundoff"
    using ulp_exp_range(1) [OF x] by (simp add: pow2_add pow2_52 unit_roundoff_def)
  finally show ?thesis .
qed (simp add: fl_def)

interpretation f64: rounding fl
  by unfold_locales (simp_all add: fl_mono fl_float fl_is_float fl_err)

end
