(* ===== verification/Limiter.thy ===== *)
theory Limiter
  imports Config Float64
begin

text \<open>
  The per-peer limits of \<^verbatim>\<open>src/server.go\<close> (lines 1004 to 1140): the token bucket, the
  concurrency cap and the set of live connections a revocation reaps. The arithmetic is that of
  \<^verbatim>\<open>float64\<close>: every operation that computes takes the rounding as an argument, the laws are
  proved for any rounding that meets the contract, and the program's operations are the instances
  at the rounding of a double. A live connection is identified by a number, as the Go code
  identifies it by its address.
\<close>

section \<open>Definitions\<close>

text \<open>\<^verbatim>\<open>time.Time.Sub\<close>: the difference, saturated to the range of a 64-bit duration.\<close>

definition time_Sub :: "time \<Rightarrow> time \<Rightarrow> duration" where
  "time_Sub t u = max (- (2 ^ 63)) (min (2 ^ 63 - 1) (t - u))"

text \<open>\<^verbatim>\<open>time.Duration.Seconds\<close> of a non-negative duration.\<close>

definition Seconds_with :: "(rat \<Rightarrow> rat) \<Rightarrow> duration \<Rightarrow> rat" where
  "Seconds_with rnd d =
     rnd (rnd (of_int (d div 1000000000)) + rnd (rnd (of_int (d mod 1000000000)) / 1000000000))"

record peerLimiter =
  pl_publicKey :: string
  maxConcurrent :: int
  rate :: rat
  burst :: rat
  tokens :: rat
  pl_last :: time
  active :: int
  live :: "nat list"

definition setLimits_with :: "(rat \<Rightarrow> rat) \<Rightarrow> peerLimits \<Rightarrow> peerLimiter \<Rightarrow> peerLimiter" where
  "setLimits_with rnd l p =
     (let p1 = p\<lparr>maxConcurrent := MaxConcurrent l, rate := rnd (of_int (DialsPerSecond l)),
                 burst := rnd (of_int (DialsPerSecond l))\<rparr>
      in if tokens p1 > burst p1 then p1\<lparr>tokens := burst p1\<rparr> else p1)"

definition newPeerLimiter_with :: "(rat \<Rightarrow> rat) \<Rightarrow> time \<Rightarrow> string \<Rightarrow> peerLimits \<Rightarrow> peerLimiter" where
  "newPeerLimiter_with rnd now publicKey l =
     (let p = setLimits_with rnd l \<lparr>pl_publicKey = publicKey, maxConcurrent = 0, rate = 0, burst = 0,
            tokens = 0, pl_last = now, active = 0, live = []\<rparr>
      in p\<lparr>tokens := burst p\<rparr>)"

text \<open>The two halves of \<^verbatim>\<open>acquire\<close>: refilling the bucket, then taking a token and a slot.\<close>

definition refill_with :: "(rat \<Rightarrow> rat) \<Rightarrow> time \<Rightarrow> peerLimiter \<Rightarrow> peerLimiter" where
  "refill_with rnd now p =
     (let elapsed = time_Sub now (pl_last p) in
      if elapsed > 0 then
        (let p1 = p\<lparr>pl_last := now, tokens := rnd (tokens p + rnd (Seconds_with rnd elapsed * rate p))\<rparr>
         in if tokens p1 > burst p1 then p1\<lparr>tokens := burst p1\<rparr> else p1)
      else p)"

definition acquire_with :: "(rat \<Rightarrow> rat) \<Rightarrow> time \<Rightarrow> peerLimiter \<Rightarrow> (string \<times> bool) \<times> peerLimiter" where
  "acquire_with rnd now p =
     (let p1 = refill_with rnd now p in
      if tokens p1 < 1 then ((''dials_per_second'', False), p1)
      else let p2 = p1\<lparr>tokens := rnd (tokens p1 - 1)\<rparr> in
        if active p2 \<ge> maxConcurrent p2 then ((''max_concurrent'', False), p2)
        else (([], True), p2\<lparr>active := active p2 + 1\<rparr>))"

definition setLimits :: "peerLimits \<Rightarrow> peerLimiter \<Rightarrow> peerLimiter" where
  "setLimits = setLimits_with fl"

definition newPeerLimiter :: "time \<Rightarrow> string \<Rightarrow> peerLimits \<Rightarrow> peerLimiter" where
  "newPeerLimiter = newPeerLimiter_with fl"

definition acquire :: "time \<Rightarrow> peerLimiter \<Rightarrow> (string \<times> bool) \<times> peerLimiter" where
  "acquire = acquire_with fl"

definition release :: "peerLimiter \<Rightarrow> peerLimiter" where
  "release p = (if active p > 0 then p\<lparr>active := active p - 1\<rparr> else p)"

definition track :: "nat \<Rightarrow> peerLimiter \<Rightarrow> peerLimiter" where
  "track c p = p\<lparr>live := List.insert c (live p)\<rparr>"

definition untrack :: "nat \<Rightarrow> peerLimiter \<Rightarrow> peerLimiter" where
  "untrack c p = p\<lparr>live := removeAll c (live p)\<rparr>"

text \<open>\<^verbatim>\<open>closeLive\<close>: the connections to close, and the limiter with the set cleared.\<close>

definition closeLive :: "peerLimiter \<Rightarrow> nat list \<times> peerLimiter" where
  "closeLive p = (live p, p\<lparr>live := []\<rparr>)"

section \<open>Specification\<close>

text \<open>The invariant of a limiter: the bucket is a double between empty and full.\<close>

definition limiter_inv :: "peerLimiter \<Rightarrow> bool" where
  "limiter_inv p = (0 \<le> tokens p \<and> tokens p \<le> burst p \<and> is_float (tokens p) \<and> is_float (burst p)
     \<and> rate p = burst p \<and> 0 \<le> active p \<and> distinct (live p))"

text \<open>A sequence of calls at given instants: how many took a token, and the final limiter.\<close>

fun run_acquire :: "(rat \<Rightarrow> rat) \<Rightarrow> peerLimiter \<Rightarrow> time list \<Rightarrow> nat \<times> peerLimiter" where
  "run_acquire rnd p [] = (0, p)"
| "run_acquire rnd p (now # nows) =
     (case acquire_with rnd now p of ((why, ok), p1) \<Rightarrow>
        (case run_acquire rnd p1 nows of (n, p2) \<Rightarrow>
           ((if why = ''dials_per_second'' then n else Suc n), p2)))"

section \<open>Lemmas\<close>

lemma is_float_int:
  assumes "\<bar>n\<bar> \<le> 2 ^ 53"
  shows "is_float (of_int n)"
proof -
  have "of_int n = (of_int n :: rat) * pow2 0" by simp
  then show ?thesis unfolding is_float_def using assms by blast
qed

lemma is_float_0: "is_float 0" and is_float_1: "is_float 1"
  using is_float_int [of 0] is_float_int [of 1] by simp_all

text \<open>The decrement of a bucket of at least one token is exact up to \<open>2\<^sup>5\<^sup>3\<close>.\<close>

lemma is_float_pred:
  assumes "is_float t" "1 \<le> t" "t \<le> 2 ^ 53"
  shows "is_float (t - 1)"
proof -
  obtain m k where t: "t = of_int m * pow2 k" "\<bar>m\<bar> \<le> 2 ^ 53" using assms(1) by (auto simp: is_float_def)
  show ?thesis
  proof (cases "k \<le> 0")
    case True
    define j :: int where "j = 2 ^ nat (- k)"
    have j: "of_int j * pow2 k = 1" using True by (cases "k = 0") (simp_all add: j_def pow2_def)
    have "0 \<le> of_int m * pow2 k - 1" using assms(2) t by simp
    then have "0 \<le> (of_int (m - j)) * pow2 k" using j by (simp add: left_diff_distrib)
    then have "0 \<le> m - j" by (simp only: zero_le_mult_iff) (metis linorder_not_less of_int_0_le_iff pow2_pos)
    moreover have "0 \<le> j" by (simp add: j_def)
    ultimately have "\<bar>m - j\<bar> \<le> 2 ^ 53" using t(2) by linarith
    moreover have "t - 1 = of_int (m - j) * pow2 k" using j t(1) by (simp add: left_diff_distrib)
    ultimately show ?thesis unfolding is_float_def by blast
  next
    case False
    define n where "n = m * 2 ^ nat k"
    have n: "t = of_int n" using False by (simp add: t(1) n_def pow2_def)
    then have "1 \<le> n" "n \<le> 2 ^ 53" using assms(2,3) by (simp_all add: n)
    then have "is_float (of_int (n - 1))" by (intro is_float_int) simp
    then show ?thesis by (simp add: n)
  qed
qed

context rounding
begin

lemma rnd_0: "rnd 0 = 0"
  by (simp add: rnd_float is_float_0)

lemma rnd_nonneg: "0 \<le> x \<Longrightarrow> 0 \<le> rnd x"
  using rnd_mono [of 0 x] by (simp add: rnd_0)

lemma rnd_le: "0 \<le> x \<Longrightarrow> rnd x \<le> x * (1 + unit_roundoff)"
  using rnd_err [of x] by (simp add: abs_le_iff distrib_left)

lemma Seconds_nonneg: "0 \<le> d \<Longrightarrow> 0 \<le> Seconds_with rnd d"
  unfolding Seconds_with_def
  by (intro rnd_nonneg add_nonneg_nonneg divide_nonneg_nonneg) (simp_all add: pos_imp_zdiv_nonneg_iff)

lemma setLimits_inv:
  assumes "limiter_inv p" "0 \<le> DialsPerSecond l"
  shows "limiter_inv (setLimits_with rnd l p)"
  using assms rnd_nonneg [of "of_int (DialsPerSecond l)"] rnd_is_float
  by (auto simp: limiter_inv_def setLimits_with_def Let_def)

lemma newPeerLimiter_inv:
  assumes "0 \<le> DialsPerSecond l"
  shows "limiter_inv (newPeerLimiter_with rnd now k l)"
  using assms rnd_nonneg [of "of_int (DialsPerSecond l)"] rnd_is_float
  by (auto simp: limiter_inv_def newPeerLimiter_with_def setLimits_with_def Let_def)

lemma gain_nonneg: "limiter_inv p \<Longrightarrow> 0 \<le> d \<Longrightarrow> 0 \<le> rnd (Seconds_with rnd d * rate p)"
  by (auto simp: limiter_inv_def intro!: rnd_nonneg mult_nonneg_nonneg Seconds_nonneg)

lemma refill_inv: "limiter_inv p \<Longrightarrow> limiter_inv (refill_with rnd now p)"
  using gain_nonneg [of p "time_Sub now (pl_last p)"] rnd_is_float
  by (auto simp: limiter_inv_def refill_with_def Let_def intro!: rnd_nonneg)

lemma take_inv:
  assumes "limiter_inv p" "1 \<le> tokens p"
  shows "limiter_inv (p\<lparr>tokens := rnd (tokens p - 1)\<rparr>)"
proof -
  have "rnd (tokens p - 1) \<le> rnd (tokens p)" using assms by (intro rnd_mono) simp_all
  also have "\<dots> = tokens p" using assms by (simp add: rnd_float limiter_inv_def)
  finally show ?thesis using assms rnd_nonneg [of "tokens p - 1"] rnd_is_float
    by (simp add: limiter_inv_def)
qed

lemma acquire_inv: "limiter_inv p \<Longrightarrow> limiter_inv (snd (acquire_with rnd now p))"
proof -
  assume "limiter_inv p"
  then have i: "limiter_inv (refill_with rnd now p)" by (rule refill_inv)
  show ?thesis
  proof (cases "tokens (refill_with rnd now p) < 1")
    case True
    then show ?thesis using i by (simp add: acquire_with_def Let_def)
  next
    case False
    then have "limiter_inv ((refill_with rnd now p)\<lparr>tokens := rnd (tokens (refill_with rnd now p) - 1)\<rparr>)"
      using i take_inv by simp
    then show ?thesis using False by (auto simp: acquire_with_def Let_def limiter_inv_def)
  qed
qed

end

lemma release_inv: "limiter_inv p \<Longrightarrow> limiter_inv (release p)"
  by (auto simp: limiter_inv_def release_def)

lemma track_inv: "limiter_inv p \<Longrightarrow> limiter_inv (track c p)"
  by (auto simp: limiter_inv_def track_def)

lemma untrack_inv: "limiter_inv p \<Longrightarrow> limiter_inv (untrack c p)"
  by (auto simp: limiter_inv_def untrack_def distinct_removeAll)

lemma closeLive_inv: "limiter_inv p \<Longrightarrow> limiter_inv (snd (closeLive p))"
  by (auto simp: limiter_inv_def closeLive_def)

subsection \<open>The rate\<close>

definition gain_factor :: rat where
  "gain_factor = (1 + unit_roundoff) ^ 4"

lemma unit_roundoff_pos [simp]: "0 < unit_roundoff" "0 \<le> unit_roundoff" "0 \<le> 1 + unit_roundoff"
  by (simp_all add: unit_roundoff_def)

lemma time_Sub_le: "0 < time_Sub t u \<Longrightarrow> time_Sub t u \<le> t - u"
  by (simp add: time_Sub_def)

lemma div_mod_seconds: "of_int (d div 1000000000) + of_int (d mod 1000000000) / 1000000000 = (of_int d / 1000000000 :: rat)"
proof -
  have "of_int d = (of_int (1000000000 * (d div 1000000000) + d mod 1000000000) :: rat)" by simp
  also have "\<dots> = 1000000000 * of_int (d div 1000000000) + of_int (d mod 1000000000)"
    by (simp only: of_int_add of_int_mult of_int_numeral)
  finally show ?thesis by (simp add: field_simps)
qed

context rounding
begin

lemma Seconds_le:
  assumes "0 \<le> d"
  shows "Seconds_with rnd d \<le> (1 + unit_roundoff) ^ 2 * (of_int d / 1000000000)"
proof -
  let ?U = "1 + unit_roundoff :: rat"
  let ?s = "of_int (d div 1000000000) :: rat" and ?n = "of_int (d mod 1000000000) :: rat"
  have U: "0 \<le> ?U" using unit_roundoff_pos by linarith
  have s: "0 \<le> ?s" using assms by (simp add: pos_imp_zdiv_nonneg_iff)
  have n: "0 \<le> ?n" by simp
  have "\<bar>d mod 1000000000\<bar> \<le> 2 ^ 53" using pos_mod_bound [of 1000000000 d] by simp
  then have rn: "rnd ?n = ?n" using n by (intro rnd_float is_float_int)
  have "rnd ?s + rnd (rnd ?n / 1000000000) \<le> ?s * ?U + ?n / 1000000000 * ?U"
    unfolding rn by (intro add_mono rnd_le s divide_nonneg_nonneg n) simp
  also have "\<dots> = ?U * (of_int d / 1000000000)"
    unfolding div_mod_seconds [of d, symmetric] by (simp only: distrib_left distrib_right mult.commute)
  finally have "rnd ?s + rnd (rnd ?n / 1000000000) \<le> ?U * (of_int d / 1000000000)" .
  moreover have "0 \<le> rnd ?s + rnd (rnd ?n / 1000000000)"
    by (intro add_nonneg_nonneg rnd_nonneg divide_nonneg_nonneg s n) simp
  ultimately have "Seconds_with rnd d \<le> (?U * (of_int d / 1000000000)) * ?U"
    unfolding Seconds_with_def using rnd_le U by (meson mult_right_mono order_trans)
  then show ?thesis by (simp only: power2_eq_square mult_ac)
qed

lemma refill_tokens:
  assumes "limiter_inv p"
  shows "tokens (refill_with rnd now p) \<le> tokens p + unit_roundoff * burst p
    + gain_factor * rate p * (of_int (pl_last (refill_with rnd now p) - pl_last p) / 1000000000)"
proof (cases "0 < time_Sub now (pl_last p)")
  case False
  moreover have "0 \<le> unit_roundoff * burst p"
    using assms unit_roundoff_pos by (intro mult_nonneg_nonneg) (auto simp: limiter_inv_def less_imp_le)
  ultimately show ?thesis by (simp add: refill_with_def)
next
  case True
  let ?U = "1 + unit_roundoff :: rat"
  let ?e = "time_Sub now (pl_last p)" and ?d = "now - pl_last p"
  let ?g = "rnd (Seconds_with rnd ?e * rate p)"
  have U: "0 \<le> ?U" using unit_roundoff_pos by linarith
  have r: "0 \<le> rate p" "tokens p \<le> burst p" "0 \<le> tokens p" using assms by (auto simp: limiter_inv_def)
  have "Seconds_with rnd ?e \<le> ?U ^ 2 * (of_int ?e / 1000000000)" using True by (intro Seconds_le) simp
  also have "\<dots> \<le> ?U ^ 2 * (of_int ?d / 1000000000)"
    using time_Sub_le [OF True] by (intro mult_left_mono divide_right_mono) simp_all
  finally have "Seconds_with rnd ?e * rate p \<le> ?U ^ 2 * (of_int ?d / 1000000000) * rate p"
    using r by (intro mult_right_mono)
  moreover have nn: "0 \<le> Seconds_with rnd ?e * rate p"
    using r True by (intro mult_nonneg_nonneg Seconds_nonneg) simp_all
  ultimately have g: "?g \<le> ?U ^ 2 * (of_int ?d / 1000000000) * rate p * ?U"
    using rnd_le U by (meson mult_right_mono order_trans)
  have "rnd (tokens p + ?g) \<le> (tokens p + ?g) * ?U"
    using r rnd_nonneg [OF nn] by (intro rnd_le) simp
  also have "\<dots> = tokens p + tokens p * unit_roundoff + ?g * ?U" by (simp only: distrib_left distrib_right mult_1_right add.assoc)
  also have "\<dots> \<le> tokens p + burst p * unit_roundoff + ?U ^ 2 * (of_int ?d / 1000000000) * rate p * ?U * ?U"
    using g U r unit_roundoff_pos by (intro add_mono mult_right_mono order_refl) simp_all
  also have "\<dots> = tokens p + unit_roundoff * burst p + gain_factor * rate p * (of_int ?d / 1000000000)"
    by (simp only: gain_factor_def power2_eq_square power4_eq_xxxx mult_ac)
  finally have "rnd (tokens p + ?g) \<le> tokens p + unit_roundoff * burst p + gain_factor * rate p * (of_int ?d / 1000000000)" .
  then show ?thesis using True by (auto simp: refill_with_def Let_def)
qed

end


context rounding
begin

lemma refill_fields [simp]:
  "burst (refill_with rnd now p) = burst p" "rate (refill_with rnd now p) = rate p"
  "maxConcurrent (refill_with rnd now p) = maxConcurrent p" "active (refill_with rnd now p) = active p"
  "live (refill_with rnd now p) = live p" "pl_publicKey (refill_with rnd now p) = pl_publicKey p"
  by (simp_all add: refill_with_def Let_def)

lemma acquire_fields:
  assumes "acquire_with rnd now p = (r, p')"
  shows "burst p' = burst p" "rate p' = rate p" "maxConcurrent p' = maxConcurrent p"
    "pl_last p' = pl_last (refill_with rnd now p)" "live p' = live p" "pl_publicKey p' = pl_publicKey p"
  using assms by (auto simp: acquire_with_def Let_def split: if_splits)

text \<open>One call: what it spends is covered by what was in the bucket and what the clock added.\<close>

lemma acquire_spends:
  assumes "limiter_inv p" "burst p \<le> 2 ^ 53" "acquire_with rnd now p = ((why, ok), p')"
  shows "tokens p' + (if why = ''dials_per_second'' then 0 else 1) \<le> tokens p + unit_roundoff * burst p
    + gain_factor * rate p * (of_int (pl_last p' - pl_last p) / 1000000000)"
proof -
  let ?p = "refill_with rnd now p"
  have i: "limiter_inv ?p" using assms(1) by (rule refill_inv)
  have "tokens p' + (if why = ''dials_per_second'' then 0 else 1) = tokens ?p"
  proof (cases "tokens ?p < 1")
    case True
    then show ?thesis using assms(3) by (auto simp: acquire_with_def Let_def)
  next
    case False
    have "tokens ?p \<le> 2 ^ 53" using i assms(2) by (simp add: limiter_inv_def)
    then have "rnd (tokens ?p - 1) = tokens ?p - 1"
      using False i by (intro rnd_float is_float_pred) (auto simp: limiter_inv_def)
    then show ?thesis using False assms(3) by (auto simp: acquire_with_def Let_def split: if_splits)
  qed
  then show ?thesis using refill_tokens [OF assms(1), of now] acquire_fields(4) [OF assms(3)] by simp
qed

lemma refill_last: "pl_last p \<le> pl_last (refill_with rnd now p) \<and>
    (pl_last (refill_with rnd now p) = pl_last p \<or> pl_last (refill_with rnd now p) = now)"
  using time_Sub_le [of now "pl_last p"] by (auto simp: refill_with_def Let_def)

lemma run_acquire_spends:
  assumes "limiter_inv p" "burst p \<le> 2 ^ 53" "run_acquire rnd p nows = (n, p')"
  shows "of_nat n \<le> tokens p + of_nat (length nows) * (unit_roundoff * burst p)
    + gain_factor * rate p * (of_int (pl_last p' - pl_last p) / 1000000000)"
proof -
  have "tokens p' + of_nat n \<le> tokens p + of_nat (length nows) * (unit_roundoff * burst p)
      + gain_factor * rate p * (of_int (pl_last p' - pl_last p) / 1000000000) \<and> 0 \<le> tokens p'"
    using assms
  proof (induction nows arbitrary: p n)
    case Nil
    then show ?case by (simp add: limiter_inv_def)
  next
    case (Cons now nows)
    obtain why ok p1 where a: "acquire_with rnd now p = ((why, ok), p1)"
      by (metis prod.collapse)
    obtain m p2 where r: "run_acquire rnd p1 nows = (m, p2)" by fastforce
    have n: "n = (if why = ''dials_per_second'' then m else Suc m)" "p2 = p'"
      using Cons.prems(3) by (auto simp: a r)
    have i: "limiter_inv p1" using acquire_inv [OF Cons.prems(1), of now] by (simp add: a)
    note f = acquire_fields [OF a]
    have IH: "tokens p' + of_nat m \<le> tokens p1 + of_nat (length nows) * (unit_roundoff * burst p)
        + gain_factor * rate p * (of_int (pl_last p' - pl_last p1) / 1000000000)" "0 \<le> tokens p'"
      using Cons.IH [OF i, of m] Cons.prems(2) r n(2) by (simp_all add: f)
    have sp: "tokens p1 + (if why = ''dials_per_second'' then 0 else 1) \<le> tokens p + unit_roundoff * burst p
        + gain_factor * rate p * (of_int (pl_last p1 - pl_last p) / 1000000000)"
      using acquire_spends [OF Cons.prems(1,2) a] .
    have d: "gain_factor * rate p * (of_int (pl_last p' - pl_last p) / 1000000000) =
        gain_factor * rate p * (of_int (pl_last p' - pl_last p1) / 1000000000)
        + gain_factor * rate p * (of_int (pl_last p1 - pl_last p) / 1000000000)"
      by (simp add: diff_divide_distrib right_diff_distrib)
    have "of_nat n = of_nat m + (if why = ''dials_per_second'' then 0 else 1 :: rat)" by (simp add: n)
    moreover have "of_nat (length (now # nows)) * (unit_roundoff * burst p) =
        unit_roundoff * burst p + of_nat (length nows) * (unit_roundoff * burst p)"
      by (simp add: distrib_right)
    ultimately show ?case using IH sp d by linarith
  qed
  then show ?thesis by linarith
qed

lemma run_acquire_last:
  assumes "run_acquire rnd p nows = (n, p')" "pl_last p \<le> T" "\<forall>t \<in> set nows. t \<le> T"
  shows "pl_last p' \<le> T"
  using assms
proof (induction nows arbitrary: p n)
  case (Cons now nows)
  obtain why ok p1 where a: "acquire_with rnd now p = ((why, ok), p1)" by (metis prod.collapse)
  obtain m p2 where r: "run_acquire rnd p1 nows = (m, p2)" by fastforce
  have "pl_last p1 \<le> T" using refill_last [of p now] acquire_fields(4) [OF a] Cons.prems by auto
  then show ?case using Cons.IH [of p1 m] Cons.prems r by (auto simp: a)
qed auto

text \<open>The other direction: a bucket that holds enough grants every dial.\<close>

lemma refill_ge: "limiter_inv p \<Longrightarrow> tokens p \<le> tokens (refill_with rnd now p)"
proof -
  assume i: "limiter_inv p"
  have "tokens p \<le> rnd (tokens p + rnd (Seconds_with rnd (time_Sub now (pl_last p)) * rate p))"
    if "0 < time_Sub now (pl_last p)"
  proof -
    have "0 \<le> rnd (Seconds_with rnd (time_Sub now (pl_last p)) * rate p)" using i that by (intro gain_nonneg) simp_all
    then have "rnd (tokens p) \<le> rnd (tokens p + rnd (Seconds_with rnd (time_Sub now (pl_last p)) * rate p))"
      using i by (intro rnd_mono) (auto simp: limiter_inv_def)
    then show ?thesis using i by (simp add: rnd_float limiter_inv_def)
  qed
  then show ?thesis using i by (auto simp: refill_with_def Let_def limiter_inv_def)
qed

lemma acquire_grants:
  assumes "limiter_inv p" "of_nat (Suc k) \<le> tokens p" "active p < maxConcurrent p" "k \<le> 2 ^ 53"
  shows "\<exists>p'. acquire_with rnd now p = (([], True), p') \<and> of_nat k \<le> tokens p' \<and> active p' = active p + 1
    \<and> maxConcurrent p' = maxConcurrent p \<and> limiter_inv p'"
proof -
  let ?p = "refill_with rnd now p"
  have t: "of_nat (Suc k) \<le> tokens ?p" using refill_ge [OF assms(1), of now] assms(2) by linarith
  then have "1 \<le> tokens ?p" "of_nat k \<le> tokens ?p - 1" by simp_all
  moreover have "rnd (of_nat k) \<le> rnd (tokens ?p - 1)"
    using \<open>of_nat k \<le> tokens ?p - 1\<close> by (intro rnd_mono) simp_all
  moreover have "rnd (of_nat k) = of_nat k"
    using is_float_int [of "int k"] assms(4) by (intro rnd_float) simp_all
  ultimately show ?thesis
    using acquire_inv [OF assms(1), of now] assms(3) by (auto simp: acquire_with_def Let_def)
qed

end


section \<open>Properties\<close>

text \<open>
  The limiter's invariant: a new limiter has it, and changing the limits, taking a dial,
  releasing a slot, tracking, untracking and reaping keep it. In floating point the bucket never
  goes below zero nor above its burst, the slot count is never negative, and no connection is
  tracked twice.
\<close>

theorem limiter_invariant:
  "(0 \<le> DialsPerSecond l \<longrightarrow> limiter_inv (newPeerLimiter now k l))
   \<and> (limiter_inv p \<longrightarrow> limiter_inv (snd (acquire now p)) \<and> limiter_inv (release p)
        \<and> limiter_inv (track c p) \<and> limiter_inv (untrack c p) \<and> limiter_inv (snd (closeLive p))
        \<and> (0 \<le> DialsPerSecond l \<longrightarrow> limiter_inv (setLimits l p)))"
  unfolding newPeerLimiter_def acquire_def setLimits_def
  by (intro conjI impI f64.newPeerLimiter_inv f64.acquire_inv f64.setLimits_inv
      release_inv track_inv untrack_inv closeLive_inv)

definition example_limits :: peerLimits where
  "example_limits = \<lparr>MaxConcurrent = 2, DialsPerSecond = 3\<rparr>"

theorem limiter_invariant_witness:
  "limiter_inv (newPeerLimiter 0 example_key example_limits)
     \<and> limiter_inv (snd (acquire 5 (newPeerLimiter 0 example_key example_limits)))"
  using limiter_invariant [of example_limits 0 example_key "newPeerLimiter 0 example_key example_limits" 0]
    limiter_invariant [of example_limits 5 example_key "newPeerLimiter 0 example_key example_limits" 0]
  by (simp add: example_limits_def)

text \<open>
  Claim C8. The dial rate is bounded, rounding included. Over any number of calls, at any instants
  up to a time \<open>T\<close>, in any order, the number of dials that are not refused for their rate is at
  most the tokens at the start, plus rate times elapsed seconds times \<open>(1 + 2\<^sup>-\<^sup>5\<^sup>3)\<^sup>4\<close>,
  plus \<open>2\<^sup>-\<^sup>5\<^sup>3\<close> of a full bucket per call.
\<close>

theorem dial_rate_bounded:
  assumes "limiter_inv p" "burst p \<le> 2 ^ 53" "pl_last p \<le> T" "\<forall>t \<in> set nows. t \<le> T"
  shows "of_nat (fst (run_acquire fl p nows)) \<le> tokens p
    + gain_factor * rate p * (of_int (T - pl_last p) / 1000000000)
    + of_nat (length nows) * (unit_roundoff * burst p)"
proof -
  obtain n p' where r: "run_acquire fl p nows = (n, p')" by fastforce
  have "0 \<le> gain_factor * rate p"
    using assms(1) by (intro mult_nonneg_nonneg) (auto simp: gain_factor_def limiter_inv_def)
  then have "gain_factor * rate p * (of_int (pl_last p' - pl_last p) / 1000000000)
      \<le> gain_factor * rate p * (of_int (T - pl_last p) / 1000000000)"
    using f64.run_acquire_last [OF r assms(3,4)] by (intro mult_left_mono divide_right_mono) simp_all
  then show ?thesis using f64.run_acquire_spends [OF assms(1,2) r] by (simp add: r)
qed

lemma example_limiter:
  "burst (newPeerLimiter now k example_limits) = 3" "tokens (newPeerLimiter now k example_limits) = 3"
  "pl_last (newPeerLimiter now k example_limits) = now" "rate (newPeerLimiter now k example_limits) = 3"
  "maxConcurrent (newPeerLimiter now k example_limits) = 2" "active (newPeerLimiter now k example_limits) = 0"
  using f64.rnd_float [of 3] is_float_int [of 3]
  by (simp_all add: newPeerLimiter_def newPeerLimiter_with_def setLimits_with_def Let_def example_limits_def)

lemma example_limiter_inv: "limiter_inv (newPeerLimiter now k example_limits)"
  using f64.newPeerLimiter_inv by (simp add: newPeerLimiter_def example_limits_def)

theorem dial_rate_bounded_witness:
  "of_nat (fst (run_acquire fl (newPeerLimiter 0 example_key example_limits) (replicate 5 0))) < (4 :: rat)"
  using dial_rate_bounded [OF example_limiter_inv, of 0 example_key 0 "replicate 5 0"]
  by (simp add: example_limiter unit_roundoff_def)

text \<open>
  Taking a dial, on every branch. With less than a token the call is refused for the
  rate and takes nothing; with a token but no free slot it is refused for concurrency and the
  token is spent; otherwise it is granted, one slot is taken, and the slots in use do not exceed
  the cap. A cap of zero or less therefore denies everything.
\<close>

theorem acquire_branches:
  "case acquire now p of ((why, ok), p') \<Rightarrow>
     (let t = tokens (refill_with fl now p) in
      (if t < 1 then why = ''dials_per_second'' \<and> \<not> ok \<and> p' = refill_with fl now p
       else tokens p' = fl (t - 1) \<and>
         (if active p \<ge> maxConcurrent p then why = ''max_concurrent'' \<and> \<not> ok \<and> active p' = active p
          else why = [] \<and> ok \<and> active p' = active p + 1 \<and> active p' \<le> maxConcurrent p'))
      \<and> live p' = live p \<and> maxConcurrent p' = maxConcurrent p \<and> pl_publicKey p' = pl_publicKey p)"
  by (auto simp: acquire_def acquire_with_def Let_def)

text \<open>
  A configured allowance is usable: when the bucket holds \<open>k + 1\<close> tokens and a slot is
  free the dial is granted whatever the instant, and at least \<open>k\<close> tokens remain. A fresh limiter
  therefore grants its whole burst, as far as there are slots.
\<close>

theorem acquire_allowance_usable:
  assumes "limiter_inv p" "of_nat (Suc k) \<le> tokens p" "active p < maxConcurrent p" "k \<le> 2 ^ 53"
  shows "\<exists>p'. acquire now p = (([], True), p') \<and> of_nat k \<le> tokens p' \<and> active p' = active p + 1
    \<and> maxConcurrent p' = maxConcurrent p \<and> limiter_inv p'"
  unfolding acquire_def by (rule f64.acquire_grants [OF assms])

theorem acquire_allowance_usable_witness:
  "\<exists>p1 p2. acquire 7 (newPeerLimiter 7 example_key example_limits) = (([], True), p1)
     \<and> acquire 7 p1 = (([], True), p2) \<and> active p2 = 2"
proof -
  let ?p = "newPeerLimiter 7 example_key example_limits"
  obtain p1 where p1: "acquire 7 ?p = (([], True), p1)" "2 \<le> tokens p1" "active p1 = 1"
      "maxConcurrent p1 = 2" "limiter_inv p1"
    using acquire_allowance_usable [OF example_limiter_inv, of 2 7 example_key 7] by (auto simp: example_limiter)
  obtain p2 where "acquire 7 p1 = (([], True), p2)" "active p2 = 2"
    using acquire_allowance_usable [OF p1(5), of 1 7] p1 by auto
  with p1 show ?thesis by blast
qed

end
