(* ===== verification/Scrub.thy ===== *)
theory Scrub
  imports Secret
begin

text \<open>
  \<^verbatim>\<open>scrubRef\<close> of \<^verbatim>\<open>src/server.go\<close>: a secret reference is removed from the text of an
  error before the error can reach a log line. Both the client and the server use it.
\<close>

section \<open>Definitions\<close>

definition redactedRefPlaceholder :: string where
  "redactedRefPlaceholder = ''[REDACTED REF]''"

text \<open>The loop over the suffixes that follow a colon.\<close>

function scrub_loop :: "string \<Rightarrow> string \<Rightarrow> string" where
  "scrub_loop rest msg =
     (case index_byte rest (CHR '':'') of
        None \<Rightarrow> msg
      | Some i \<Rightarrow>
          let rest' = drop (Suc i) rest in
          if rest' = [] then msg
          else scrub_loop rest' (replace_all msg rest' redactedRefPlaceholder))"
  by pat_completeness auto
termination
proof (relation "measure (\<lambda>(rest, msg). length rest)")
  fix rest msg :: string and i rest'
  assume "index_byte rest (CHR '':'') = Some i" "rest' = drop (Suc i) rest" "rest' \<noteq> []"
  then show "((rest', replace_all msg rest' redactedRefPlaceholder), rest, msg)
      \<in> measure (\<lambda>(rest, msg). length rest)" by simp
qed simp

declare scrub_loop.simps [simp del]

definition scrubRef :: "goerror option \<Rightarrow> SecretRef \<Rightarrow> goerror option" where
  "scrubRef err ref =
     (case err of
        None \<Rightarrow> None
      | Some e \<Rightarrow>
          let msg = replace_all (emsg e) ref redactedRefPlaceholder in
          Some (GoError (scrub_loop ref msg) (echain e)))"

text \<open>The reference itself and each non-empty tail of it that follows a colon.\<close>

function ref_tails :: "string \<Rightarrow> string list" where
  "ref_tails rest =
     (case index_byte rest (CHR '':'') of
        None \<Rightarrow> [rest]
      | Some i \<Rightarrow> if drop (Suc i) rest = [] then [rest] else rest # ref_tails (drop (Suc i) rest))"
  by pat_completeness auto
termination by (relation "measure length") auto

declare ref_tails.simps [simp del]

text \<open>
  A string that cannot be formed across or inside the placeholder: it has neither of its brackets
  and is no part of its words.
\<close>

definition scrubbable :: "string \<Rightarrow> bool" where
  "scrubbable t = (t \<noteq> [] \<and> CHR ''['' \<notin> set t \<and> CHR '']'' \<notin> set t
     \<and> \<not> str_contains ''REDACTED REF'' t)"

section \<open>Lemmas\<close>

lemma replace_nonempty_skip: "replace_nonempty old new n s = replace_nonempty old new 0 (drop n s)"
  by (induction old new n s rule: replace_nonempty.induct) auto

lemma placeholder_split: "redactedRefPlaceholder = CHR ''['' # ''REDACTED REF'' @ [CHR '']'']"
  by (simp add: redactedRefPlaceholder_def)

text \<open>A bracket-free prefix of the replaced text is a prefix of the text itself.\<close>

lemma replace_prefix:
  "CHR ''['' \<notin> set p \<Longrightarrow> prefix p (replace_nonempty old redactedRefPlaceholder 0 s) \<Longrightarrow> prefix p s"
proof (induction s arbitrary: p)
  case (Cons x xs)
  show ?case
  proof (cases p)
    case (Cons a p')
    with Cons.prems have "\<not> has_prefix (x # xs) old"
      by (auto simp: placeholder_split)
    with Cons Cons.prems Cons.IH [of p'] show ?thesis by auto
  qed simp
qed simp

lemma suffix_snoc_in: "suffix a (u @ [c]) \<Longrightarrow> a \<noteq> [] \<Longrightarrow> c \<in> set a"
  by (metis last_appendR last_in_set last_snoc suffix_def)

lemma sublist_bracketed:
  assumes "sublist t (l # m @ [r])" "t \<noteq> []" "l \<notin> set t" "r \<notin> set t"
  shows "sublist t m"
proof -
  have "\<not> prefix t (l # m @ [r])" using assms(2,3) by (cases t) auto
  then have "sublist t (m @ [r])" using assms(1) by (simp add: sublist_Cons_right)
  moreover have "\<not> sublist t [r]" using assms(2,4) by (cases t) (auto simp: sublist_Cons_right)
  moreover have "sublist t m" if "t = xs @ ys" "suffix xs m" "prefix ys [r]" for xs ys
    using that assms(4) by (cases ys) (auto intro: suffix_imp_sublist)
  ultimately show ?thesis unfolding sublist_append by blast
qed

lemma scrubbable_not_in_placeholder: "scrubbable t \<Longrightarrow> \<not> sublist t redactedRefPlaceholder"
  unfolding placeholder_split scrubbable_def str_contains_sublist using sublist_bracketed by metis

lemma replace_removes:
  assumes "scrubbable t"
  shows "\<not> sublist t (replace_nonempty t redactedRefPlaceholder 0 s)"
proof (induction s rule: length_induct)
  case (1 s)
  have ne: "t \<noteq> []" "CHR ''['' \<notin> set t" "CHR '']'' \<notin> set t" using assms by (auto simp: scrubbable_def)
  show ?case
  proof (cases s)
    case Nil
    then show ?thesis using ne by simp
  next
    case (Cons x xs)
    show ?thesis
    proof (cases "has_prefix (x # xs) t")
      case True
      define R where "R = replace_nonempty t redactedRefPlaceholder 0 (drop (length t - 1) xs)"
      have R: "replace_nonempty t redactedRefPlaceholder 0 s = redactedRefPlaceholder @ R"
        using True Cons replace_nonempty_skip [of t _ "length t - 1" xs] by (simp add: R_def)
      have "\<not> sublist t R" using "1" Cons by (simp add: R_def)
      have nosuf: "a = []" if "t = a @ b" "suffix a redactedRefPlaceholder" for a b
        using that ne suffix_snoc_in [of a "CHR ''['' # ''REDACTED REF''" "CHR '']''"]
        by (auto simp: placeholder_split)
      have "\<not> (\<exists>a b. t = a @ b \<and> suffix a redactedRefPlaceholder \<and> prefix b R)"
      proof
        assume "\<exists>a b. t = a @ b \<and> suffix a redactedRefPlaceholder \<and> prefix b R"
        then have "prefix t R" using nosuf by fastforce
        with \<open>\<not> sublist t R\<close> show False by (auto dest: prefix_imp_sublist)
      qed
      then show ?thesis
        using scrubbable_not_in_placeholder [OF assms] \<open>\<not> sublist t R\<close>
        unfolding R sublist_append by blast
    next
      case False
      then have R: "replace_nonempty t redactedRefPlaceholder 0 s =
          x # replace_nonempty t redactedRefPlaceholder 0 xs" using Cons by simp
      have "\<not> prefix t (replace_nonempty t redactedRefPlaceholder 0 s)"
        using False replace_prefix [OF ne(2), of t s] by (simp only: has_prefix_prefix Cons) blast
      moreover have "\<not> sublist t (replace_nonempty t redactedRefPlaceholder 0 xs)"
        using "1" Cons by simp
      ultimately show ?thesis unfolding R sublist_Cons_right by simp
    qed
  qed
qed

text \<open>The whole scrubbing is one replacement per tail, the reference first.\<close>

lemma ref_tails_unfold:
  "ref_tails r = r # (case index_byte r (CHR '':'') of
      None \<Rightarrow> [] | Some i \<Rightarrow> if drop (Suc i) r = [] then [] else ref_tails (drop (Suc i) r))"
  by (subst ref_tails.simps) (simp split: option.split)

lemma ref_tails_nonempty [simp]: "ref_tails r \<noteq> []"
  by (subst ref_tails_unfold) simp

lemma scrub_loop_fold:
  "scrub_loop r m = fold (\<lambda>t m. replace_all m t redactedRefPlaceholder) (tl (ref_tails r)) m"
proof (induction r m rule: scrub_loop.induct)
  case (1 rest msg)
  show ?case
  proof (cases "index_byte rest (CHR '':'')")
    case None
    then show ?thesis by (subst scrub_loop.simps, subst ref_tails_unfold) simp
  next
    case (Some i)
    have hd_tails: "ref_tails r = r # tl (ref_tails r)" for r by (subst (1 2) ref_tails_unfold) simp
    show ?thesis
    proof (cases "drop (Suc i) rest = []")
      case True
      with Some show ?thesis by (subst scrub_loop.simps, subst ref_tails_unfold) simp
    next
      case False
      with Some have "tl (ref_tails rest) = ref_tails (drop (Suc i) rest)"
        by (subst ref_tails_unfold) simp
      then have fld: "fold f (tl (ref_tails rest)) m
          = fold f (tl (ref_tails (drop (Suc i) rest))) (f (drop (Suc i) rest) m)" for f m
        by (metis hd_tails fold_simps(2))
      show ?thesis using "1.IH" [OF Some refl False] Some False
        by (subst scrub_loop.simps) (simp add: Let_def fld)
    qed
  qed
qed

lemma scrubRef_fold:
  "scrubRef (Some e) ref = Some (GoError
     (fold (\<lambda>t m. replace_all m t redactedRefPlaceholder) (ref_tails ref) (emsg e)) (echain e))"
proof -
  obtain ts where "ref_tails ref = ref # ts" using ref_tails_unfold by blast
  then show ?thesis by (simp add: scrubRef_def scrub_loop_fold)
qed

text \<open>Every tail ends with the last one, so once that is gone from a text they all are.\<close>

lemma ref_tails_suffix: "t \<in> set (ref_tails r) \<Longrightarrow> suffix (last (ref_tails r)) t"
proof (induction r arbitrary: t rule: ref_tails.induct)
  case (1 rest)
  define r' where "r' = tl (ref_tails rest)"
  have rt: "ref_tails rest = rest # r'" unfolding r'_def by (subst (1 2) ref_tails_unfold) simp
  show ?case
  proof (cases "r' = []")
    case True
    then show ?thesis using "1.prems" by (simp add: rt)
  next
    case False
    then obtain i where i: "index_byte rest (CHR '':'') = Some i" "drop (Suc i) rest \<noteq> []"
      and r': "r' = ref_tails (drop (Suc i) rest)"
      using rt by (subst (asm) ref_tails_unfold) (auto split: option.splits if_splits)
    have IH: "t \<in> set r' \<Longrightarrow> suffix (last r') t" for t using "1.IH" [OF i] r' by simp
    have "drop (Suc i) rest \<in> set r'" unfolding r' by (subst ref_tails_unfold) simp
    then have "suffix (last r') rest" using IH suffix_drop suffix_order.trans by blast
    then show ?thesis using "1.prems" IH False by (auto simp: rt)
  qed
qed

section \<open>Properties\<close>

text \<open>
  Claim C16. A scrubbed error does not carry the reference. Whatever the original message was, after
  scrubbing it contains neither the reference nor any of its tails after a colon (the path, the
  variable name, the secret id that the underlying store repeats), provided the shortest tail has
  no square bracket and is no part of the placeholder's own words; and the scrubbed error still
  unwraps to the same sentinels.
\<close>

theorem scrubRef_removes_reference:
  assumes "scrubbable (last (ref_tails ref))"
  shows "\<exists>e'. scrubRef (Some e) ref = Some e' \<and> echain e' = echain e
     \<and> (\<forall>t \<in> set (ref_tails ref). \<not> str_contains (emsg e') t)"
proof -
  let ?f = "\<lambda>t m. replace_all m t redactedRefPlaceholder" and ?l = "last (ref_tails ref)"
  define msg where "msg = fold ?f (ref_tails ref) (emsg e)"
  have "msg = ?f ?l (fold ?f (butlast (ref_tails ref)) (emsg e))"
    using fold_append [of ?f "butlast (ref_tails ref)" "[?l]"] by (simp add: msg_def)
  moreover have "?l \<noteq> []" using assms by (simp add: scrubbable_def)
  ultimately have "\<not> sublist ?l msg" using replace_removes [OF assms] by (simp add: replace_all_def)
  then have "\<not> sublist t msg" if "t \<in> set (ref_tails ref)" for t
    using ref_tails_suffix [OF that] suffix_imp_sublist sublist_order.order_trans by blast
  then show ?thesis unfolding scrubRef_fold msg_def [symmetric] by (simp add: str_contains_sublist)
qed

theorem scrubRef_removes_reference_witness:
  "ref_tails ''aws:sm:srv/k'' = [''aws:sm:srv/k'', ''sm:srv/k'', ''srv/k'']
   \<and> (\<exists>e'. scrubRef (Some (errors_New ''secret: aws: resolver: aws:sm:srv/k: no srv/k'')) ''aws:sm:srv/k''
         = Some e' \<and> \<not> str_contains (emsg e') ''srv/k'')"
proof -
  have tails: "ref_tails ''aws:sm:srv/k'' = [''aws:sm:srv/k'', ''sm:srv/k'', ''srv/k'']"
    by (simp add: ref_tails.simps)
  have "scrubbable (last (ref_tails ''aws:sm:srv/k''))"
    by (simp add: tails scrubbable_def str_contains_def)
  from scrubRef_removes_reference [OF this] show ?thesis by (simp add: tails) blast
qed

end
