(* ===== verification/Server.thy ===== *)
theory Server
  imports Watcher Device Limiter Scrub
begin

text \<open>
  \<^verbatim>\<open>src/server.go\<close> apart from the handling of one connection: construction and start-up, the
  secret cache, the per-peer tables, the hot reload and the shutdown. Limiters are objects shared
  between the tables and the connections, so they live in a store: a number is the address of a
  limiter, and two entries are the same limiter exactly when their numbers are equal. Reaped
  connections are recorded by the number of the live pair.
\<close>

section \<open>Definitions\<close>

definition tunnelServicePort :: "16 word" where "tunnelServicePort = 443"
definition backendDialTimeout :: duration where "backendDialTimeout = 10 * second"
definition shutdownDrainTimeout :: duration where "shutdownDrainTimeout = 30 * second"
definition secretResolveTimeout :: duration where "secretResolveTimeout = 30 * second"
definition unknownPeerName :: string where "unknownPeerName = ''unknown''"

record ServerConfig =
  sc_ListenPort :: int
  sc_PrivateKey :: SecretRef
  sc_TunnelIP :: addr
  sc_MTU :: int
  sc_PeersFile :: string
  sc_Resolver :: "SecretResolver option"

definition zero_ServerConfig :: ServerConfig where
  "zero_ServerConfig = \<lparr>sc_ListenPort = 0, sc_PrivateKey = [], sc_TunnelIP = AddrZero, sc_MTU = 0,
     sc_PeersFile = [], sc_Resolver = None\<rparr>"

definition ServerConfigFrom :: "ServerFileConfig option \<Rightarrow> ServerConfig" where
  "ServerConfigFrom fc = (case fc of
      None \<Rightarrow> zero_ServerConfig
    | Some f \<Rightarrow> \<lparr>sc_ListenPort = sfc_ListenPort f, sc_PrivateKey = sfc_PrivateKey f,
                 sc_TunnelIP = sfc_TunnelIP f, sc_MTU = sfc_MTU f, sc_PeersFile = sfc_PeersFile f,
                 sc_Resolver = None\<rparr>)"

record Server =
  sv_cfg :: ServerConfig
  sv_started :: bool
  sv_dev :: "tunnelDevice option"
  sv_watcher :: "peerWatcher option"
  sv_peerNames :: "(addr \<times> string) list"
  sv_limiters :: "(addr \<times> nat) list"
  sv_heap :: "nat \<Rightarrow> peerLimiter"
  sv_next :: nat
  sv_pskCache :: "(SecretRef \<times> secret) list"
  sv_reaped :: "nat list"

definition nil_limiter :: peerLimiter where
  "nil_limiter = \<lparr>pl_publicKey = [], maxConcurrent = 0, rate = 0, burst = 0, tokens = 0, pl_last = 0,
     active = 0, live = []\<rparr>"

text \<open>The field checks of \<^verbatim>\<open>NewServer\<close>, giving the normalized configuration.\<close>

definition server_checks :: "ServerConfig \<Rightarrow> ServerConfig result" where
  "server_checks cfg =
     (if sc_ListenPort cfg < 1 \<or> sc_ListenPort cfg > 65535
      then Inl (errors_New (''gocloak: server: listen port '' @ show_int (sc_ListenPort cfg) @ '' is not in 1-65535''))
      else case validSecretRef (sc_PrivateKey cfg) of
        Some err \<Rightarrow> Inl (errorf_w ''gocloak: server: private key: '' err '''')
      | None \<Rightarrow>
      if \<not> IsValid (sc_TunnelIP cfg) then Inl (errors_New ''gocloak: server: tunnel ip is required'')
      else if Unmap (sc_TunnelIP cfg) \<noteq> serverTunnelIP
      then Inl (errors_New (''gocloak: server: tunnel ip must be '' @ Addr_String serverTunnelIP
             @ '' (spec section 3.2)''))
      else let mtu = (if sc_MTU cfg = 0 then DefaultMTU else sc_MTU cfg) in
      if mtu < minMTU \<or> mtu > maxMTU
      then Inl (errors_New (''gocloak: server: mtu '' @ show_int mtu @ '' is not in '' @ show_int minMTU
             @ ''-'' @ show_int maxMTU))
      else if sc_PeersFile cfg = [] then Inl (errors_New ''gocloak: server: peers file is required'')
      else Inr (cfg\<lparr>sc_MTU := mtu, sc_TunnelIP := Unmap (sc_TunnelIP cfg)\<rparr>))"

definition NewServer :: "fsenv \<Rightarrow> ServerConfig \<Rightarrow> Server result" where
  "NewServer env cfg =
     andThen (server_checks cfg) (\<lambda>cfg'.
     andThen (load_peers env (sc_PeersFile cfg')) (\<lambda>_.
       Inr \<lparr>sv_cfg = cfg', sv_started = False, sv_dev = None, sv_watcher = None, sv_peerNames = [],
            sv_limiters = [], sv_heap = (\<lambda>_. nil_limiter), sv_next = 0, sv_pskCache = [], sv_reaped = []\<rparr>))"

subsection \<open>Secrets\<close>

definition resolveSecret :: "osworld \<Rightarrow> SecretRef \<Rightarrow> Server \<Rightarrow> secret result \<times> Server" where
  "resolveSecret osw ref s =
     (case map_of (sv_pskCache s) ref of
        Some sec \<Rightarrow> (Inr sec, s)
      | None \<Rightarrow>
          (case secret_Resolve (sc_Resolver (sv_cfg s)) osw ref of
             Inl err \<Rightarrow> (Inl (the (scrubRef (Some err) ref)), s)
           | Inr sec \<Rightarrow> (Inr sec, s\<lparr>sv_pskCache := AList.update ref sec (sv_pskCache s)\<rparr>)))"

definition in_force :: "Server \<Rightarrow> peerConfig list" where
  "in_force s = (case sv_watcher s of None \<Rightarrow> [] | Some w \<Rightarrow> cfg_peers (pw_Config w))"

definition pruneSecretCache :: "Server \<Rightarrow> Server" where
  "pruneSecretCache s =
     s\<lparr>sv_pskCache := filter (\<lambda>(ref, _). ref = sc_PrivateKey (sv_cfg s)
          \<or> List.member (map pc_PSK (in_force s)) ref) (sv_pskCache s)\<rparr>"

subsection \<open>Peer tables\<close>

definition peerName :: "Server \<Rightarrow> addr \<Rightarrow> string" where
  "peerName s ip = (case map_of (sv_peerNames s) (Unmap ip) of Some name \<Rightarrow> name | None \<Rightarrow> unknownPeerName)"

definition limiterFor :: "Server \<Rightarrow> addr \<Rightarrow> nat option" where
  "limiterFor s ip = map_of (sv_limiters s) (Unmap ip)"

text \<open>
  The loop of \<^verbatim>\<open>refreshPeers\<close>: the names and limiters built so far, the store, the next free
  address. The instant at which a new limiter object is created is \<open>clock\<close> of its address.
\<close>

fun refresh_loop :: "(nat \<Rightarrow> time) \<Rightarrow> (addr \<times> nat) list \<Rightarrow> peerConfig list
    \<Rightarrow> (addr \<times> string) list \<times> (addr \<times> nat) list \<times> (nat \<Rightarrow> peerLimiter) \<times> nat
    \<Rightarrow> (addr \<times> string) list \<times> (addr \<times> nat) list \<times> (nat \<Rightarrow> peerLimiter) \<times> nat" where
  "refresh_loop clock old [] acc = acc"
| "refresh_loop clock old (p # ps) (names, lims, heap, nxt) =
     (let ip = Unmap (pc_TunnelIP p); names' = AList.update ip (pc_Name p) names in
      case map_of old ip of
        Some l \<Rightarrow>
          if pl_publicKey (heap l) = pc_PublicKey p
          then refresh_loop clock old ps
                 (names', AList.update ip l lims, heap(l := setLimits (pc_Limits p) (heap l)), nxt)
          else refresh_loop clock old ps
                 (names', AList.update ip nxt lims,
                  heap(nxt := newPeerLimiter (clock nxt) (pc_PublicKey p) (pc_Limits p)), Suc nxt)
      | None \<Rightarrow> refresh_loop clock old ps
                 (names', AList.update ip nxt lims,
                  heap(nxt := newPeerLimiter (clock nxt) (pc_PublicKey p) (pc_Limits p)), Suc nxt))"

text \<open>The part under the lock: the new tables and the limiters that are gone.\<close>

definition refresh_locked :: "(nat \<Rightarrow> time) \<Rightarrow> peerConfig list \<Rightarrow> Server \<Rightarrow> nat list \<times> Server" where
  "refresh_locked clock peers s =
     (case refresh_loop clock (sv_limiters s) peers ([], [], sv_heap s, sv_next s) of
        (names, lims, heap, nxt) \<Rightarrow>
          (filter (\<lambda>l. \<not> List.member (map snd lims) l) (map snd (sv_limiters s)),
           s\<lparr>sv_peerNames := names, sv_limiters := lims, sv_heap := heap, sv_next := nxt\<rparr>))"

text \<open>\<^verbatim>\<open>closeLive\<close> of the limiter at an address: its live pairs are closed.\<close>

definition close_limiter :: "nat \<Rightarrow> Server \<Rightarrow> Server" where
  "close_limiter l s =
     (case closeLive (sv_heap s l) of (conns, p) \<Rightarrow>
        s\<lparr>sv_heap := (sv_heap s)(l := p), sv_reaped := sv_reaped s @ conns\<rparr>)"

definition refreshPeers :: "(nat \<Rightarrow> time) \<Rightarrow> PeersConfig \<Rightarrow> Server \<Rightarrow> Server" where
  "refreshPeers clock cfg s = (case refresh_locked clock (cfg_peers cfg) s of
      (gone, s1) \<Rightarrow> fold close_limiter gone s1)"

definition closeLiveConns :: "Server \<Rightarrow> Server" where
  "closeLiveConns s = fold close_limiter (map snd (sv_limiters s)) s"

subsection \<open>Applying peers to the device\<close>

text \<open>
  The device methods are reached through a handle that exists: every caller checked or created it.
\<close>

definition srv_applyPeer :: "'w wglib \<Rightarrow> osworld \<Rightarrow> peerConfig \<Rightarrow> bool \<Rightarrow> Server \<times> 'w
    \<Rightarrow> goerror option \<times> Server \<times> 'w" where
  "srv_applyPeer lib osw p updateOnly = (\<lambda>(s, w).
     case resolveSecret osw (pc_PSK p) s of
       (Inl err, s1) \<Rightarrow> (Some (errorf_w (''gocloak: server: peer '' @ pc_Name p @ '': psk: '') err ''''), s1, w)
     | (Inr psk, s1) \<Rightarrow>
         let dp = \<lparr>dp_PublicKey = pc_PublicKey p, dp_PresharedKey = psk, dp_AllowedIP = pc_TunnelIP p,
                   dp_Endpoint = addrport_zero\<rparr> in
         (case (if updateOnly then UpdatePeer lib (the (sv_dev s1)) dp w else AddPeer lib (the (sv_dev s1)) dp w) of
            (Some err, w') \<Rightarrow> (Some (errorf_w (''gocloak: server: peer '' @ pc_Name p @ '': '') err ''''), s1, w')
          | (None, w') \<Rightarrow> (None, s1, w')))"

text \<open>\<^verbatim>\<open>errors.Join\<close>.\<close>

definition errors_Join :: "goerror list \<Rightarrow> goerror option" where
  "errors_Join es = (if es = [] then None
     else Some (GoError (str_join (map emsg es) [CHR 0x0A]) (concat (map echain es))))"

text \<open>The three loops of \<^verbatim>\<open>applyDiff\<close>, each collecting its errors.\<close>

fun revoke_loop :: "'w wglib \<Rightarrow> peerConfig list \<Rightarrow> Server \<times> 'w \<Rightarrow> goerror list \<times> Server \<times> 'w" where
  "revoke_loop lib [] (s, w) = ([], s, w)"
| "revoke_loop lib (p # ps) (s, w) =
     (case RemovePeer lib (the (sv_dev s)) (pc_PublicKey p) w of
        (Some err, w1) \<Rightarrow>
          (case revoke_loop lib ps (s, w1) of (errs, r) \<Rightarrow>
             (errorf_w (''revoke peer '' @ pc_Name p @ '': '') err '''' # errs, r))
      | (None, w1) \<Rightarrow> revoke_loop lib ps (s, w1))"

fun apply_loop :: "'w wglib \<Rightarrow> osworld \<Rightarrow> bool \<Rightarrow> peerConfig list \<Rightarrow> Server \<times> 'w
    \<Rightarrow> goerror list \<times> Server \<times> 'w" where
  "apply_loop lib osw updateOnly [] st = ([], st)"
| "apply_loop lib osw updateOnly (p # ps) st =
     (case srv_applyPeer lib osw p updateOnly st of
        (Some err, st1) \<Rightarrow> (case apply_loop lib osw updateOnly ps st1 of (errs, r) \<Rightarrow> (err # errs, r))
      | (None, st1) \<Rightarrow> apply_loop lib osw updateOnly ps st1)"

definition applyDiff :: "'w wglib \<Rightarrow> osworld \<Rightarrow> peerDiff \<Rightarrow> Server \<times> 'w \<Rightarrow> goerror option \<times> Server \<times> 'w" where
  "applyDiff lib osw d st =
     (if sv_dev (fst st) = None
      then (Some (errors_New ''gocloak: server: reload arrived before the device existed''), st)
      else case revoke_loop lib (Removed d) st of (e1, st1) \<Rightarrow>
        (case apply_loop lib osw False (Added d) st1 of (e2, st2) \<Rightarrow>
          (case apply_loop lib osw True (Changed d) st2 of (e3, st3) \<Rightarrow>
             (errors_Join (e1 @ e2 @ e3), st3))))"

text \<open>
  \<^verbatim>\<open>handleReload\<close>: the watcher has already published the new list when the callback runs, so
  the server's watcher field holds it. The value returned is what \<^verbatim>\<open>notifyReload\<close> passes on.
\<close>

definition handleReload :: "'w wglib \<Rightarrow> osworld \<Rightarrow> (nat \<Rightarrow> time) \<Rightarrow> reloadResult \<Rightarrow> Server \<times> 'w
    \<Rightarrow> goerror option \<times> Server \<times> 'w" where
  "handleReload lib osw clock r = (\<lambda>(s, w).
     if rr_Err r \<noteq> None then (None, s, w)
     else
       let s1 = refreshPeers clock (pw_Config (the (sv_watcher s))) s in
       (case applyDiff lib osw (rr_Diff r) (s1, w) of (applyErr, s2, w') \<Rightarrow>
          (applyErr, pruneSecretCache s2, w')))"

text \<open>A reload of the watcher followed by its report to the server.\<close>

definition server_reload :: "'w wglib \<Rightarrow> osworld \<Rightarrow> fsenv \<Rightarrow> (nat \<Rightarrow> time) \<Rightarrow> Server \<times> 'w
    \<Rightarrow> goerror option \<times> Server \<times> 'w" where
  "server_reload lib osw env clock = (\<lambda>(s, w).
     case reload env (the (sv_watcher s)) of (r, wt) \<Rightarrow>
       handleReload lib osw clock r (s\<lparr>sv_watcher := Some wt\<rparr>, w))"

subsection \<open>Start-up and shutdown\<close>

text \<open>The loop of \<^verbatim>\<open>Run\<close> over the initial peers: the first failure stops it.\<close>

fun initial_loop :: "'w wglib \<Rightarrow> osworld \<Rightarrow> peerConfig list \<Rightarrow> Server \<times> 'w \<Rightarrow> goerror option \<times> Server \<times> 'w" where
  "initial_loop lib osw [] st = (None, st)"
| "initial_loop lib osw (p # ps) st =
     (case srv_applyPeer lib osw p False st of
        (Some err, st1) \<Rightarrow> (Some err, st1)
      | (None, st1) \<Rightarrow> initial_loop lib osw ps st1)"

text \<open>
  The deferred calls of \<^verbatim>\<open>Run\<close>, pushed in the order of the code as far as the run got; they
  are executed in reverse. What they do to the server and the libraries is \<open>run_action\<close>: the
  listener, the run's context and the waits are not part of that state. Nothing of the library reports
  an error here that the code would read.
\<close>

datatype runAction =
    CloseWatcher | CloseDevice | CloseListener | ReapConnections | WaitHandlers | WaitWatcher | CancelContext

datatype runPhase = AfterWatcher | AfterDevice | AfterListen

definition drainConnections :: "runAction list" where
  "drainConnections = [CloseListener, ReapConnections, WaitHandlers]"

definition run_defers :: "runPhase \<Rightarrow> runAction list list" where
  "run_defers ph = (case ph of
      AfterWatcher \<Rightarrow> [[CloseWatcher]]
    | AfterDevice \<Rightarrow> [[CloseWatcher], [CloseDevice]]
    | AfterListen \<Rightarrow> [[CloseWatcher], [CloseDevice], drainConnections, [WaitWatcher], [CancelContext]])"

definition run_exit :: "runPhase \<Rightarrow> runAction list" where
  "run_exit ph = concat (rev (run_defers ph))"

definition close_watcher :: "Server \<Rightarrow> Server" where
  "close_watcher s = s\<lparr>sv_watcher := map_option (\<lambda>w. snd (pw_Close w None)) (sv_watcher s)\<rparr>"

definition close_device :: "'w wglib \<Rightarrow> Server \<times> 'w \<Rightarrow> Server \<times> 'w" where
  "close_device lib = (\<lambda>(s, w). case sv_dev s of
      None \<Rightarrow> (s, w)
    | Some d \<Rightarrow> (case dev_Close lib d w of (_, d', w') \<Rightarrow> (s\<lparr>sv_dev := Some d'\<rparr>, w')))"

definition run_action :: "'w wglib \<Rightarrow> runAction \<Rightarrow> Server \<times> 'w \<Rightarrow> Server \<times> 'w" where
  "run_action lib a st = (case a of
      CloseWatcher \<Rightarrow> (close_watcher (fst st), snd st)
    | CloseDevice \<Rightarrow> close_device lib st
    | ReapConnections \<Rightarrow> (closeLiveConns (fst st), snd st)
    | _ \<Rightarrow> st)"

definition unwind :: "'w wglib \<Rightarrow> runPhase \<Rightarrow> Server \<times> 'w \<Rightarrow> Server \<times> 'w" where
  "unwind lib ph = fold (run_action lib) (run_exit ph)"

text \<open>
  \<^verbatim>\<open>Run\<close> up to the accept loop: \<open>None\<close> means that the server listens. The netstack listener is
  a parameter. A failure unwinds what was deferred so far.
\<close>

definition run_startup :: "'w wglib \<Rightarrow> osworld \<Rightarrow> fsenv \<Rightarrow> (nat \<Rightarrow> time) \<Rightarrow> (addrport \<Rightarrow> 'w \<Rightarrow> goerror option \<times> 'w)
    \<Rightarrow> Server \<times> 'w \<Rightarrow> goerror option \<times> Server \<times> 'w" where
  "run_startup lib osw env clock listen = (\<lambda>(s, w).
     if sv_started s then (Some (errors_New ''gocloak: server: Run has already been called''), s, w)
     else let s0 = s\<lparr>sv_started := True\<rparr> in
     case resolveSecret osw (sc_PrivateKey (sv_cfg s0)) s0 of
       (Inl err, s1) \<Rightarrow> (Some (errorf_w ''gocloak: server: private key: '' err ''''), s1, w)
     | (Inr privateKey, s1) \<Rightarrow>
     (case newPeerWatcher env (sc_PeersFile (sv_cfg s1)) of
       Inl err \<Rightarrow> (Some err, s1, w)
     | Inr wt \<Rightarrow>
     let s2 = s1\<lparr>sv_watcher := Some wt\<rparr> in
     (case newTunnelDevice lib \<lparr>do_TunnelIP = sc_TunnelIP (sv_cfg s2), do_MTU = sc_MTU (sv_cfg s2),
           do_PrivateKey = privateKey, do_ListenPort = sc_ListenPort (sv_cfg s2), do_LogLevel = 1\<rparr> w of
       (Inl err, w1) \<Rightarrow> (Some err, unwind lib AfterWatcher (s2, w1))
     | (Inr dev, w1) \<Rightarrow>
     let s3 = s2\<lparr>sv_dev := Some dev\<rparr>; initial = pw_Config wt in
     (case initial_loop lib osw (cfg_peers initial) (s3, w1) of
       (Some err, s4, w2) \<Rightarrow> (Some err, unwind lib AfterDevice (s4, w2))
     | (None, s4, w2) \<Rightarrow>
     let s5 = refreshPeers clock initial s4 in
     (case listen (AddrPort (sc_TunnelIP (sv_cfg s5)) tunnelServicePort) w2 of
       (Some err, w3) \<Rightarrow>
         (Some (errorf_w (''gocloak: server: listen on '' @ Addr_String (sc_TunnelIP (sv_cfg s5)) @ '':''
                  @ show_nat (unat tunnelServicePort) @ '': '') err ''''), unwind lib AfterDevice (s5, w3))
     | (None, w3) \<Rightarrow> (None, s5, w3))))))"

section \<open>Lemmas\<close>

subsection \<open>Refreshing the tables\<close>

definition keeps :: "(addr \<times> nat) list \<Rightarrow> (nat \<Rightarrow> peerLimiter) \<Rightarrow> peerConfig \<Rightarrow> nat \<Rightarrow> bool" where
  "keeps old heap0 p l = (map_of old (Unmap (pc_TunnelIP p)) = Some l \<and> pl_publicKey (heap0 l) = pc_PublicKey p)"

text \<open>The limiter a peer gets: the one it had, with its new limits, or a new one.\<close>

definition limiter_of :: "(nat \<Rightarrow> time) \<Rightarrow> (addr \<times> nat) list \<Rightarrow> (nat \<Rightarrow> peerLimiter) \<Rightarrow> nat \<Rightarrow> (nat \<Rightarrow> peerLimiter)
    \<Rightarrow> peerConfig \<Rightarrow> nat \<Rightarrow> bool" where
  "limiter_of clock old heap0 nxt0 heap p l =
     (if keeps old heap0 p l then heap l = setLimits (pc_Limits p) (heap0 l)
      else (\<forall>k. \<not> keeps old heap0 p k) \<and> nxt0 \<le> l
        \<and> heap l = newPeerLimiter (clock l) (pc_PublicKey p) (pc_Limits p))"

definition refreshed :: "(nat \<Rightarrow> time) \<Rightarrow> (addr \<times> nat) list \<Rightarrow> (nat \<Rightarrow> peerLimiter) \<Rightarrow> nat \<Rightarrow> peerConfig list
    \<Rightarrow> (addr \<times> string) list \<times> (addr \<times> nat) list \<times> (nat \<Rightarrow> peerLimiter) \<times> nat \<Rightarrow> bool" where
  "refreshed clock old heap0 nxt0 ps = (\<lambda>(names, lims, heap, nxt).
     nxt0 \<le> nxt \<and> names = map (\<lambda>p. (Unmap (pc_TunnelIP p), pc_Name p)) ps
     \<and> list_all2 (\<lambda>p (ip, l). ip = Unmap (pc_TunnelIP p) \<and> l < nxt \<and> limiter_of clock old heap0 nxt0 heap p l) ps lims
     \<and> distinct (map snd lims)
     \<and> (\<forall>l < nxt0. l \<notin> snd ` set lims \<longrightarrow> heap l = heap0 l)
     \<and> (\<forall>l. nxt0 \<le> l \<and> l < nxt \<longrightarrow> l \<in> snd ` set lims))"

lemma AList_update_fresh: "k \<notin> fst ` set al \<Longrightarrow> AList.update k v al = al @ [(k, v)]"
  by (induction al) auto

lemma refreshed_fst:
  "refreshed clock old heap0 nxt0 ps (names, lims, heap, nxt) \<Longrightarrow> map fst lims = map (\<lambda>p. Unmap (pc_TunnelIP p)) ps"
proof -
  have "list_all2 (\<lambda>p e. fst e = Unmap (pc_TunnelIP p)) ps lims \<Longrightarrow> map fst lims = map (\<lambda>p. Unmap (pc_TunnelIP p)) ps"
    by (induction rule: list_all2_induct) auto
  moreover have "refreshed clock old heap0 nxt0 ps (names, lims, heap, nxt) \<Longrightarrow>
      list_all2 (\<lambda>p e. fst e = Unmap (pc_TunnelIP p)) ps lims"
    unfolding refreshed_def by (auto elim!: list_all2_mono)
  ultimately show "refreshed clock old heap0 nxt0 ps (names, lims, heap, nxt) \<Longrightarrow> ?thesis" by blast
qed

lemma refreshed_entry:
  assumes "refreshed clock old heap0 nxt0 ps (names, lims, heap, nxt)" "(ip, l) \<in> set lims"
  obtains p where "p \<in> set ps" "ip = Unmap (pc_TunnelIP p)" "l < nxt" "limiter_of clock old heap0 nxt0 heap p l"
proof -
  have "list_all2 (\<lambda>p (ip, l). ip = Unmap (pc_TunnelIP p) \<and> l < nxt \<and> limiter_of clock old heap0 nxt0 heap p l) ps lims"
    using assms(1) by (simp add: refreshed_def)
  moreover obtain i where "i < length lims" "lims ! i = (ip, l)" using assms(2) by (metis in_set_conv_nth)
  ultimately have "ps ! i \<in> set ps" "ip = Unmap (pc_TunnelIP (ps ! i))" "l < nxt"
      "limiter_of clock old heap0 nxt0 heap (ps ! i) l"
    by (auto simp: list_all2_conv_all_nth)
  then show thesis by (rule that)
qed

lemma refreshed_bound: "refreshed clock old heap0 nxt0 ps (names, lims, heap, nxt) \<Longrightarrow> l \<in> snd ` set lims \<Longrightarrow> l < nxt"
proof -
  assume r: "refreshed clock old heap0 nxt0 ps (names, lims, heap, nxt)" and "l \<in> snd ` set lims"
  then obtain ip where "(ip, l) \<in> set lims" by force
  then show "l < nxt" by (rule refreshed_entry [OF r])
qed

text \<open>One more entry, at a limiter no earlier entry uses.\<close>

lemma refreshed_snoc:
  assumes r: "refreshed clock old heap0 nxt0 ps (names, lims, heap, nxt)"
    and l: "l \<notin> snd ` set lims" "l < nxt'" "nxt' = nxt \<or> nxt' = Suc nxt \<and> l = nxt"
    and p: "limiter_of clock old heap0 nxt0 (heap(l := v)) p l"
    and ip: "Unmap (pc_TunnelIP p) \<notin> (\<lambda>p. Unmap (pc_TunnelIP p)) ` set ps"
  shows "refreshed clock old heap0 nxt0 (ps @ [p])
    (AList.update (Unmap (pc_TunnelIP p)) (pc_Name p) names, AList.update (Unmap (pc_TunnelIP p)) l lims, heap(l := v), nxt')"
proof -
  have f: "fst ` set lims = (\<lambda>p. Unmap (pc_TunnelIP p)) ` set ps"
    using refreshed_fst [OF r] by (metis list.set_map)
  have n: "fst ` set names = (\<lambda>p. Unmap (pc_TunnelIP p)) ` set ps"
    using r by (auto simp: refreshed_def image_iff)
  have "list_all2 (\<lambda>p (ip, k). ip = Unmap (pc_TunnelIP p) \<and> k < nxt' \<and> limiter_of clock old heap0 nxt0 (heap(l := v)) p k) ps lims"
  proof -
    have "list_all2 (\<lambda>p (ip, k). ip = Unmap (pc_TunnelIP p) \<and> k < nxt \<and> limiter_of clock old heap0 nxt0 heap p k) ps lims"
      using r by (simp add: refreshed_def)
    then show ?thesis
    proof (rule list.rel_mono_strong)
      fix q e
      assume "e \<in> set lims" "case e of (ip, k) \<Rightarrow> ip = Unmap (pc_TunnelIP q) \<and> k < nxt \<and> limiter_of clock old heap0 nxt0 heap q k"
      then show "case e of (ip, k) \<Rightarrow> ip = Unmap (pc_TunnelIP q) \<and> k < nxt' \<and> limiter_of clock old heap0 nxt0 (heap(l := v)) q k"
        using l by (cases e) (auto simp: limiter_of_def image_iff)
    qed
  qed
  then have "list_all2 (\<lambda>p (ip, k). ip = Unmap (pc_TunnelIP p) \<and> k < nxt' \<and> limiter_of clock old heap0 nxt0 (heap(l := v)) p k)
      (ps @ [p]) (lims @ [(Unmap (pc_TunnelIP p), l)])"
    by (rule list_all2_appendI) (simp add: l p)
  then show ?thesis
    using r l ip f n by (auto simp: refreshed_def AList_update_fresh less_Suc_eq)
qed

text \<open>The limiter that the old table has for an address not yet rebuilt is still untouched.\<close>

lemma refreshed_unused:
  assumes r: "refreshed clock old heap0 nxt0 ds (names, lims, heap, nxt)"
    and old: "distinct (map snd old)" "\<forall>e \<in> set old. snd e < nxt0"
    and ip: "ip \<notin> (\<lambda>p. Unmap (pc_TunnelIP p)) ` set ds" and o: "map_of old ip = Some l"
  shows "pl_publicKey (heap l) = pl_publicKey (heap0 l) \<and> l \<notin> snd ` set lims"
proof -
  have l0: "l < nxt0" using map_of_SomeD [OF o] old(2) by auto
  have "l \<notin> snd ` set lims"
  proof
    assume "l \<in> snd ` set lims"
    then obtain ip' where "(ip', l) \<in> set lims" by force
    then obtain q where q: "q \<in> set ds" "limiter_of clock old heap0 nxt0 heap q l" using refreshed_entry [OF r] by metis
    then have "map_of old (Unmap (pc_TunnelIP q)) = Some l"
      using l0 by (auto simp: limiter_of_def keeps_def split: if_splits)
    then have "(Unmap (pc_TunnelIP q), l) \<in> set old" "(ip, l) \<in> set old" using o by (auto dest: map_of_SomeD)
    then have "Unmap (pc_TunnelIP q) = ip"
      using old(1) by (metis (no_types, lifting) distinct_map inj_on_def prod.inject snd_conv)
    then show False using q(1) ip by (metis image_eqI)
  qed
  then show ?thesis using r l0 by (simp add: refreshed_def)
qed

lemma refresh_loop_refreshed:
  assumes "refreshed clock old heap0 nxt0 ds acc"
    and "distinct (map snd old)" "\<forall>e \<in> set old. snd e < nxt0"
    and "distinct (map (\<lambda>p. Unmap (pc_TunnelIP p)) (ds @ ps))"
  shows "refreshed clock old heap0 nxt0 (ds @ ps) (refresh_loop clock old ps acc)"
  using assms(1,4)
proof (induction ps arbitrary: ds acc)
  case Nil
  then show ?case by simp
next
  case (Cons p ps)
  obtain names lims heap nxt where acc: "acc = (names, lims, heap, nxt)" by (metis prod.collapse)
  note r = Cons.prems(1) [unfolded acc]
  let ?ip = "Unmap (pc_TunnelIP p)"
  have ip: "?ip \<notin> (\<lambda>p. Unmap (pc_TunnelIP p)) ` set ds" using Cons.prems(2) by auto
  note pk = refreshed_unused [OF r assms(2,3) ip]
  show ?case
  proof (cases "\<exists>l. keeps old heap0 p l")
    case True
    then obtain l where k: "map_of old ?ip = Some l" "pl_publicKey (heap0 l) = pc_PublicKey p" by (auto simp: keeps_def)
    have l: "l \<notin> snd ` set lims" "heap l = heap0 l" "l < nxt"
      using pk [OF k(1)] r map_of_SomeD [OF k(1)] assms(3) by (auto simp: refreshed_def)
    have "refreshed clock old heap0 nxt0 (ds @ [p]) (AList.update ?ip (pc_Name p) names, AList.update ?ip l lims,
        heap(l := setLimits (pc_Limits p) (heap l)), nxt)"
      by (rule refreshed_snoc [OF r l(1,3) disjI1 [OF refl] _ ip]) (simp add: limiter_of_def keeps_def k l)
    then show ?thesis
      using Cons.IH [of "ds @ [p]"] Cons.prems(2) k pk [OF k(1)] by (simp add: acc Let_def)
  next
    case False
    have l: "nxt \<notin> snd ` set lims" using refreshed_bound [OF r] by blast
    have "nxt0 \<le> nxt" using r by (simp add: refreshed_def)
    then have "refreshed clock old heap0 nxt0 (ds @ [p]) (AList.update ?ip (pc_Name p) names, AList.update ?ip nxt lims,
        heap(nxt := newPeerLimiter (clock nxt) (pc_PublicKey p) (pc_Limits p)), Suc nxt)"
      using False by (intro refreshed_snoc [OF r l _ _ _ ip]) (simp_all add: limiter_of_def)
    moreover have "refresh_loop clock old (p # ps) acc = refresh_loop clock old ps
        (AList.update ?ip (pc_Name p) names, AList.update ?ip nxt lims,
         heap(nxt := newPeerLimiter (clock nxt) (pc_PublicKey p) (pc_Limits p)), Suc nxt)"
      using False pk by (auto simp: acc Let_def keeps_def split: option.splits)
    ultimately show ?thesis using Cons.IH [of "ds @ [p]"] Cons.prems(2) by simp
  qed
qed


text \<open>The invariant of the tables.\<close>

definition tables_inv :: "Server \<Rightarrow> bool" where
  "tables_inv s = (distinct (map fst (sv_limiters s)) \<and> distinct (map snd (sv_limiters s))
     \<and> (\<forall>e \<in> set (sv_limiters s). snd e < sv_next s) \<and> (\<forall>l < sv_next s. limiter_inv (sv_heap s l)))"

lemma peers_wf_ips: "peers_wf ps \<Longrightarrow> p \<in> set ps \<Longrightarrow> Unmap (pc_TunnelIP p) = pc_TunnelIP p"
  using tunnel_hosts_unmapped by (auto simp: peers_wf_def peer_wf_def list_all_iff)

lemma peers_wf_distinct_ips: "peers_wf ps \<Longrightarrow> distinct (map (\<lambda>p. Unmap (pc_TunnelIP p)) ps)"
proof -
  assume wf: "peers_wf ps"
  then have "map (\<lambda>p. Unmap (pc_TunnelIP p)) ps = map pc_TunnelIP ps"
    using peers_wf_ips by (intro map_cong) simp_all
  then show ?thesis using wf unfolding peers_wf_def by metis
qed

lemma refresh_locked_refreshed:
  assumes "tables_inv s" "peers_wf ps" "refresh_locked clock ps s = (gone, s')"
  shows "refreshed clock (sv_limiters s) (sv_heap s) (sv_next s) ps
      (sv_peerNames s', sv_limiters s', sv_heap s', sv_next s')"
    and "gone = filter (\<lambda>l. \<not> List.member (map snd (sv_limiters s')) l) (map snd (sv_limiters s))"
    and "sv_reaped s' = sv_reaped s"
proof -
  let ?r = "refresh_loop clock (sv_limiters s) ps ([], [], sv_heap s, sv_next s)"
  have "refreshed clock (sv_limiters s) (sv_heap s) (sv_next s) ([] @ ps) ?r"
    using assms(1) peers_wf_distinct_ips [OF assms(2)]
    by (intro refresh_loop_refreshed) (auto simp: refreshed_def tables_inv_def)
  then show "refreshed clock (sv_limiters s) (sv_heap s) (sv_next s) ps
      (sv_peerNames s', sv_limiters s', sv_heap s', sv_next s')"
    and "gone = filter (\<lambda>l. \<not> List.member (map snd (sv_limiters s')) l) (map snd (sv_limiters s))"
    and "sv_reaped s' = sv_reaped s"
    using assms(3) by (cases ?r, auto simp: refresh_locked_def)+
qed

lemma setLimits_fields [simp]:
  "pl_publicKey (setLimits l p) = pl_publicKey p" "active (setLimits l p) = active p"
  "live (setLimits l p) = live p" "maxConcurrent (setLimits l p) = MaxConcurrent l"
  "pl_last (setLimits l p) = pl_last p"
  by (simp_all add: setLimits_def setLimits_with_def Let_def)

lemma newPeerLimiter_fields [simp]:
  "pl_publicKey (newPeerLimiter now k l) = k" "active (newPeerLimiter now k l) = 0"
  "live (newPeerLimiter now k l) = []" "maxConcurrent (newPeerLimiter now k l) = MaxConcurrent l"
  by (simp_all add: newPeerLimiter_def newPeerLimiter_with_def setLimits_with_def Let_def)

lemma limiter_of_inv:
  assumes "limiter_of clock old heap0 nxt0 heap p l" "\<forall>l < nxt0. limiter_inv (heap0 l)"
    "\<forall>e \<in> set old. snd e < nxt0" "peer_wf p"
  shows "limiter_inv (heap l)"
proof -
  have d: "0 \<le> DialsPerSecond (pc_Limits p)" using assms(4) by (simp add: peer_wf_def)
  show ?thesis
  proof (cases "keeps old heap0 p l")
    case True
    then have "l < nxt0" using assms(3) by (auto simp: keeps_def dest!: map_of_SomeD)
    then show ?thesis using True assms(1,2) f64.setLimits_inv d by (simp add: limiter_of_def setLimits_def)
  next
    case False
    then show ?thesis using assms(1) f64.newPeerLimiter_inv d by (simp add: limiter_of_def newPeerLimiter_def)
  qed
qed

lemma limiter_of_key: "limiter_of clock old heap0 nxt0 heap p l \<Longrightarrow>
    pl_publicKey (heap l) = pc_PublicKey p \<and> maxConcurrent (heap l) = MaxConcurrent (pc_Limits p)"
  by (auto simp: limiter_of_def keeps_def split: if_splits)

lemma refreshed_map_of:
  assumes r: "refreshed clock old heap0 nxt0 ps (names, lims, heap, nxt)" and d: "distinct (map (\<lambda>p. Unmap (pc_TunnelIP p)) ps)"
  shows "map_of lims ip = Some l \<longleftrightarrow> (ip, l) \<in> set lims"
    and "p \<in> set ps \<Longrightarrow> \<exists>l. (Unmap (pc_TunnelIP p), l) \<in> set lims \<and> limiter_of clock old heap0 nxt0 heap p l"
proof -
  have f: "map fst lims = map (\<lambda>p. Unmap (pc_TunnelIP p)) ps" by (rule refreshed_fst [OF r])
  then show "map_of lims ip = Some l \<longleftrightarrow> (ip, l) \<in> set lims" using d by (simp add: map_of_eq_Some_iff)
  assume p: "p \<in> set ps"
  then have "Unmap (pc_TunnelIP p) \<in> fst ` set lims"
    using f by (metis (no_types, lifting) image_eqI list.set_map)
  then obtain l where l: "(Unmap (pc_TunnelIP p), l) \<in> set lims" by force
  then obtain q where q: "q \<in> set ps" "Unmap (pc_TunnelIP p) = Unmap (pc_TunnelIP q)" "limiter_of clock old heap0 nxt0 heap q l"
    by (rule refreshed_entry [OF r])
  then have "q = p" using d p by (simp add: distinct_map inj_on_def)
  then show "\<exists>l. (Unmap (pc_TunnelIP p), l) \<in> set lims \<and> limiter_of clock old heap0 nxt0 heap p l" using l q by blast
qed

lemma refresh_locked_tables:
  assumes "tables_inv s" "peers_wf ps" "refresh_locked clock ps s = (gone, s')"
  shows "tables_inv s'"
proof -
  note r = refresh_locked_refreshed(1) [OF assms]
  have "distinct (map fst (sv_limiters s'))" using refreshed_fst [OF r] peers_wf_distinct_ips [OF assms(2)] by simp
  moreover have "distinct (map snd (sv_limiters s'))" using r by (simp add: refreshed_def)
  moreover have "\<forall>e \<in> set (sv_limiters s'). snd e < sv_next s'" using refreshed_bound [OF r] by simp
  moreover have "limiter_inv (sv_heap s' l)" if l: "l < sv_next s'" for l
  proof (cases "l \<in> snd ` set (sv_limiters s')")
    case True
    then obtain ip where "(ip, l) \<in> set (sv_limiters s')" by force
    then obtain p where p: "p \<in> set ps" "limiter_of clock (sv_limiters s) (sv_heap s) (sv_next s) (sv_heap s') p l"
      by (rule refreshed_entry [OF r])
    show ?thesis
      using limiter_of_inv [OF p(2)] assms(1,2) p(1) by (simp add: tables_inv_def peers_wf_def list_all_iff)
  next
    case False
    then have "l < sv_next s" using r l unfolding refreshed_def prod.case by (meson linorder_not_less)
    then show ?thesis using False r assms(1) by (simp add: refreshed_def tables_inv_def)
  qed
  ultimately show ?thesis by (simp add: tables_inv_def)
qed


subsection \<open>Reaping\<close>

lemma close_limiter_fields [simp]:
  "sv_limiters (close_limiter l s) = sv_limiters s" "sv_peerNames (close_limiter l s) = sv_peerNames s"
  "sv_next (close_limiter l s) = sv_next s" "sv_watcher (close_limiter l s) = sv_watcher s"
  "sv_dev (close_limiter l s) = sv_dev s" "sv_cfg (close_limiter l s) = sv_cfg s"
  "sv_pskCache (close_limiter l s) = sv_pskCache s"
  by (simp_all add: close_limiter_def closeLive_def)

lemma fold_close_fields [simp]:
  "sv_limiters (fold close_limiter ls s) = sv_limiters s" "sv_peerNames (fold close_limiter ls s) = sv_peerNames s"
  "sv_next (fold close_limiter ls s) = sv_next s" "sv_watcher (fold close_limiter ls s) = sv_watcher s"
  "sv_dev (fold close_limiter ls s) = sv_dev s" "sv_cfg (fold close_limiter ls s) = sv_cfg s"
  "sv_pskCache (fold close_limiter ls s) = sv_pskCache s"
  by (induction ls arbitrary: s) simp_all

lemma fold_close_heap:
  "sv_heap (fold close_limiter ls s) l = (if l \<in> set ls then (sv_heap s l)\<lparr>live := []\<rparr> else sv_heap s l)"
  by (induction ls arbitrary: s) (auto simp: close_limiter_def closeLive_def)

lemma fold_close_reaped_mono: "set (sv_reaped s) \<subseteq> set (sv_reaped (fold close_limiter ls s))"
proof (induction ls arbitrary: s)
  case (Cons l ls)
  have "set (sv_reaped s) \<subseteq> set (sv_reaped (close_limiter l s))" by (auto simp: close_limiter_def closeLive_def)
  then show ?case using Cons.IH [of "close_limiter l s"] by auto
qed simp

lemma fold_close_reaps: "l \<in> set ls \<Longrightarrow> set (live (sv_heap s l)) \<subseteq> set (sv_reaped (fold close_limiter ls s))"
proof (induction ls arbitrary: s)
  case (Cons k ls)
  show ?case
  proof (cases "l = k")
    case True
    have "set (live (sv_heap s l)) \<subseteq> set (sv_reaped (close_limiter k s))"
      by (auto simp: True close_limiter_def closeLive_def)
    then show ?thesis using fold_close_reaped_mono [of "close_limiter k s" ls] by auto
  next
    case False
    then have "live (sv_heap s l) = live (sv_heap (close_limiter k s) l)"
      by (simp add: close_limiter_def closeLive_def)
    then show ?thesis using Cons False by (simp add: set_ConsD)
  qed
qed simp

lemma limiter_inv_live_Nil: "limiter_inv p \<Longrightarrow> limiter_inv (p\<lparr>live := []\<rparr>)"
  by (simp add: limiter_inv_def)

lemma fold_close_tables: "tables_inv s \<Longrightarrow> tables_inv (fold close_limiter ls s)"
  by (simp add: tables_inv_def fold_close_heap limiter_inv_live_Nil)

lemma refreshPeers_eq:
  "refresh_locked clock (cfg_peers cfg) s = (gone, s1) \<Longrightarrow> refreshPeers clock cfg s = fold close_limiter gone s1"
  by (simp add: refreshPeers_def)

lemma refreshPeers_tables: "tables_inv s \<Longrightarrow> peers_wf (cfg_peers cfg) \<Longrightarrow> tables_inv (refreshPeers clock cfg s)"
  by (cases "refresh_locked clock (cfg_peers cfg) s")
    (simp add: refreshPeers_eq fold_close_tables refresh_locked_tables)

text \<open>What a refresh does to the entry of one peer.\<close>

lemma refreshPeers_entry:
  fixes clock :: "nat \<Rightarrow> time"
  assumes "tables_inv s" "peers_wf (cfg_peers cfg)" "p \<in> set (cfg_peers cfg)"
  defines "s' \<equiv> refreshPeers clock cfg s"
  shows "\<exists>l. limiterFor s' (pc_TunnelIP p) = Some l \<and> pl_publicKey (sv_heap s' l) = pc_PublicKey p
    \<and> maxConcurrent (sv_heap s' l) = MaxConcurrent (pc_Limits p)
    \<and> (if limiterFor s (pc_TunnelIP p) = Some l
       then pl_publicKey (sv_heap s l) = pc_PublicKey p \<and> live (sv_heap s' l) = live (sv_heap s l)
            \<and> active (sv_heap s' l) = active (sv_heap s l) \<and> sv_heap s' l = setLimits (pc_Limits p) (sv_heap s l)
       else sv_heap s' l = newPeerLimiter (clock l) (pc_PublicKey p) (pc_Limits p) \<and> (\<forall>k. limiterFor s (pc_TunnelIP p) = Some k \<longrightarrow> pl_publicKey (sv_heap s k) \<noteq> pc_PublicKey p)
            \<and> live (sv_heap s' l) = [] \<and> active (sv_heap s' l) = 0 \<and> sv_next s \<le> l)"
proof -
  obtain gone s1 where g: "refresh_locked clock (cfg_peers cfg) s = (gone, s1)" by fastforce
  note r = refresh_locked_refreshed [OF assms(1,2) g]
  have s': "s' = fold close_limiter gone s1" using g by (simp add: s'_def refreshPeers_eq)
  obtain l where l: "(Unmap (pc_TunnelIP p), l) \<in> set (sv_limiters s1)"
      "limiter_of clock (sv_limiters s) (sv_heap s) (sv_next s) (sv_heap s1) p l"
    using refreshed_map_of(2) [OF r(1) peers_wf_distinct_ips [OF assms(2)] assms(3)] by blast
  have f: "limiterFor s' (pc_TunnelIP p) = Some l"
    using l(1) refreshed_map_of(1) [OF r(1) peers_wf_distinct_ips [OF assms(2)]] by (simp add: limiterFor_def s')
  have "l \<notin> set gone" using l(1) by (force simp: r(2))
  then have h: "sv_heap s' l = sv_heap s1 l" by (simp add: s' fold_close_heap)
  have "sv_next s \<le> l" if "limiterFor s (pc_TunnelIP p) \<noteq> Some l"
    using that l(2) by (auto simp: limiter_of_def keeps_def limiterFor_def split: if_splits)
  moreover have "pl_publicKey (sv_heap s l) = pc_PublicKey p" if "limiterFor s (pc_TunnelIP p) = Some l"
  proof -
    have "l < sv_next s" using that assms(1) by (auto simp: limiterFor_def tables_inv_def dest!: map_of_SomeD)
    then show ?thesis using l(2) by (auto simp: limiter_of_def keeps_def split: if_splits)
  qed
  ultimately show ?thesis
    using f h limiter_of_key [OF l(2)] l(2)
    by (intro exI [of _ l]) (auto simp: limiter_of_def keeps_def limiterFor_def split: if_splits)
qed

lemma refreshPeers_names:
  assumes "tables_inv s" "peers_wf (cfg_peers cfg)"
  shows "p \<in> set (cfg_peers cfg) \<Longrightarrow> peerName (refreshPeers clock cfg s) (pc_TunnelIP p) = pc_Name p"
    and "(\<forall>p \<in> set (cfg_peers cfg). pc_TunnelIP p \<noteq> Unmap ip) \<Longrightarrow> peerName (refreshPeers clock cfg s) ip = unknownPeerName"
proof -
  obtain gone s1 where g: "refresh_locked clock (cfg_peers cfg) s = (gone, s1)" by fastforce
  note r = refresh_locked_refreshed(1) [OF assms g]
  have n: "sv_peerNames (refreshPeers clock cfg s) = map (\<lambda>p. (Unmap (pc_TunnelIP p), pc_Name p)) (cfg_peers cfg)"
    using r by (simp add: refreshPeers_eq [OF g] refreshed_def)
  have d: "distinct (map fst (map (\<lambda>p. (Unmap (pc_TunnelIP p), pc_Name p)) (cfg_peers cfg)))"
    using peers_wf_distinct_ips [OF assms(2)] by (simp add: comp_def)
  show "peerName (refreshPeers clock cfg s) (pc_TunnelIP p) = pc_Name p" if "p \<in> set (cfg_peers cfg)"
    using map_of_is_SomeI [OF d, of "Unmap (pc_TunnelIP p)" "pc_Name p"] that by (auto simp: peerName_def n)
  show "peerName (refreshPeers clock cfg s) ip = unknownPeerName" if "\<forall>p \<in> set (cfg_peers cfg). pc_TunnelIP p \<noteq> Unmap ip"
  proof -
    have "map_of (map (\<lambda>p. (Unmap (pc_TunnelIP p), pc_Name p)) (cfg_peers cfg)) (Unmap ip) = None"
      using that peers_wf_ips [OF assms(2)] by (auto simp: map_of_eq_None_iff)
    then show ?thesis by (simp add: peerName_def n)
  qed
qed

lemma refreshPeers_dom:
  assumes "tables_inv s" "peers_wf (cfg_peers cfg)"
  shows "limiterFor (refreshPeers clock cfg s) ip \<noteq> None \<longleftrightarrow> (\<exists>p \<in> set (cfg_peers cfg). pc_TunnelIP p = Unmap ip)"
proof -
  obtain gone s1 where g: "refresh_locked clock (cfg_peers cfg) s = (gone, s1)" by fastforce
  note r = refresh_locked_refreshed(1) [OF assms g]
  have "limiterFor (refreshPeers clock cfg s) ip \<noteq> None \<longleftrightarrow> Unmap ip \<in> set (map fst (sv_limiters s1))"
    using g by (simp add: limiterFor_def refreshPeers_eq map_of_eq_None_iff)
  also have "\<dots> \<longleftrightarrow> (\<exists>p \<in> set (cfg_peers cfg). Unmap (pc_TunnelIP p) = Unmap ip)"
    unfolding refreshed_fst [OF r] set_map image_iff by metis
  also have "\<dots> \<longleftrightarrow> (\<exists>p \<in> set (cfg_peers cfg). pc_TunnelIP p = Unmap ip)"
    using peers_wf_ips [OF assms(2)] by auto
  finally show ?thesis .
qed

lemma refreshPeers_reaps:
  assumes "tables_inv s" "peers_wf (cfg_peers cfg)" "limiterFor s ip = Some l"
    and "\<forall>ip'. limiterFor (refreshPeers clock cfg s) ip' \<noteq> Some l"
  shows "live (sv_heap (refreshPeers clock cfg s) l) = []
    \<and> set (live (sv_heap s l)) \<subseteq> set (sv_reaped (refreshPeers clock cfg s))"
proof -
  obtain gone s1 where g: "refresh_locked clock (cfg_peers cfg) s = (gone, s1)" by fastforce
  note r = refresh_locked_refreshed [OF assms(1,2) g]
  have s': "refreshPeers clock cfg s = fold close_limiter gone s1" using g by (simp add: refreshPeers_eq)
  have l0: "l \<in> snd ` set (sv_limiters s)" using assms(3) by (auto simp: limiterFor_def dest!: map_of_SomeD intro: image_eqI [rotated])
  have n: "l \<notin> snd ` set (sv_limiters s1)"
  proof
    assume "l \<in> snd ` set (sv_limiters s1)"
    then obtain a where a: "(a, l) \<in> set (sv_limiters s1)" by force
    then obtain p where "p \<in> set (cfg_peers cfg)" "a = Unmap (pc_TunnelIP p)" by (rule refreshed_entry [OF r(1)])
    then have "limiterFor (refreshPeers clock cfg s) a = Some l"
      using a refreshed_map_of(1) [OF r(1) peers_wf_distinct_ips [OF assms(2)]] by (simp add: limiterFor_def s')
    then show False using assms(4) by blast
  qed
  have "l \<in> set gone" using l0 n by (simp add: r(2))
  moreover have "sv_heap s1 l = sv_heap s l"
    using r(1) n l0 assms(1) by (auto simp: refreshed_def tables_inv_def)
  ultimately show ?thesis using fold_close_reaps [of l gone s1] by (simp add: s' fold_close_heap)
qed


subsection \<open>Shutdown\<close>

lemma run_exit_order:
  "run_exit AfterListen = [CancelContext, WaitWatcher, CloseListener, ReapConnections, WaitHandlers, CloseDevice, CloseWatcher]"
  by (simp add: run_exit_def run_defers_def drainConnections_def)

lemma closeLiveConns_heap: "(ip, l) \<in> set (sv_limiters s) \<Longrightarrow> live (sv_heap (closeLiveConns s) l) = []"
  by (force simp: closeLiveConns_def fold_close_heap)

lemma closeLiveConns_reaps:
  "(ip, l) \<in> set (sv_limiters s) \<Longrightarrow> set (live (sv_heap s l)) \<subseteq> set (sv_reaped (closeLiveConns s))"
  unfolding closeLiveConns_def by (intro fold_close_reaps) force

text \<open>
  A shutdown releases everything: every connection that was still proxied is closed, no table
  entry has a live connection any more, the device is closed once, and so is the watch.
\<close>

lemma shutdown_releases:
  assumes "unwind lib AfterListen (s, w) = (s', w')" "sv_dev s = Some d" "td_dev d = Some h" "\<not> td_closed d"
  shows "w' = DevClose lib h w \<and> sv_dev s' = Some (d\<lparr>td_closed := True\<rparr>)"
    and "sv_watcher s = Some wt \<Longrightarrow> \<exists>wt'. sv_watcher s' = Some wt' \<and> pw_closed wt'"
    and "(ip, l) \<in> set (sv_limiters s) \<Longrightarrow> live (sv_heap s' l) = [] \<and> set (live (sv_heap s l)) \<subseteq> set (sv_reaped s')"
proof -
  have c: "sv_dev (closeLiveConns s) = Some d" using assms(2) by (simp add: closeLiveConns_def)
  have s': "s' = close_watcher ((closeLiveConns s)\<lparr>sv_dev := Some (d\<lparr>td_closed := True\<rparr>)\<rparr>)" and w': "w' = DevClose lib h w"
    using assms(1,3,4) c
    by (simp_all add: unwind_def run_exit_order run_action_def close_device_def dev_Close_def Let_def)
  show "w' = DevClose lib h w \<and> sv_dev s' = Some (d\<lparr>td_closed := True\<rparr>)" by (simp add: s' w' close_watcher_def)
  show "\<exists>wt'. sv_watcher s' = Some wt' \<and> pw_closed wt'" if "sv_watcher s = Some wt"
    using that by (simp add: s' close_watcher_def closeLiveConns_def pw_Close_def)
  show "live (sv_heap s' l) = [] \<and> set (live (sv_heap s l)) \<subseteq> set (sv_reaped s')" if "(ip, l) \<in> set (sv_limiters s)"
    using closeLiveConns_heap [OF that] closeLiveConns_reaps [OF that] by (simp add: s' close_watcher_def)
qed

subsection \<open>Keys\<close>

lemma b64_value_not_space: "b64_value c \<noteq> None \<Longrightarrow> \<not> is_space_byte c"
  by (auto simp: b64_value_def is_space_byte_def Let_def split: if_splits)

lemma b64_quads_no_space: "b64_quads q = Some r \<Longrightarrow> c \<in> set q \<Longrightarrow> \<not> is_space_byte c"
proof (induction q arbitrary: r rule: b64_quads.induct)
  case (2 a b x y rest)
  have eq: "\<not> is_space_byte (CHR ''='')" by (simp add: is_space_byte_def)
  from "2.prems"(1) have "b64_value a \<noteq> None \<and> b64_value b \<noteq> None
      \<and> (x = CHR ''='' \<and> y = CHR ''='' \<and> rest = [] \<or> b64_value x \<noteq> None
         \<and> (y = CHR ''='' \<and> rest = [] \<or> b64_value y \<noteq> None \<and> (\<exists>bs. b64_quads rest = Some bs)))"
    by (auto split: option.splits if_splits)
  then have "\<not> is_space_byte a" "\<not> is_space_byte b" "\<not> is_space_byte x" "\<not> is_space_byte y"
    using b64_value_not_space eq by blast+
  moreover have "\<not> is_space_byte c" if "c \<in> set rest"
    using that "2.IH" "2.prems"(1) by (auto split: option.splits if_splits)
  ultimately show ?case using "2.prems"(2) by auto
qed auto

lemma DecodeString_trim:
  assumes "DecodeString s = Some r"
  shows "DecodeString (trim_space s) = Some r"
proof -
  let ?P = "\<lambda>c. \<not> is_newline c"
  have sp: "\<not> ?P c" if "c \<in> set s" "is_space_byte c" for c
    using that assms b64_quads_no_space [of "filter ?P s" r c] by (auto simp: DecodeString_def)
  then have "filter ?P (trim_space s) = filter ?P s" by (intro filter_trim_space) blast
  then show ?thesis using assms by (simp add: DecodeString_def)
qed

definition hexkey :: "peerConfig \<Rightarrow> string" where
  "hexkey p = projr (keyToHex (pc_PublicKey p))"

lemma peer_wf_hexkey:
  assumes "peer_wf p"
  shows "keyToHex (pc_PublicKey p) = Inr (hexkey p)"
proof -
  obtain r where "DecodeString (pc_PublicKey p) = Some r" "length r = 32"
    using assms validPublicKey_decodes [of "pc_PublicKey p"] by (auto simp: peer_wf_def wgKeyLen_def)
  then have "keyToHex (pc_PublicKey p) = Inr (hex_EncodeToString r)"
    using DecodeString_trim by (auto simp: keyToHex_Inr)
  then show ?thesis by (simp add: hexkey_def)
qed

text \<open>No two spellings of one key.\<close>

definition keys_faithful :: "peerConfig list \<Rightarrow> bool" where
  "keys_faithful ps = (\<forall>p \<in> set ps. \<forall>q \<in> set ps. hexkey p = hexkey q \<longrightarrow> pc_PublicKey p = pc_PublicKey q)"

definition ipt :: "peerConfig \<Rightarrow> string" where
  "ipt p = allowed_text (pc_TunnelIP p)"

lemma ipt_inj: "peer_wf p \<Longrightarrow> peer_wf q \<Longrightarrow> ipt p = ipt q \<longleftrightarrow> pc_TunnelIP p = pc_TunnelIP q"
  by (auto simp: peer_wf_def tunnel_hosts_def ipt_def allowed_text_inj)

subsection \<open>The device in step with the list\<close>

definition routes_of :: "peerConfig list \<Rightarrow> string \<rightharpoonup> string" where
  "routes_of ps = map_of (map (\<lambda>p. (ipt p, hexkey p)) ps)"

text \<open>The device holds exactly the keys of the list, and routes exactly each peer's address to it.\<close>

definition dev_sync :: "wg_table \<Rightarrow> peerConfig list \<Rightarrow> bool" where
  "dev_sync t ps = (wt_wf t \<and> dom (wt_peers t) = hexkey ` set ps \<and> wt_routes t = routes_of ps)"

lemma srv_applyPeer_table:
  assumes "follows_uapi lib tbl" "srv_applyPeer lib osw p u (s, w) = (None, s', w')" "sv_dev s = Some d"
    and "wt_wf (tbl (the (td_dev d)) w)" "peer_wf p"
  shows "sv_dev s' = Some d \<and> (\<exists>psk. tbl (the (td_dev d)) w' =
      (if u \<and> wt_peers (tbl (the (td_dev d)) w) (hexkey p) = None then tbl (the (td_dev d)) w
       else put_peer (hexkey p) psk None (ipt p) (tbl (the (td_dev d)) w)))"
proof -
  obtain psk s1 where r: "resolveSecret osw (pc_PSK p) s = (Inr psk, s1)"
    using assms(2) by (auto simp: srv_applyPeer_def split: prod.splits sum.splits)
  then have d1: "sv_dev s1 = Some d" using assms(3)
    by (auto simp: resolveSecret_def split: option.splits sum.splits)
  let ?dp = "\<lparr>dp_PublicKey = pc_PublicKey p, dp_PresharedKey = psk, dp_AllowedIP = pc_TunnelIP p, dp_Endpoint = addrport_zero\<rparr>"
  have a: "applyPeer lib d ?dp u w = (None, w')" and s: "s' = s1"
    using assms(2) r d1
    by (auto simp: srv_applyPeer_def AddPeer_def UpdatePeer_def Let_def split: if_splits prod.splits option.splits)
  have "one_line (peer_endpoint ?dp)" "peer_endpoint ?dp = None" by (simp_all add: one_line_def peer_endpoint_def)
  then obtain pub ps where k: "keyToHex (dp_PublicKey ?dp) = Inr pub"
    and t: "tbl (the (td_dev d)) w' = (if u \<and> wt_peers (tbl (the (td_dev d)) w) pub = None then tbl (the (td_dev d)) w
        else put_peer pub ps None (allowed_text (dp_AllowedIP ?dp)) (tbl (the (td_dev d)) w))"
    using applyPeer_table [OF assms(1) a _ assms(4)] by metis
  have "pub = hexkey p" using k peer_wf_hexkey [OF assms(5)] by simp
  then show ?thesis using t d1 s by (auto simp: ipt_def)
qed

lemma delete_peer_dom: "dom (wt_peers (delete_peer k t)) = dom (wt_peers t) - {k}"
  by (simp add: delete_peer_def drop_routes_def)

lemma delete_peer_routes:
  "wt_routes (delete_peer k t) = (\<lambda>a. if wt_routes t a = Some k then None else wt_routes t a)"
  by (simp add: delete_peer_def drop_routes_def cong: if_cong)

lemma put_peer_dom: "dom (wt_peers (put_peer k psk ep ip t)) = insert k (dom (wt_peers t))"
  by (simp add: put_peer_def Let_def)

lemma put_peer_routes:
  "wt_routes (put_peer k psk ep ip t) = (\<lambda>a. if wt_routes t a = Some k then None else wt_routes t a)(ip \<mapsto> k)"
  by (simp add: put_peer_def drop_routes_def Let_def)

lemma revoke_loop_table:
  assumes "follows_uapi lib tbl" "revoke_loop lib ps (s, w) = ([], s', w')" "sv_dev s = Some d"
    and "wt_wf (tbl (the (td_dev d)) w)" "list_all peer_wf ps"
  shows "s' = s \<and> wt_wf (tbl (the (td_dev d)) w')
    \<and> dom (wt_peers (tbl (the (td_dev d)) w')) = dom (wt_peers (tbl (the (td_dev d)) w)) - hexkey ` set ps
    \<and> wt_routes (tbl (the (td_dev d)) w') =
        (\<lambda>a. case wt_routes (tbl (the (td_dev d)) w) a of None \<Rightarrow> None
           | Some k \<Rightarrow> if k \<in> hexkey ` set ps then None else Some k)"
  using assms(2,4,5)
proof (induction ps arbitrary: w)
  case Nil
  then show ?case by (auto simp: fun_eq_iff split: option.splits)
next
  case (Cons p ps)
  obtain w1 where w1: "RemovePeer lib d (pc_PublicKey p) w = (None, w1)" "revoke_loop lib ps (s, w1) = ([], s', w')"
    using Cons.prems(1) assms(3) by (auto split: prod.splits option.splits)
  have t1: "tbl (the (td_dev d)) w1 = delete_peer (hexkey p) (tbl (the (td_dev d)) w)"
    using RemovePeer_table [OF assms(1) w1(1) Cons.prems(2)] peer_wf_hexkey Cons.prems(3) by fastforce
  have "wt_wf (tbl (the (td_dev d)) w1)" using delete_peer_wf [OF Cons.prems(2)] by (simp add: t1)
  then show ?case
    using Cons.IH [OF w1(2)] Cons.prems(3) unfolding t1 delete_peer_dom delete_peer_routes
    by (auto simp: fun_eq_iff split: option.splits)
qed


subsection \<open>The secret cache\<close>

lemma resolveSecret_fields:
  "resolveSecret osw ref s = (r, s') \<Longrightarrow> sv_cfg s' = sv_cfg s \<and> sv_dev s' = sv_dev s \<and> sv_watcher s' = sv_watcher s
     \<and> sv_limiters s' = sv_limiters s \<and> sv_heap s' = sv_heap s \<and> sv_next s' = sv_next s"
  by (auto simp: resolveSecret_def split: option.splits sum.splits)

lemma refreshPeers_fields [simp]:
  "sv_dev (refreshPeers clock cfg s) = sv_dev s" "sv_watcher (refreshPeers clock cfg s) = sv_watcher s"
  "sv_cfg (refreshPeers clock cfg s) = sv_cfg s" "sv_pskCache (refreshPeers clock cfg s) = sv_pskCache s"
  by (simp_all add: refreshPeers_def refresh_locked_def split: prod.splits)

lemma pruneSecretCache_fields [simp]:
  "sv_dev (pruneSecretCache s) = sv_dev s" "sv_watcher (pruneSecretCache s) = sv_watcher s"
  "sv_cfg (pruneSecretCache s) = sv_cfg s" "sv_limiters (pruneSecretCache s) = sv_limiters s"
  by (simp_all add: pruneSecretCache_def)

lemma srv_applyPeer_fields:
  "srv_applyPeer lib osw p u (s, w) = (r, s', w') \<Longrightarrow> sv_cfg s' = sv_cfg s \<and> sv_dev s' = sv_dev s \<and> sv_watcher s' = sv_watcher s
     \<and> sv_limiters s' = sv_limiters s \<and> sv_heap s' = sv_heap s \<and> sv_next s' = sv_next s"
  by (auto simp: srv_applyPeer_def Let_def dest!: resolveSecret_fields split: prod.splits sum.splits option.splits if_splits)

lemma revoke_loop_server: "revoke_loop lib ps (s, w) = (es, s', w') \<Longrightarrow> s' = s"
  by (induction ps arbitrary: w es) (auto split: prod.splits option.splits)

lemma apply_loop_fields:
  "apply_loop lib osw u ps (s, w) = (es, s', w') \<Longrightarrow> sv_cfg s' = sv_cfg s \<and> sv_dev s' = sv_dev s \<and> sv_watcher s' = sv_watcher s
     \<and> sv_limiters s' = sv_limiters s \<and> sv_heap s' = sv_heap s \<and> sv_next s' = sv_next s"
proof (induction ps arbitrary: s w es)
  case (Cons p ps)
  obtain r s1 w1 where a: "srv_applyPeer lib osw p u (s, w) = (r, s1, w1)" by (metis prod.collapse)
  obtain es1 where l: "apply_loop lib osw u ps (s1, w1) = (es1, s', w')"
    using Cons.prems a by (auto split: option.splits prod.splits)
  show ?case using srv_applyPeer_fields [OF a] Cons.IH [OF l] by simp
qed simp

lemma applyDiff_fields:
  assumes "applyDiff lib osw d (s, w) = (r, s', w')"
  shows "sv_cfg s' = sv_cfg s \<and> sv_dev s' = sv_dev s \<and> sv_watcher s' = sv_watcher s
     \<and> sv_limiters s' = sv_limiters s \<and> sv_heap s' = sv_heap s \<and> sv_next s' = sv_next s"
proof (cases "sv_dev s")
  case (Some x)
  obtain e1 s1 w1 where r: "revoke_loop lib (Removed d) (s, w) = (e1, s1, w1)" by (metis prod.collapse)
  obtain e2 s2 w2 where a: "apply_loop lib osw False (Added d) (s1, w1) = (e2, s2, w2)" by (metis prod.collapse)
  obtain e3 s3 w3 where c: "apply_loop lib osw True (Changed d) (s2, w2) = (e3, s3, w3)" by (metis prod.collapse)
  have "s' = s3" using assms r a c Some by (simp add: applyDiff_def)
  then show ?thesis using revoke_loop_server [OF r] apply_loop_fields [OF a] apply_loop_fields [OF c] by simp
qed (use assms in \<open>auto simp: applyDiff_def\<close>)

section \<open>Properties\<close>

text \<open>
  Claim C7. A reload swaps the per-peer tables completely. Afterwards an address has a limiter
  exactly when a peer of the new list holds it, and goes by that peer's name in the log, or by none;
  that limiter belongs to the peer's key and carries its new cap. The limiter of a peer that kept its
  key and address is the same object with its connections, its slot count and its bucket, under the new
  limits; any other peer gets a new one with a full bucket that counts nothing. Every connection of a
  limiter that is no longer in any entry has been closed.
\<close>

theorem refresh_swaps_tables:
  assumes "tables_inv s" "peers_wf (cfg_peers cfg)"
  shows "tables_inv (refreshPeers clock cfg s)
    \<and> (\<forall>ip. limiterFor (refreshPeers clock cfg s) ip \<noteq> None \<longleftrightarrow> (\<exists>p \<in> set (cfg_peers cfg). pc_TunnelIP p = Unmap ip))
    \<and> (\<forall>p \<in> set (cfg_peers cfg). \<exists>l. limiterFor (refreshPeers clock cfg s) (pc_TunnelIP p) = Some l
         \<and> pl_publicKey (sv_heap (refreshPeers clock cfg s) l) = pc_PublicKey p
         \<and> maxConcurrent (sv_heap (refreshPeers clock cfg s) l) = MaxConcurrent (pc_Limits p)
         \<and> (if limiterFor s (pc_TunnelIP p) = Some l
            then pl_publicKey (sv_heap s l) = pc_PublicKey p
                 \<and> live (sv_heap (refreshPeers clock cfg s) l) = live (sv_heap s l)
                 \<and> active (sv_heap (refreshPeers clock cfg s) l) = active (sv_heap s l)
                 \<and> sv_heap (refreshPeers clock cfg s) l = setLimits (pc_Limits p) (sv_heap s l)
            else sv_heap (refreshPeers clock cfg s) l = newPeerLimiter (clock l) (pc_PublicKey p) (pc_Limits p)
                 \<and> (\<forall>k. limiterFor s (pc_TunnelIP p) = Some k \<longrightarrow> pl_publicKey (sv_heap s k) \<noteq> pc_PublicKey p)
                 \<and> live (sv_heap (refreshPeers clock cfg s) l) = []
                 \<and> active (sv_heap (refreshPeers clock cfg s) l) = 0 \<and> sv_next s \<le> l))
    \<and> (\<forall>ip l. limiterFor s ip = Some l \<and> (\<forall>ip'. limiterFor (refreshPeers clock cfg s) ip' \<noteq> Some l)
         \<longrightarrow> set (live (sv_heap s l)) \<subseteq> set (sv_reaped (refreshPeers clock cfg s)))
    \<and> (\<forall>p \<in> set (cfg_peers cfg). peerName (refreshPeers clock cfg s) (pc_TunnelIP p) = pc_Name p)
    \<and> (\<forall>ip. (\<forall>p \<in> set (cfg_peers cfg). pc_TunnelIP p \<noteq> Unmap ip) \<longrightarrow> peerName (refreshPeers clock cfg s) ip = unknownPeerName)"
proof (intro conjI allI ballI impI)
  show "tables_inv (refreshPeers clock cfg s)" by (rule refreshPeers_tables [OF assms])
qed (use refreshPeers_dom [OF assms] refreshPeers_entry [OF assms] refreshPeers_reaps [OF assms] refreshPeers_names [OF assms]
  in \<open>simp, simp, metis, blast, blast\<close>)

definition example_server :: Server where
  "example_server = \<lparr>sv_cfg = zero_ServerConfig, sv_started = True, sv_dev = Some ref_dev,
     sv_watcher = Some example_watcher, sv_peerNames = [(Addr4 0x0A630007, ''a'')],
     sv_limiters = [(Addr4 0x0A630007, 0)], sv_heap = (\<lambda>_. (newPeerLimiter 0 example_key example_limits)\<lparr>live := [4]\<rparr>),
     sv_next = 1, sv_pskCache = [], sv_reaped = []\<rparr>"

lemma example_server_tables: "tables_inv example_server"
  using example_limiter_inv by (simp add: tables_inv_def example_server_def limiter_inv_def)

theorem refresh_swaps_tables_witness:
  "4 \<in> set (sv_reaped (refreshPeers (\<lambda>_. 0) example_empty example_server))"
proof -
  have wf: "peers_wf (cfg_peers example_empty)" by (simp add: example_empty_def peers_wf_nil)
  note t = refresh_swaps_tables [OF example_server_tables wf, of "\<lambda>_. 0"]
  have "limiterFor (refreshPeers (\<lambda>_. 0) example_empty example_server) ip' \<noteq> Some 0" for ip'
    using t by (auto simp: example_empty_def)
  moreover have "limiterFor example_server (Addr4 0x0A630007) = Some 0"
    by (simp add: limiterFor_def example_server_def)
  ultimately have "set (live (sv_heap example_server 0)) \<subseteq> set (sv_reaped (refreshPeers (\<lambda>_. 0) example_empty example_server))"
    using t by blast
  then show ?thesis by (simp add: example_server_def)
qed

text \<open>
  The two validations agree: a server file that loads gives a configuration that every
  field check of \<^verbatim>\<open>NewServer\<close> accepts unchanged, so start-up can then only fail on the peers
  file; and no configuration at all is refused.
\<close>

theorem loaded_file_starts:
  assumes "LoadServerConfig readFile decode1 decode2 path = Inr fc"
  shows "server_checks (ServerConfigFrom (Some fc)) = Inr (ServerConfigFrom (Some fc))
    \<and> (NewServer env (ServerConfigFrom (Some fc)) = Inl e \<longrightarrow> load_peers env (sfc_PeersFile fc) = Inl e)
    \<and> (\<exists>e. NewServer env (ServerConfigFrom None) = Inl e)"
proof -
  obtain raw where "validateServer path raw = Inr fc"
    using assms by (auto simp: LoadServerConfig_def split: sum.splits)
  then have v: "1 \<le> sfc_ListenPort fc" "sfc_ListenPort fc \<le> 65535" "validSecretRef (sfc_PrivateKey fc) = None"
      "sfc_TunnelIP fc = serverTunnelIP" "1280 \<le> sfc_MTU fc" "sfc_MTU fc \<le> 1500" "sfc_PeersFile fc \<noteq> []"
    by (auto simp: validateServer_def Let_def DefaultMTU_def minMTU_def maxMTU_def split: sum.splits option.splits if_splits)
  then have c: "server_checks (ServerConfigFrom (Some fc)) = Inr (ServerConfigFrom (Some fc))"
    by (simp add: server_checks_def ServerConfigFrom_def serverTunnelIP_def DefaultMTU_def minMTU_def maxMTU_def)
  then show ?thesis
    by (cases "load_peers env (sfc_PeersFile fc)")
      (auto simp: NewServer_def server_checks_def ServerConfigFrom_def zero_ServerConfig_def)
qed

definition example_serverYAML :: serverYAML where
  "example_serverYAML = \<lparr>sy_ListenPort = 51820, sy_PrivateKey = ''env:PSK'', sy_TunnelIP = ''10.99.0.1'',
     sy_MTU = 0, sy_PeersFile = ''p'', sy_LogFormat = []\<rparr>"

lemma example_server_ip: "parseTunnelIP ''10.99.0.1'' = Inr serverTunnelIP"
  by code_simp

lemma example_server_file:
  "\<exists>fc. LoadServerConfig (\<lambda>_. Inr []) (\<lambda>_. Inr example_serverYAML) (\<lambda>_. Inl YamlEOF) ''s'' = Inr fc
     \<and> sfc_MTU fc = 1280"
  by (simp add: LoadServerConfig_def decodeStrict_def validateServer_def example_serverYAML_def example_names
      example_server_ip Let_def DefaultMTU_def minMTU_def maxMTU_def DefaultLogFormat_def)

theorem loaded_file_starts_witness:
  "\<exists>fc. LoadServerConfig (\<lambda>_. Inr []) (\<lambda>_. Inr example_serverYAML) (\<lambda>_. Inl YamlEOF) ''s'' = Inr fc
     \<and> server_checks (ServerConfigFrom (Some fc)) = Inr (ServerConfigFrom (Some fc))"
  using example_server_file loaded_file_starts by blast

text \<open>
  A revoked peer's key material does not stay in memory. After a reload that was loaded,
  whether or not all of it reached the device, the secret cache holds only the server's own key
  and the preshared keys of peers in force; a reload that failed to load leaves the whole server
  as it was.
\<close>

theorem reload_prunes_secrets:
  assumes "sv_watcher s = Some wt" "server_reload lib osw env clock (s, w) = (r, s', w')"
  shows "(case load_peers env (pw_path wt) of
      Inr cfg \<Rightarrow> in_force s' = cfg_peers cfg
        \<and> (\<forall>ref \<in> fst ` set (sv_pskCache s'). ref = sc_PrivateKey (sv_cfg s') \<or> ref \<in> pc_PSK ` set (cfg_peers cfg))
    | Inl e \<Rightarrow> r = None \<and> in_force s' = in_force s \<and> sv_limiters s' = sv_limiters s
        \<and> sv_pskCache s' = sv_pskCache s \<and> sv_reaped s' = sv_reaped s \<and> w' = w)"
proof (cases "load_peers env (pw_path wt)")
  case (Inl e)
  then show ?thesis using assms
    by (auto simp: server_reload_def reload_def reloadLocked_def handleReload_def Let_def in_force_def pw_Config_def)
next
  case (Inr cfg)
  let ?wt = "wt\<lparr>pw_cur := cfg, pw_seen := statFileID env (pw_path wt)\<rparr>"
  let ?s1 = "refreshPeers clock cfg (s\<lparr>sv_watcher := Some ?wt\<rparr>)"
  obtain ae s2 w2 where a: "applyDiff lib osw (diffPeers (cfg_peers (pw_cur wt)) (cfg_peers cfg)) (?s1, w) = (ae, s2, w2)"
    by (metis prod.collapse)
  have s': "s' = pruneSecretCache s2"
    using assms Inr a
    by (simp add: server_reload_def reload_def reloadLocked_def handleReload_def Let_def pw_Config_def)
  have f: "sv_watcher s2 = Some ?wt" using applyDiff_fields [OF a] by simp
  then have "in_force s2 = cfg_peers cfg" by (simp add: in_force_def pw_Config_def)
  then show ?thesis
    using Inr f by (auto simp: s' in_force_def pruneSecretCache_def pw_Config_def)
qed

definition example_osw :: osworld where
  "example_osw = \<lparr>os_open = (\<lambda>_. Inl io_EOF), os_env = (\<lambda>_. None)\<rparr>"


theorem reload_prunes_secrets_witness:
  "\<exists>r s' w'. server_reload ref_lib example_osw example_env (\<lambda>_. 0)
       (example_server\<lparr>sv_pskCache := [(''env:PSK'', Secret ''k'')]\<rparr>, empty_table) = (r, s', w')
     \<and> in_force s' = [] \<and> (\<forall>ref \<in> fst ` set (sv_pskCache s'). ref = sc_PrivateKey (sv_cfg s'))"
proof -
  let ?s = "example_server\<lparr>sv_pskCache := [(''env:PSK'', Secret ''k'')]\<rparr>"
  obtain r s' w' where e: "server_reload ref_lib example_osw example_env (\<lambda>_. 0) (?s, empty_table) = (r, s', w')"
    by (metis prod.collapse)
  have "sv_watcher ?s = Some example_watcher" "pw_path example_watcher = ''p''"
    by (simp_all add: example_server_def example_watcher_def)
  then have "in_force s' = [] \<and> (\<forall>ref \<in> fst ` set (sv_pskCache s'). ref = sc_PrivateKey (sv_cfg s'))"
    using reload_prunes_secrets [OF _ e] example_env_load by (auto simp: example_empty_def)
  then show ?thesis using e by blast
qed

end
