(* ===== verification/Pipe.thy ===== *)
theory Pipe
  imports Netio
begin

text \<open>
  \<^verbatim>\<open>pipeConns\<close> of \<^verbatim>\<open>src/server.go\<close>: two copies, one per direction, and the closing of
  both connections as soon as one of them ends or the context is cancelled. The goroutines run in
  any order, so the pipe is a function of the schedule: a list of events, each of which lets one
  goroutine make its next move. A copy reads at most the buffer of \<^verbatim>\<open>io.Copy\<close> at a time; how
  much of it a read returns is part of the schedule.
\<close>

section \<open>Definitions\<close>

definition copyBuffer :: nat where "copyBuffer = 32768"

record pipe =
  pi_peer :: conn
  pi_backend :: conn
  pi_toPeer :: int
  pi_fromPeer :: int
  pi_up :: bool            \<comment> \<open>the copy from the peer to the backend has ended\<close>
  pi_down :: bool          \<comment> \<open>the copy from the backend to the peer has ended\<close>

datatype pipe_event = CopyUp nat | CopyDown nat | CtxCancel

text \<open>
  One round of \<^verbatim>\<open>io.Copy\<close>: the bytes written, whether the copy ended, the two connections.
  A read that finds nothing more returns an error or the end of file, or waits while the stream stays
  open; a failed write has written a part of the chunk, and a write that waits nothing of it. A round
  that waits leaves everything as it is.
\<close>

definition copy_round :: "nat \<Rightarrow> conn \<Rightarrow> conn \<Rightarrow> nat \<times> bool \<times> conn \<times> conn" where
  "copy_round n src dst =
     (if closed src then (0, True, src, dst)
      else if rx src = [] then (0, \<not> waiting (stream_end src), src, dst)
      else let k = min (Suc n) copyBuffer; src' = src\<lparr>rx := drop k (rx src)\<rparr> in
        (case conn_write (take k (rx src)) dst of
           (None, dst') \<Rightarrow> (length (take k (rx src)), False, src', dst')
         | (Some err, dst') \<Rightarrow>
             if waiting err then (0, False, src, dst)
             else (length (tx dst') - length (tx dst), True, src', dst')))"

definition close_both :: "pipe \<Rightarrow> pipe" where
  "close_both p = p\<lparr>pi_peer := conn_close (pi_peer p), pi_backend := conn_close (pi_backend p)\<rparr>"

fun pipe_step :: "pipe_event \<Rightarrow> pipe \<Rightarrow> pipe" where
  "pipe_step (CopyUp n) p =
     (if pi_up p then p
      else case copy_round n (pi_peer p) (pi_backend p) of (k, fin, src, dst) \<Rightarrow>
        let p' = p\<lparr>pi_peer := src, pi_backend := dst, pi_fromPeer := pi_fromPeer p + int k\<rparr> in
        if fin then close_both (p'\<lparr>pi_up := True\<rparr>) else p')"
| "pipe_step (CopyDown n) p =
     (if pi_down p then p
      else case copy_round n (pi_backend p) (pi_peer p) of (k, fin, src, dst) \<Rightarrow>
        let p' = p\<lparr>pi_backend := src, pi_peer := dst, pi_toPeer := pi_toPeer p + int k\<rparr> in
        if fin then close_both (p'\<lparr>pi_down := True\<rparr>) else p')"
| "pipe_step CtxCancel p = (if pi_up p \<and> pi_down p then p else close_both p)"

definition pipe_start :: "conn \<Rightarrow> conn \<Rightarrow> pipe" where
  "pipe_start peerConn backendConn =
     \<lparr>pi_peer = peerConn, pi_backend = backendConn, pi_toPeer = 0, pi_fromPeer = 0, pi_up = False, pi_down = False\<rparr>"

definition pipe_done :: "pipe \<Rightarrow> bool" where
  "pipe_done p = (pi_up p \<and> pi_down p)"

text \<open>The call under a schedule; it has returned when both copies have ended.\<close>

definition pipeConns :: "pipe_event list \<Rightarrow> conn \<Rightarrow> conn \<Rightarrow> pipe" where
  "pipeConns evs peerConn backendConn = fold pipe_step evs (pipe_start peerConn backendConn)"

section \<open>Lemmas\<close>

lemma conn_write_length: "length (tx c) \<le> length (tx (snd (conn_write bs c)))"
  using conn_write_tx_prefix [of bs c] by auto

lemma take_min_length [simp]: "take (min m (length xs)) xs = take m xs"
  by (cases "m \<le> length xs") simp_all

lemma copy_round_cases:
  obtains (ended) "copy_round n src dst = (0, True, src, dst)" "closed src \<or> rx src = []"
  | (waits) "copy_round n src dst = (0, False, src, dst)" "\<not> closed src"
      "rx src = [] \<and> waiting (stream_end src) \<or> wres dst \<noteq> []"
  | (moved) k fin dst' where "\<not> closed src" "rx src \<noteq> []" "k \<le> length (rx src)"
      "copy_round n src dst = (k, fin, src\<lparr>rx := drop (min (Suc n) copyBuffer) (rx src)\<rparr>, dst')"
      "rx dst' = rx dst" "closed dst' = closed dst" "tx dst' = tx dst @ take k (rx src)"
      "\<not> fin \<Longrightarrow> 0 < k \<and> drop k (rx src) = drop (min (Suc n) copyBuffer) (rx src)"
proof (cases "closed src \<or> rx src = []")
  case True
  then show thesis using ended waits by (cases "closed src"; cases "waiting (stream_end src)") (simp_all add: copy_round_def)
next
  case False
  define m where "m = min (Suc n) copyBuffer"
  have m: "0 < m" by (simp add: m_def copyBuffer_def)
  obtain e d where w: "conn_write (take m (rx src)) dst = (e, d)" by fastforce
  then have d: "rx d = rx dst" "closed d = closed dst"
    using conn_write_rx [of "take m (rx src)" dst] conn_write_closed [of "take m (rx src)" dst] by simp_all
  obtain j where "tx d = tx dst @ take j (take m (rx src))"
    using conn_write_tx_prefix [of "take m (rx src)" dst] w by auto
  then have j: "tx d = tx dst @ take (min (min j m) (length (rx src))) (rx src)" by simp
  show thesis
  proof (cases e)
    case None
    then have "tx d = tx dst @ take (min m (length (rx src))) (rx src)" using conn_write_ok_tx w by simp
    moreover have "copy_round n src dst = (min m (length (rx src)), False, src\<lparr>rx := drop m (rx src)\<rparr>, d)"
      using False w None unfolding copy_round_def m_def [symmetric] by (simp add: min.commute)
    ultimately show thesis using False m d
      by (intro moved [of "min m (length (rx src))" False d]) (auto simp: m_def min_def)
  next
    case (Some err)
    show thesis
    proof (cases "waiting err")
      case True
      have "wres dst \<noteq> []" using w Some True by (auto simp: conn_write_def split: if_splits list.splits option.splits prod.splits)
      moreover have "copy_round n src dst = (0, False, src, dst)"
        using False w Some True unfolding copy_round_def m_def [symmetric] by simp
      ultimately show thesis using waits False by simp
    next
      case nw: False
      have "copy_round n src dst = (min (min j m) (length (rx src)), True, src\<lparr>rx := drop m (rx src)\<rparr>, d)"
        using False w Some j nw unfolding copy_round_def m_def [symmetric] by (simp add: min.commute)
      then show thesis using False d j by (intro moved [of "min (min j m) (length (rx src))" True d]) (auto simp: m_def)
    qed
  qed
qed

text \<open>What holds of a pipe that started on \<open>P\<close> and \<open>B\<close>, under every schedule.\<close>

definition copied :: "conn \<Rightarrow> conn \<Rightarrow> conn \<Rightarrow> conn \<Rightarrow> int \<Rightarrow> bool \<Rightarrow> bool" where
  "copied src0 dst0 src dst n fin =
     (0 \<le> n \<and> nat n \<le> length (rx src0) \<and> tx dst = tx dst0 @ take (nat n) (rx src0)
      \<and> (\<not> fin \<longrightarrow> rx src = drop (nat n) (rx src0)))"

definition pipe_inv :: "conn \<Rightarrow> conn \<Rightarrow> pipe \<Rightarrow> bool" where
  "pipe_inv P B p =
     (copied P B (pi_peer p) (pi_backend p) (pi_fromPeer p) (pi_up p)
      \<and> copied B P (pi_backend p) (pi_peer p) (pi_toPeer p) (pi_down p)
      \<and> (pi_up p \<or> pi_down p \<longrightarrow> closed (pi_peer p) \<and> closed (pi_backend p)))"

lemma copied_advance:
  assumes "copied src0 dst0 src dst n False" "k \<le> length (rx src)" "tx dst' = tx dst @ take k (rx src)"
    and "\<not> fin \<Longrightarrow> rx src' = drop k (rx src)"
  shows "copied src0 dst0 src' dst' (n + int k) fin"
proof -
  have n: "0 \<le> n" "nat n \<le> length (rx src0)" "rx src = drop (nat n) (rx src0)" "tx dst = tx dst0 @ take (nat n) (rx src0)"
    using assms(1) by (simp_all add: copied_def)
  have "nat (n + int k) = nat n + k" using n(1) by simp
  then show ?thesis
    using assms(2-4) n by (auto simp: copied_def take_add add.commute [of k])
qed

lemma copied_other:
  "copied src0 dst0 src dst n fin \<Longrightarrow> tx dst' = tx dst \<Longrightarrow> (\<not> fin \<Longrightarrow> rx src' = rx src) \<Longrightarrow> copied src0 dst0 src' dst' n fin"
  by (simp add: copied_def)

lemma conn_close_fields [simp]: "rx (conn_close c) = rx c" "tx (conn_close c) = tx c" "closed (conn_close c)"
  by (simp_all add: conn_close_def)

lemma close_both_fields [simp]:
  "pi_peer (close_both p) = conn_close (pi_peer p)" "pi_backend (close_both p) = conn_close (pi_backend p)"
  "pi_fromPeer (close_both p) = pi_fromPeer p" "pi_toPeer (close_both p) = pi_toPeer p"
  "pi_up (close_both p) = pi_up p" "pi_down (close_both p) = pi_down p"
  by (simp_all add: close_both_def)

lemma close_both_inv: "pipe_inv P B p \<Longrightarrow> pipe_inv P B (close_both p)"
  by (simp add: pipe_inv_def copied_def)

lemma pipe_step_up_inv: "pipe_inv P B p \<Longrightarrow> pipe_inv P B (pipe_step (CopyUp n) p)"
proof (cases "pi_up p")
  case False
  assume i: "pipe_inv P B p"
  then have u: "copied P B (pi_peer p) (pi_backend p) (pi_fromPeer p) False"
    and d: "copied B P (pi_backend p) (pi_peer p) (pi_toPeer p) (pi_down p)"
    and c: "pi_down p \<longrightarrow> closed (pi_peer p) \<and> closed (pi_backend p)"
    using False by (simp_all add: pipe_inv_def)
  show ?thesis
  proof (cases rule: copy_round_cases [of n "pi_peer p" "pi_backend p"])
    case ended
    then show ?thesis using False u d by (simp add: pipe_inv_def) (simp add: copied_def)
  next
    case waits
    then show ?thesis using False u d c by (simp add: pipe_inv_def)
  next
    case (moved k fin dst')
    let ?src = "(pi_peer p)\<lparr>rx := drop (min (Suc n) copyBuffer) (rx (pi_peer p))\<rparr>"
    have "copied P B ?src dst' (pi_fromPeer p + int k) fin"
      using u moved(3,7,8) by (intro copied_advance [OF u]) auto
    moreover have "copied B P dst' ?src (pi_toPeer p) (pi_down p)"
      using moved(5) by (intro copied_other [OF d]) simp_all
    ultimately show ?thesis
      using False moved(1,4) c by (auto simp: pipe_inv_def Let_def copied_def)
  qed
qed simp

lemma pipe_step_down_inv: "pipe_inv P B p \<Longrightarrow> pipe_inv P B (pipe_step (CopyDown n) p)"
proof (cases "pi_down p")
  case False
  assume i: "pipe_inv P B p"
  then have u: "copied P B (pi_peer p) (pi_backend p) (pi_fromPeer p) (pi_up p)"
    and d: "copied B P (pi_backend p) (pi_peer p) (pi_toPeer p) False"
    and c: "pi_up p \<longrightarrow> closed (pi_peer p) \<and> closed (pi_backend p)"
    using False by (simp_all add: pipe_inv_def)
  show ?thesis
  proof (cases rule: copy_round_cases [of n "pi_backend p" "pi_peer p"])
    case ended
    then show ?thesis using False u d by (simp add: pipe_inv_def) (simp add: copied_def)
  next
    case waits
    then show ?thesis using False u d c by (simp add: pipe_inv_def)
  next
    case (moved k fin dst')
    let ?src = "(pi_backend p)\<lparr>rx := drop (min (Suc n) copyBuffer) (rx (pi_backend p))\<rparr>"
    have "copied B P ?src dst' (pi_toPeer p + int k) fin"
      using d moved(3,7,8) by (intro copied_advance [OF d]) auto
    moreover have "copied P B dst' ?src (pi_fromPeer p) (pi_up p)"
      using moved(5) by (intro copied_other [OF u]) simp_all
    ultimately show ?thesis
      using False moved(1,4) c by (auto simp: pipe_inv_def Let_def copied_def)
  qed
qed simp

lemma pipe_step_inv: "pipe_inv P B p \<Longrightarrow> pipe_inv P B (pipe_step ev p)"
  by (cases ev) (simp_all add: pipe_step_up_inv pipe_step_down_inv close_both_inv del: pipe_step.simps(1,2))

lemma pipe_start_inv: "pipe_inv P B (pipe_start P B)"
  by (simp add: pipe_inv_def copied_def pipe_start_def)

lemma fold_pipe_inv: "pipe_inv P B p \<Longrightarrow> pipe_inv P B (fold pipe_step evs p)"
  by (induction evs arbitrary: p) (simp_all add: pipe_step_inv)

text \<open>
  A copy that has not ended consumed a byte in each of its rounds, when its source does not stay
  silent for ever and its destination takes everything.
\<close>

definition is_up :: "pipe_event \<Rightarrow> bool" where
  "is_up ev = (case ev of CopyUp _ \<Rightarrow> True | _ \<Rightarrow> False)"

definition is_down :: "pipe_event \<Rightarrow> bool" where
  "is_down ev = (case ev of CopyDown _ \<Rightarrow> True | _ \<Rightarrow> False)"

lemma pipe_step_ended_up: "closed (pi_peer p) \<Longrightarrow> pi_up (pipe_step (CopyUp n) p)"
  by (simp add: copy_round_def Let_def)

lemma pipe_step_ended_down: "closed (pi_backend p) \<Longrightarrow> pi_down (pipe_step (CopyDown n) p)"
  by (simp add: copy_round_def Let_def)

lemma pipe_step_mono:
  "pi_up p \<Longrightarrow> pi_up (pipe_step ev p)" "pi_down p \<Longrightarrow> pi_down (pipe_step ev p)"
  by (cases ev; auto simp: Let_def split: prod.splits)+

lemma fold_pipe_mono:
  "pi_up p \<Longrightarrow> pi_up (fold pipe_step evs p)" "pi_down p \<Longrightarrow> pi_down (fold pipe_step evs p)"
  by (induction evs arbitrary: p) (simp_all add: pipe_step_mono)

definition up_flows :: "pipe \<Rightarrow> bool" where
  "up_flows p = (\<not> waiting (rxend (pi_peer p)) \<and> wres (pi_backend p) = [])"

lemma conn_write_rxend [simp]: "rxend (snd (conn_write bs c)) = rxend c"
  by (auto simp: conn_write_def split: list.splits option.splits prod.splits)

lemma conn_write_wres: "wres c = [] \<Longrightarrow> wres (snd (conn_write bs c)) = []"
  by (simp add: conn_write_def)

lemma copy_round_flows:
  assumes "copy_round n src dst = (k, fin, src', dst')"
  shows "rxend src' = rxend src" "rxend dst' = rxend dst" "wres src' = wres src" "wres dst = [] \<longrightarrow> wres dst' = []"
proof -
  have "(src' = src \<or> (\<exists>r. src' = src\<lparr>rx := r\<rparr>)) \<and> (dst' = dst \<or> (\<exists>bs. dst' = snd (conn_write bs dst)))"
    using assms by (auto simp: copy_round_def Let_def split: if_splits prod.splits option.splits) (metis snd_conv)+
  then show "rxend src' = rxend src" "rxend dst' = rxend dst" "wres src' = wres src" "wres dst = [] \<longrightarrow> wres dst' = []"
    by (auto simp: conn_write_wres)
qed

lemma pipe_step_flows: "up_flows p \<Longrightarrow> up_flows (pipe_step ev p)"
  by (cases ev) (auto simp: up_flows_def Let_def conn_close_def copy_round_flows split: prod.splits)

lemma pipe_step_progress:
  "up_flows p \<Longrightarrow> \<not> pi_up (pipe_step ev p) \<Longrightarrow> length (rx (pi_peer (pipe_step ev p))) + (if is_up ev then 1 else 0) \<le> length (rx (pi_peer p))"
proof (cases ev)
  case (CopyUp n)
  assume "up_flows p" "\<not> pi_up (pipe_step ev p)"
  then show ?thesis
    by (cases rule: copy_round_cases [of n "pi_peer p" "pi_backend p"])
      (auto simp: CopyUp Let_def is_up_def copyBuffer_def neq_Nil_conv up_flows_def split: if_splits)
next
  case (CopyDown n)
  then show ?thesis
    by (cases rule: copy_round_cases [of n "pi_backend p" "pi_peer p"]) (auto simp: Let_def is_up_def)
qed (auto simp: is_up_def)

lemma fold_pipe_up_ends:
  "up_flows p \<Longrightarrow> length (rx (pi_peer p)) < length (filter is_up evs) \<Longrightarrow> pi_up (fold pipe_step evs p)"
proof (induction evs arbitrary: p)
  case (Cons ev evs)
  show ?case
  proof (cases "pi_up (pipe_step ev p)")
    case True
    then show ?thesis by (simp add: fold_pipe_mono)
  next
    case False
    then show ?thesis
      using pipe_step_progress [OF Cons.prems(1) False] Cons.IH [OF pipe_step_flows [OF Cons.prems(1)]] Cons.prems(2)
      by (auto split: if_splits)
  qed
qed simp

lemma fold_pipe_down_ends:
  "closed (pi_backend p) \<Longrightarrow> list_ex is_down evs \<Longrightarrow> pi_down (fold pipe_step evs p)"
proof (induction evs arbitrary: p)
  case (Cons ev evs)
  show ?case
  proof (cases "is_down ev")
    case True
    then have "pi_down (pipe_step ev p)"
      using Cons.prems(1) by (cases ev) (simp_all add: is_down_def pipe_step_ended_down del: pipe_step.simps)
    then show ?thesis by (simp add: fold_pipe_mono)
  next
    case False
    have "closed (pi_backend (pipe_step ev p))"
    proof (cases ev)
      case (CopyUp n)
      then show ?thesis using Cons.prems(1)
        by (cases rule: copy_round_cases [of n "pi_peer p" "pi_backend p"]) (auto simp: Let_def)
    qed (use False Cons.prems(1) in \<open>auto simp: is_down_def\<close>)
    then show ?thesis using Cons False by simp
  qed
qed simp

section \<open>Properties\<close>

text \<open>
  Claim C29. The pipe is transparent under every schedule. What was written to the backend is what
  it held before followed by exactly the first \<^verbatim>\<open>fromPeer\<close> bytes the peer sends, in order and
  without loss, and the same in the other direction; and once either copy has ended both
  connections are closed.
\<close>

theorem pipe_transparent:
  "let p = pipeConns evs P B in
     tx (pi_backend p) = tx B @ take (nat (pi_fromPeer p)) (rx P) \<and> 0 \<le> pi_fromPeer p \<and> nat (pi_fromPeer p) \<le> length (rx P)
   \<and> tx (pi_peer p) = tx P @ take (nat (pi_toPeer p)) (rx B) \<and> 0 \<le> pi_toPeer p \<and> nat (pi_toPeer p) \<le> length (rx B)
   \<and> (pi_up p \<or> pi_down p \<longrightarrow> closed (pi_peer p) \<and> closed (pi_backend p))"
  using fold_pipe_inv [OF pipe_start_inv [of P B], of evs] by (auto simp: Let_def pipeConns_def pipe_inv_def copied_def)

theorem pipe_transparent_witness:
  "closed (pi_backend (pipeConns [CopyUp 1, CopyDown 0] (fresh_conn [7, 8, 9]) (fresh_conn [])))
   \<and> tx (pi_backend (pipeConns [CopyUp 1, CopyDown 0] (fresh_conn [7, 8, 9]) (fresh_conn []))) = [7, 8]"
proof -
  let ?p = "pipeConns [CopyUp 1, CopyDown 0] (fresh_conn [7, 8, 9]) (fresh_conn [])"
  have "pi_down ?p" "pi_fromPeer ?p = 2"
    by (simp_all add: pipeConns_def pipe_start_def copy_round_def copyBuffer_def conn_write_def Let_def)
  then show ?thesis
    using pipe_transparent [of "[CopyUp 1, CopyDown 0]" "fresh_conn [7, 8, 9]" "fresh_conn []"]
    by (simp add: Let_def numeral_2_eq_2)
qed

text \<open>
  The pipe ends when the peer's stream does, whatever the schedule and even if the
  backend, which takes what it is given, never says anything: enough rounds of the copy from the peer
  followed by one round of the other goroutine, and both copies have returned. A cancelled context
  ends it at once, even if both sides stay silent and take nothing: one round of each is enough.
\<close>

theorem pipe_terminates:
  assumes "(\<exists>a. evs = a @ [CopyDown n] \<and> length (rx P) < length (filter is_up a) \<and> \<not> waiting (rxend P) \<and> wres B = [])
    \<or> (\<exists>a. evs = a @ [CtxCancel, CopyUp m, CopyDown n])"
  shows "pipe_done (pipeConns evs P B)"
  using assms
proof
  assume "\<exists>a. evs = a @ [CopyDown n] \<and> length (rx P) < length (filter is_up a) \<and> \<not> waiting (rxend P) \<and> wres B = []"
  then obtain a where a: "evs = a @ [CopyDown n]" "length (rx P) < length (filter is_up a)" "\<not> waiting (rxend P)" "wres B = []" by blast
  let ?p = "fold pipe_step a (pipe_start P B)"
  have u: "pi_up ?p" using a(2-4) by (intro fold_pipe_up_ends) (simp_all add: pipe_start_def up_flows_def)
  then have "closed (pi_backend ?p)"
    using fold_pipe_inv [OF pipe_start_inv [of P B], of a] by (simp add: pipe_inv_def)
  then show ?thesis
    using u by (simp add: a(1) pipe_done_def pipeConns_def pipe_step_mono pipe_step_ended_down del: pipe_step.simps)
next
  assume "\<exists>a. evs = a @ [CtxCancel, CopyUp m, CopyDown n]"
  then obtain a where a: "evs = a @ [CtxCancel, CopyUp m, CopyDown n]" by blast
  let ?p = "pipe_step CtxCancel (fold pipe_step a (pipe_start P B))"
  have "closed (pi_peer ?p)"
    using fold_pipe_inv [OF pipe_start_inv [of P B], of a] by (auto simp: pipe_inv_def)
  then have u: "pi_up (pipe_step (CopyUp m) ?p)" by (rule pipe_step_ended_up)
  have "pipe_inv P B (pipe_step (CopyUp m) ?p)"
    by (intro pipe_step_inv fold_pipe_inv pipe_start_inv)
  then have "closed (pi_backend (pipe_step (CopyUp m) ?p))" using u by (simp add: pipe_inv_def del: pipe_step.simps)
  then show ?thesis
    using u by (simp add: a pipe_done_def pipeConns_def pipe_step_mono pipe_step_ended_down del: pipe_step.simps)
qed

text \<open>
  Nothing else ends it: between two sides that stay silent it waits, whatever its goroutines do, until
  the context is cancelled.
\<close>

lemma silent_pipe_waits:
  assumes "rx P = []" "waiting (rxend P)" "rdeadline P = None" "\<not> closed P"
    and "rx B = []" "waiting (rxend B)" "rdeadline B = None" "\<not> closed B" "CtxCancel \<notin> set evs"
  shows "pipeConns evs P B = pipe_start P B"
proof -
  have "ev \<noteq> CtxCancel \<Longrightarrow> pipe_step ev (pipe_start P B) = pipe_start P B" for ev
    using assms by (cases ev) (simp_all add: pipe_start_def copy_round_def stream_end_def)
  with assms(9) show ?thesis unfolding pipeConns_def by (induction evs) auto
qed

theorem pipe_terminates_witness:
  "pipe_done (pipeConns [CopyUp 0, CopyUp 0, CopyDown 0] (fresh_conn [7]) (fresh_conn []))"
  by (rule pipe_terminates) (rule disjI1, rule exI [of _ "[CopyUp 0, CopyUp 0]"], simp add: is_up_def)

end
