(* ===== verification/Handler.thy ===== *)
theory Handler
  imports Server Pipe
begin

text \<open>
  \<^verbatim>\<open>handleConn\<close> of \<^verbatim>\<open>src/server.go\<close>, the goroutine that serves one tunnel connection. It runs
  beside the reload and beside the other handlers, so it is a machine: its program counter names
  the next piece of the function that runs without another goroutine's interference that matters
  (at most one lock is taken in each), with the local variables that are live there. A deferred
  call is an entry of a stack that is pushed where the code says \<^verbatim>\<open>defer\<close> and run from the top
  after the return. What the environment decides (the clock, the outcome of a dial, which copy of
  the pipe moves next) is the input of a step. A piece whose read, write or dial does not return (its
  outcome carries the mark of \<^const>\<open>waiting\<close>) leaves the handler where it is, so a handler whose peer
  says nothing and that set no deadline never moves again.
\<close>

section \<open>Definitions\<close>

text \<open>\<^verbatim>\<open>net.Addr\<close> as \<^verbatim>\<open>RemoteAddr\<close> returns it: a TCP address with the bytes of its IP, or another type with its text.\<close>

datatype remoteAddr = TCPAddr "byte list" | OtherAddr string

definition remoteTunnelIP :: "remoteAddr option \<Rightarrow> addr option" where
  "remoteTunnelIP remote = (case remote of
      None \<Rightarrow> None
    | Some (TCPAddr ip) \<Rightarrow> map_option Unmap (AddrFromSlice ip)
    | Some (OtherAddr s) \<Rightarrow> map_option (\<lambda>ap. Unmap (ap_addr ap)) (ParseAddrPort s))"

text \<open>\<^verbatim>\<open>Duration.Milliseconds\<close> rounds towards zero.\<close>

definition millis :: "time \<Rightarrow> time \<Rightarrow> int" where
  "millis now start = (let d = time_Sub now start in if d < 0 then - ((- d) div 1000000) else d div 1000000)"

definition respond :: "time \<Rightarrow> status \<Rightarrow> conn \<Rightarrow> goerror option \<times> conn" where
  "respond now st c = (case SetWriteDeadline (Some (now + helloReadDeadline)) c of
      (Some err, c1) \<Rightarrow> (Some err, c1)
    | (None, c1) \<Rightarrow> writeHelloResponse st c1)"

text \<open>The lines \<^verbatim>\<open>handleConn\<close> logs, with their fields.\<close>

datatype logline =
    LogUnparsedAddress
  | LogNoPeerEntry string int
  | LogRateLimited string string string int
  | LogReadDeadline string goerror
  | LogMalformed string string int
  | LogNoHello string int goerror
  | LogDenied string string string int
  | LogBackendUnavailable string string string string int goerror
  | LogRevoked string string int
  | LogResponseFailed string string int goerror
  | LogDeadlines string string goerror
  | LogClosed string string string int int int

datatype deferred = DWgDone | DCloseConn | DRelease nat | DCloseBackend | DUntrack nat

text \<open>The program counter: the peer's address, its limiter, the service and its backend, as far as they are known.\<close>

datatype hpc =
    PStart
  | PLookup addr
  | PAcquire addr nat
  | PHello addr nat
  | PResolve addr nat string
  | PDial addr nat string addrport
  | PTrack addr nat string
  | PRecheck addr nat string
  | PAnswer addr nat string
  | PClear addr nat string
  | PPipe addr nat string
  | PReturn

record handler =
  h_id :: nat
  h_remote :: "remoteAddr option"
  h_conn :: conn
  h_backend :: conn
  h_start :: time
  h_peer :: string
  h_pc :: hpc
  h_defers :: "deferred list"
  h_toPeer :: int
  h_fromPeer :: int
  h_up :: bool
  h_down :: bool
  h_log :: "logline list"

record hinput =
  in_now :: time
  in_dial :: "time option \<Rightarrow> string \<Rightarrow> conn result"
  in_ev :: pipe_event

definition no_conn :: conn where
  "no_conn = \<lparr>rx = [], rxend = io_EOF, tx = [], wres = [], dres = [], rdeadline = None, wdeadline = None, closed = True\<rparr>"

text \<open>The goroutine as the accept loop starts it, with the two calls it defers first.\<close>

definition new_handler :: "nat \<Rightarrow> remoteAddr option \<Rightarrow> conn \<Rightarrow> handler" where
  "new_handler i remote c = \<lparr>h_id = i, h_remote = remote, h_conn = c, h_backend = no_conn, h_start = 0, h_peer = [],
     h_pc = PStart, h_defers = [DCloseConn, DWgDone], h_toPeer = 0, h_fromPeer = 0, h_up = False, h_down = False,
     h_log = []\<rparr>"

definition h_return :: "logline \<Rightarrow> handler \<Rightarrow> handler" where
  "h_return line h = h\<lparr>h_log := h_log h @ [line], h_pc := PReturn\<rparr>"

text \<open>Whether a call has not returned: its error carries the mark.\<close>

definition waits :: "goerror option \<Rightarrow> bool" where
  "waits e = (case e of None \<Rightarrow> False | Some err \<Rightarrow> waiting err)"

text \<open>A refusal that is answered: the reply (whose error is ignored), the log line, the return.\<close>

definition h_refuse :: "time \<Rightarrow> status \<Rightarrow> logline \<Rightarrow> handler \<Rightarrow> handler" where
  "h_refuse now st line h =
     (case respond now st (h_conn h) of (err, c1) \<Rightarrow>
        if waits err then h else h_return line (h\<lparr>h_conn := c1\<rparr>))"

definition h_identify :: "time \<Rightarrow> Server \<Rightarrow> handler \<Rightarrow> handler" where
  "h_identify now s h =
     (case remoteTunnelIP (h_remote h) of
        None \<Rightarrow> h_return LogUnparsedAddress (h\<lparr>h_start := now\<rparr>)
      | Some ip \<Rightarrow> h\<lparr>h_start := now, h_peer := peerName s ip, h_pc := PLookup ip\<rparr>)"

definition h_lookup :: "time \<Rightarrow> addr \<Rightarrow> Server \<Rightarrow> handler \<Rightarrow> handler" where
  "h_lookup now ip s h =
     (case limiterFor s ip of
        None \<Rightarrow> h_return (LogNoPeerEntry (h_peer h) (millis now (h_start h))) h
      | Some l \<Rightarrow> h\<lparr>h_pc := PAcquire ip l\<rparr>)"

definition h_admit :: "time \<Rightarrow> addr \<Rightarrow> nat \<Rightarrow> Server \<Rightarrow> handler \<Rightarrow> Server \<times> handler" where
  "h_admit now ip l s h =
     (case acquire now (sv_heap s l) of ((reason, allowed), p) \<Rightarrow>
        let s' = s\<lparr>sv_heap := (sv_heap s)(l := p)\<rparr> in
        if \<not> allowed then
          (s', h_refuse now statusRateLimited
                 (LogRateLimited (h_peer h) (status_String statusRateLimited) reason (millis now (h_start h))) h)
        else (s', h\<lparr>h_defers := DRelease l # h_defers h, h_pc := PHello ip l\<rparr>))"

definition h_hello :: "time \<Rightarrow> addr \<Rightarrow> nat \<Rightarrow> handler \<Rightarrow> handler" where
  "h_hello now ip l h =
     (case SetReadDeadline (Some (now + helloReadDeadline)) (h_conn h) of
        (Some err, c1) \<Rightarrow> h_return (LogReadDeadline (h_peer h) err) (h\<lparr>h_conn := c1\<rparr>)
      | (None, c1) \<Rightarrow>
          (case readHelloRequest c1 of
             (Inl err, c2) \<Rightarrow>
               if waiting err then h
               else if errors_Is err ErrMalformedFrame then
                 h_refuse now statusMalformed
                   (LogMalformed (h_peer h) (status_String statusMalformed) (millis now (h_start h))) (h\<lparr>h_conn := c2\<rparr>)
               else h_return (LogNoHello (h_peer h) (millis now (h_start h)) err) (h\<lparr>h_conn := c2\<rparr>)
           | (Inr service, c2) \<Rightarrow> h\<lparr>h_conn := c2, h_pc := PResolve ip l service\<rparr>))"

text \<open>The policy the watcher has published.\<close>

definition h_policy :: "Server \<Rightarrow> policy" where
  "h_policy s = pw_policy (the (sv_watcher s))"

definition h_resolve :: "time \<Rightarrow> addr \<Rightarrow> nat \<Rightarrow> string \<Rightarrow> Server \<Rightarrow> handler \<Rightarrow> handler" where
  "h_resolve now ip l service s h =
     (case Resolve (h_policy s) ip service of
        None \<Rightarrow> h_refuse now statusDenied
          (LogDenied (h_peer h) service (status_String statusDenied) (millis now (h_start h))) h
      | Some backend \<Rightarrow> h\<lparr>h_pc := PDial ip l service backend\<rparr>)"

text \<open>\<^verbatim>\<open>DialContext\<close>: an attempt that gets no answer ends with the deadline of its context, if it has one.\<close>

definition dial_context :: "(time option \<Rightarrow> string \<Rightarrow> conn result) \<Rightarrow> time option \<Rightarrow> string \<Rightarrow> conn result" where
  "dial_context dial deadline addr =
     (case dial deadline addr of
        Inl err \<Rightarrow> Inl (if waiting err \<and> deadline \<noteq> None then errorf_w (''dial tcp '' @ addr @ '': '') net_ErrTimeout '''' else err)
      | Inr c \<Rightarrow> Inr c)"

definition h_dial :: "(time option \<Rightarrow> string \<Rightarrow> conn result) \<Rightarrow> time \<Rightarrow> addr \<Rightarrow> nat \<Rightarrow> string \<Rightarrow> addrport \<Rightarrow> handler \<Rightarrow> handler" where
  "h_dial dial now ip l service backend h =
     (case dial_context dial (Some (now + backendDialTimeout)) (AddrPort_String backend) of
        Inl err \<Rightarrow>
          if waiting err then h
          else h_refuse now statusBackendUnavailable
            (LogBackendUnavailable (h_peer h) service (status_String statusBackendUnavailable) (AddrPort_String backend)
               (millis now (h_start h)) err) h
      | Inr backendConn \<Rightarrow>
          h\<lparr>h_backend := backendConn, h_defers := DCloseBackend # h_defers h, h_pc := PTrack ip l service\<rparr>)"

definition h_track :: "addr \<Rightarrow> nat \<Rightarrow> string \<Rightarrow> Server \<Rightarrow> handler \<Rightarrow> Server \<times> handler" where
  "h_track ip l service s h =
     (s\<lparr>sv_heap := (sv_heap s)(l := track (h_id h) (sv_heap s l))\<rparr>, h\<lparr>h_pc := PRecheck ip l service\<rparr>)"

definition h_recheck :: "time \<Rightarrow> addr \<Rightarrow> nat \<Rightarrow> string \<Rightarrow> Server \<Rightarrow> handler \<Rightarrow> Server \<times> handler" where
  "h_recheck now ip l service s h =
     (if limiterFor s ip \<noteq> Some l
      then (s\<lparr>sv_heap := (sv_heap s)(l := untrack (h_id h) (sv_heap s l))\<rparr>,
            h_return (LogRevoked (h_peer h) service (millis now (h_start h))) h)
      else (s, h\<lparr>h_defers := DUntrack l # h_defers h, h_pc := PAnswer ip l service\<rparr>))"

definition h_answer :: "time \<Rightarrow> addr \<Rightarrow> nat \<Rightarrow> string \<Rightarrow> handler \<Rightarrow> handler" where
  "h_answer now ip l service h =
     (case respond now statusOK (h_conn h) of
        (Some err, c1) \<Rightarrow>
          if waiting err then h
          else h_return (LogResponseFailed (h_peer h) service (millis now (h_start h)) err) (h\<lparr>h_conn := c1\<rparr>)
      | (None, c1) \<Rightarrow> h\<lparr>h_conn := c1, h_pc := PClear ip l service\<rparr>)"

definition h_clear :: "addr \<Rightarrow> nat \<Rightarrow> string \<Rightarrow> handler \<Rightarrow> handler" where
  "h_clear ip l service h =
     (case SetDeadline None (h_conn h) of
        (Some err, c1) \<Rightarrow> h_return (LogDeadlines (h_peer h) service err) (h\<lparr>h_conn := c1\<rparr>)
      | (None, c1) \<Rightarrow> h\<lparr>h_conn := c1, h_pc := PPipe ip l service\<rparr>)"

text \<open>One move of \<^verbatim>\<open>pipeConns\<close>, or, when both copies have ended, what follows it.\<close>

definition h_pipe_of :: "handler \<Rightarrow> pipe" where
  "h_pipe_of h = \<lparr>pi_peer = h_conn h, pi_backend = h_backend h, pi_toPeer = h_toPeer h, pi_fromPeer = h_fromPeer h,
     pi_up = h_up h, pi_down = h_down h\<rparr>"

definition h_pipe :: "pipe_event \<Rightarrow> time \<Rightarrow> string \<Rightarrow> handler \<Rightarrow> handler" where
  "h_pipe ev now service h =
     (if pipe_done (h_pipe_of h)
      then h_return (LogClosed (h_peer h) service (status_String statusOK) (h_toPeer h) (h_fromPeer h)
             (millis now (h_start h))) h
      else let p = pipe_step ev (h_pipe_of h) in
        h\<lparr>h_conn := pi_peer p, h_backend := pi_backend p, h_toPeer := pi_toPeer p, h_fromPeer := pi_fromPeer p,
          h_up := pi_up p, h_down := pi_down p\<rparr>)"

text \<open>The next deferred call.\<close>

definition h_deferred :: "Server \<Rightarrow> handler \<Rightarrow> Server \<times> handler" where
  "h_deferred s h =
     (case h_defers h of
        [] \<Rightarrow> (s, h)
      | d # ds \<Rightarrow>
          let h' = h\<lparr>h_defers := ds\<rparr> in
          (case d of
             DUntrack l \<Rightarrow> (s\<lparr>sv_heap := (sv_heap s)(l := untrack (h_id h) (sv_heap s l))\<rparr>, h')
           | DCloseBackend \<Rightarrow> (s, h'\<lparr>h_backend := conn_close (h_backend h)\<rparr>)
           | DRelease l \<Rightarrow> (s\<lparr>sv_heap := (sv_heap s)(l := release (sv_heap s l))\<rparr>, h')
           | DCloseConn \<Rightarrow> (s, h'\<lparr>h_conn := conn_close (h_conn h)\<rparr>)
           | DWgDone \<Rightarrow> (s, h')))"

definition handler_step :: "hinput \<Rightarrow> Server \<times> handler \<Rightarrow> Server \<times> handler" where
  "handler_step inp = (\<lambda>(s, h).
     let now = in_now inp in
     case h_pc h of
       PStart \<Rightarrow> (s, h_identify now s h)
     | PLookup ip \<Rightarrow> (s, h_lookup now ip s h)
     | PAcquire ip l \<Rightarrow> h_admit now ip l s h
     | PHello ip l \<Rightarrow> (s, h_hello now ip l h)
     | PResolve ip l service \<Rightarrow> (s, h_resolve now ip l service s h)
     | PDial ip l service backend \<Rightarrow> (s, h_dial (in_dial inp) now ip l service backend h)
     | PTrack ip l service \<Rightarrow> h_track ip l service s h
     | PRecheck ip l service \<Rightarrow> h_recheck now ip l service s h
     | PAnswer ip l service \<Rightarrow> (s, h_answer now ip l service h)
     | PClear ip l service \<Rightarrow> (s, h_clear ip l service h)
     | PPipe ip l service \<Rightarrow> (s, h_pipe (in_ev inp) now service h)
     | PReturn \<Rightarrow> h_deferred s h)"

text \<open>The whole goroutine with nobody else running, under a list of inputs.\<close>

definition handleConn :: "hinput list \<Rightarrow> Server \<times> handler \<Rightarrow> Server \<times> handler" where
  "handleConn = fold handler_step"

definition returned :: "handler \<Rightarrow> bool" where
  "returned h = (h_pc h = PReturn \<and> h_defers h = [])"

section \<open>Specification\<close>

text \<open>
  What a connection is owed, from the state of the server when nothing else runs: nothing, or one
  status. The clock is that of the admission; \<open>dialled\<close> is what the dialer makes of a backend.
\<close>

datatype verdict = Silent | Reply status

definition verdict_bytes :: "verdict \<Rightarrow> byte list" where
  "verdict_bytes v = (case v of Silent \<Rightarrow> [] | Reply st \<Rightarrow> [frameVersion, st])"

definition decide :: "Server \<Rightarrow> remoteAddr option \<Rightarrow> time \<Rightarrow> string result \<Rightarrow> (addrport \<Rightarrow> bool) \<Rightarrow> verdict" where
  "decide s remote now hello dialled =
     (case remoteTunnelIP remote of
        None \<Rightarrow> Silent
      | Some ip \<Rightarrow>
     (case limiterFor s ip of
        None \<Rightarrow> Silent
      | Some l \<Rightarrow>
     if \<not> snd (fst (acquire now (sv_heap s l))) then Reply statusRateLimited
     else (case hello of
        Inl err \<Rightarrow> if errors_Is err ErrMalformedFrame then Reply statusMalformed else Silent
      | Inr service \<Rightarrow>
     (case Resolve (h_policy s) ip service of
        None \<Rightarrow> Reply statusDenied
      | Some backend \<Rightarrow> if dialled backend then Reply statusOK else Reply statusBackendUnavailable))))"

section \<open>Lemmas\<close>

definition sound_conn :: "conn \<Rightarrow> bool" where
  "sound_conn c = (wres c = [] \<and> dres c = [] \<and> \<not> conn.closed c)"

lemma deadline_sound:
  "sound_conn c \<Longrightarrow> SetReadDeadline t c = (None, c\<lparr>rdeadline := t\<rparr>)"
  "sound_conn c \<Longrightarrow> SetWriteDeadline t c = (None, c\<lparr>wdeadline := t\<rparr>)"
  "sound_conn c \<Longrightarrow> SetDeadline t c = (None, c\<lparr>rdeadline := t, wdeadline := t\<rparr>)"
  by (simp_all add: SetReadDeadline_def SetWriteDeadline_def SetDeadline_def deadline_call_def sound_conn_def)

lemma sound_conn_upd [simp]:
  "sound_conn (c\<lparr>rdeadline := t\<rparr>) = sound_conn c" "sound_conn (c\<lparr>wdeadline := t\<rparr>) = sound_conn c"
  "sound_conn (c\<lparr>rx := r\<rparr>) = sound_conn c" "sound_conn (c\<lparr>tx := r\<rparr>) = sound_conn c"
  by (simp_all add: sound_conn_def)

lemma validStatus_all [simp]:
  "validStatus statusOK" "validStatus statusDenied" "validStatus statusBackendUnavailable"
  "validStatus statusRateLimited" "validStatus statusMalformed"
  by (simp_all add: validStatus_def)

lemma respond_sound:
  "sound_conn c \<Longrightarrow> validStatus st \<Longrightarrow>
     respond now st c = (None, c\<lparr>wdeadline := Some (now + helloReadDeadline), tx := tx c @ [frameVersion, st]\<rparr>)"
  by (simp add: respond_def deadline_sound writeHelloResponse_def conn_write_def) (simp add: sound_conn_def)

lemma respond_prefix: "\<exists>k. tx (snd (respond now st c)) = tx c @ take k [frameVersion, st]"
proof -
  obtain e c1 where d: "SetWriteDeadline (Some (now + helloReadDeadline)) c = (e, c1)" by fastforce
  then have t: "tx c1 = tx c" using deadline_calls_tx(2) [of "Some (now + helloReadDeadline)" c] by simp
  obtain k where "tx (snd (conn_write [frameVersion, st] c1)) = tx c1 @ take k [frameVersion, st]"
    using conn_write_tx_prefix by blast
  moreover have "\<exists>k. tx c1 = tx c @ take k [frameVersion, st]" using t by (intro exI [of _ 0]) simp
  ultimately show ?thesis
    by (cases e; cases "conn_write [frameVersion, st] c1") (auto simp: respond_def d writeHelloResponse_def t split: option.splits)
qed

text \<open>With the deadlines the code sets no piece of it waits.\<close>

lemma errMalformedFrame_returned [simp]: "\<not> waiting errMalformedFrame"
  by (simp add: waiting_def errMalformedFrame_def)

lemma writeHelloResponse_returns:
  "wdeadline c \<noteq> None \<Longrightarrow> writeHelloResponse st c = (Some e, c') \<Longrightarrow> \<not> waiting e"
  by (cases "conn_write [frameVersion, st] c")
    (auto simp: writeHelloResponse_def dest: deadline_write split: if_splits option.splits)

lemma respond_returns: "respond now st c = (e, c') \<Longrightarrow> \<not> waits e"
proof -
  assume r: "respond now st c = (e, c')"
  show ?thesis
  proof (cases "SetWriteDeadline (Some (now + helloReadDeadline)) c")
    case (Pair d c1)
    show ?thesis
    proof (cases d)
      case None
      then have "wdeadline c1 \<noteq> None"
        using Pair by (auto simp: SetWriteDeadline_def deadline_call_def split: if_splits list.splits option.splits)
      then show ?thesis
        using r Pair None writeHelloResponse_returns [of c1 st _ c'] by (auto simp: respond_def waits_def split: option.splits)
    next
      case (Some err)
      then have "\<not> waiting err"
        using Pair by (auto simp: SetWriteDeadline_def deadline_call_def split: if_splits list.splits option.splits)
      then show ?thesis using r Pair Some by (auto simp: respond_def waits_def)
    qed
  qed
qed

lemma h_refuse_returns: "h_refuse now st line h = h_return line (h\<lparr>h_conn := snd (respond now st (h_conn h))\<rparr>)"
  by (cases "respond now st (h_conn h)") (simp add: h_refuse_def respond_returns)

lemma hello_returns: "rdeadline c \<noteq> None \<Longrightarrow> readHelloRequest c = (Inl e, c') \<Longrightarrow> \<not> waiting e"
  by (auto simp: readHelloRequest_def Let_def read_full_Inr split: prod.splits sum.splits if_splits dest: deadline_read)

lemma dial_context_ok [simp]: "dial_context dial d a = Inr c \<longleftrightarrow> dial d a = Inr c"
  by (simp add: dial_context_def split: sum.split)

lemma dial_context_returns: "dial_context dial (Some t) a = Inl e \<Longrightarrow> \<not> waiting e"
  by (auto simp: dial_context_def split: sum.splits if_splits)

lemma readHello_sound: "sound_conn c \<Longrightarrow> sound_conn (snd (readHelloRequest c)) \<and> tx (snd (readHelloRequest c)) = tx c"
  by (auto simp: readHelloRequest_def read_full_def sound_conn_def Let_def)

subsection \<open>After the return\<close>

lemma h_deferred_fields:
  assumes "h_deferred s h = (s', h')"
  shows "tx (h_conn h') = tx (h_conn h)" "h_pc h' = h_pc h" "h_log h' = h_log h" "h_id h' = h_id h"
    "sv_limiters s' = sv_limiters s" "sv_watcher s' = sv_watcher s" "sv_next s' = sv_next s"
  using assms by (auto simp: h_deferred_def Let_def split: list.splits deferred.splits)

lemma run_after_return:
  assumes "h_pc h = PReturn" "handleConn xs (s, h) = (s', h')"
  shows "tx (h_conn h') = tx (h_conn h) \<and> h_pc h' = PReturn \<and> h_log h' = h_log h"
  using assms
proof (induction xs arbitrary: s h)
  case (Cons x xs)
  obtain s1 h1 where d: "h_deferred s h = (s1, h1)" by fastforce
  have "handleConn xs (s1, h1) = (s', h')" using Cons.prems d by (simp add: handleConn_def handler_step_def)
  then show ?case using Cons.IH [of h1 s1] h_deferred_fields [OF d] Cons.prems(1) by simp
qed (simp add: handleConn_def)

lemma handleConn_Cons: "handleConn (x # xs) st = handleConn xs (handler_step x st)"
  by (simp add: handleConn_def)

lemma handleConn_Nil [simp]: "handleConn [] st = st"
  by (simp add: handleConn_def)

lemma run_returned: "h_pc h = PReturn \<Longrightarrow> tx (h_conn (snd (handleConn xs (s, h)))) = tx (h_conn h)"
  using run_after_return [of h xs s] by (metis prod.collapse)

lemma limiterFor_heap [simp]: "limiterFor (s\<lparr>sv_heap := hp\<rparr>) ip = limiterFor s ip"
  by (simp add: limiterFor_def)

lemma h_policy_heap [simp]: "h_policy (s\<lparr>sv_heap := hp\<rparr>) = h_policy s"
  by (simp add: h_policy_def)

lemma h_refuse_sound:
  "sound_conn (h_conn h) \<Longrightarrow> validStatus st \<Longrightarrow>
     h_pc (h_refuse now st line h) = PReturn \<and> tx (h_conn (h_refuse now st line h)) = tx (h_conn h) @ [frameVersion, st]"
  by (simp add: h_refuse_returns h_return_def respond_sound)

lemma steps:
  "h_pc h = PStart \<Longrightarrow> handler_step x (s, h) = (s, h_identify (in_now x) s h)"
  "h_pc h = PLookup ip \<Longrightarrow> handler_step x (s, h) = (s, h_lookup (in_now x) ip s h)"
  "h_pc h = PAcquire ip l \<Longrightarrow> handler_step x (s, h) = h_admit (in_now x) ip l s h"
  "h_pc h = PHello ip l \<Longrightarrow> handler_step x (s, h) = (s, h_hello (in_now x) ip l h)"
  "h_pc h = PResolve ip l sv \<Longrightarrow> handler_step x (s, h) = (s, h_resolve (in_now x) ip l sv s h)"
  "h_pc h = PDial ip l sv b \<Longrightarrow> handler_step x (s, h) = (s, h_dial (in_dial x) (in_now x) ip l sv b h)"
  "h_pc h = PTrack ip l sv \<Longrightarrow> handler_step x (s, h) = h_track ip l sv s h"
  "h_pc h = PRecheck ip l sv \<Longrightarrow> handler_step x (s, h) = h_recheck (in_now x) ip l sv s h"
  "h_pc h = PAnswer ip l sv \<Longrightarrow> handler_step x (s, h) = (s, h_answer (in_now x) ip l sv h)"
  by (simp_all add: handler_step_def)

lemma unmap_limiter: "remoteTunnelIP r = Some ip \<Longrightarrow> Unmap ip = ip"
  by (auto simp: remoteTunnelIP_def split: option.splits remoteAddr.splits)

text \<open>The run from each program counter, for a connection on which nothing fails.\<close>

lemma run_track:
  assumes "h_pc h = PTrack ip l sv" "sound_conn (h_conn h)" "limiterFor s ip = Some l"
  shows "tx (h_conn (snd (handleConn [x7, x8, x9] (s, h)))) = tx (h_conn h) @ [frameVersion, statusOK]"
  using assms
  by (simp add: handleConn_Cons steps h_track_def h_recheck_def h_answer_def respond_sound)

lemma run_resolve:
  assumes "h_pc h = PResolve ip l sv" "sound_conn (h_conn h)" "limiterFor s ip = Some l"
  shows "tx (h_conn (snd (handleConn [x5, x6, x7, x8, x9] (s, h)))) = tx (h_conn h) @
    (case Resolve (h_policy s) ip sv of None \<Rightarrow> [frameVersion, statusDenied]
     | Some b \<Rightarrow> if isOk (in_dial x6 (Some (in_now x6 + backendDialTimeout)) (AddrPort_String b)) then [frameVersion, statusOK]
         else [frameVersion, statusBackendUnavailable])"
proof (cases "Resolve (h_policy s) ip sv")
  case None
  then show ?thesis
    using assms by (simp add: handleConn_Cons [of x5] steps h_resolve_def run_returned h_refuse_sound)
next
  case (Some b)
  let ?h = "h\<lparr>h_pc := PDial ip l sv b\<rparr>"
  have r: "handleConn [x5, x6, x7, x8, x9] (s, h) = handleConn [x6, x7, x8, x9] (s, ?h)"
    using assms Some by (simp add: handleConn_Cons [of x5] steps h_resolve_def)
  show ?thesis
  proof (cases "in_dial x6 (Some (in_now x6 + backendDialTimeout)) (AddrPort_String b)")
    case (Inl e)
    then obtain e' where e': "dial_context (in_dial x6) (Some (in_now x6 + backendDialTimeout)) (AddrPort_String b) = Inl e'"
      by (simp add: dial_context_def)
    then show ?thesis
      using assms Some Inl dial_context_returns [OF e']
      by (simp add: r handleConn_Cons [of x6] steps h_dial_def run_returned h_refuse_sound isOk_def)
  next
    case (Inr bc)
    then have "dial_context (in_dial x6) (Some (in_now x6 + backendDialTimeout)) (AddrPort_String b) = Inr bc" by simp
    then show ?thesis
      using assms Some Inr by (simp add: r handleConn_Cons [of x6] steps h_dial_def isOk_def run_track del: dial_context_ok)
  qed
qed

text \<open>What an admitted handler writes, by what the hello brought.\<close>

definition reply_bytes :: "Server \<Rightarrow> addr \<Rightarrow> string result \<Rightarrow> (addrport \<Rightarrow> bool) \<Rightarrow> byte list" where
  "reply_bytes s ip hello answers =
     (case hello of
        Inl err \<Rightarrow> if errors_Is err ErrMalformedFrame then [frameVersion, statusMalformed] else []
      | Inr sv \<Rightarrow> (case Resolve (h_policy s) ip sv of
            None \<Rightarrow> [frameVersion, statusDenied]
          | Some b \<Rightarrow> if answers b then [frameVersion, statusOK] else [frameVersion, statusBackendUnavailable]))"

lemma decide_bytes:
  "verdict_bytes (decide s remote now hello answers) = (case remoteTunnelIP remote of
      None \<Rightarrow> []
    | Some ip \<Rightarrow> (case limiterFor s ip of
          None \<Rightarrow> []
        | Some l \<Rightarrow> if snd (fst (acquire now (sv_heap s l))) then reply_bytes s ip hello answers
            else [frameVersion, statusRateLimited]))"
  by (simp add: decide_def verdict_bytes_def reply_bytes_def split: option.splits sum.splits)


lemma run_hello:
  assumes "h_pc h = PHello ip l" "sound_conn (h_conn h)" "limiterFor s ip = Some l"
  shows "tx (h_conn (snd (handleConn [x4, x5, x6, x7, x8, x9] (s, h)))) = tx (h_conn h) @
    reply_bytes s ip (fst (readHelloRequest ((h_conn h)\<lparr>rdeadline := Some (in_now x4 + helloReadDeadline)\<rparr>)))
      (\<lambda>b. isOk (in_dial x6 (Some (in_now x6 + backendDialTimeout)) (AddrPort_String b)))"
proof -
  let ?c = "(h_conn h)\<lparr>rdeadline := Some (in_now x4 + helloReadDeadline)\<rparr>"
  obtain r c2 where r: "readHelloRequest ?c = (r, c2)" by fastforce
  then have c2: "sound_conn c2" "tx c2 = tx (h_conn h)" using readHello_sound [of ?c] assms(2) by simp_all
  have f: "fst (readHelloRequest ?c) = r" using r by simp
  show ?thesis
  proof (cases r)
    case (Inl e)
    then have "\<not> waiting e" using hello_returns [of ?c e c2] r by simp
    then show ?thesis
      using assms r c2 Inl
      by (cases "errors_Is e ErrMalformedFrame")
        (simp_all add: f reply_bytes_def handleConn_Cons [of x4] steps h_hello_def deadline_sound run_returned h_refuse_sound h_return_def)
  next
    case (Inr sv)
    then show ?thesis
      using assms r c2 run_resolve [of "h\<lparr>h_conn := c2, h_pc := PResolve ip l sv\<rparr>" ip l sv s x5 x6 x7 x8 x9]
      by (simp add: f reply_bytes_def handleConn_Cons [of x4] steps h_hello_def deadline_sound)
  qed
qed

lemma run_acquire:
  assumes "h_pc h = PAcquire ip l" "sound_conn (h_conn h)" "limiterFor s ip = Some l"
  shows "tx (h_conn (snd (handleConn [x3, x4, x5, x6, x7, x8, x9] (s, h)))) = tx (h_conn h) @
    (if snd (fst (acquire (in_now x3) (sv_heap s l)))
     then reply_bytes s ip (fst (readHelloRequest ((h_conn h)\<lparr>rdeadline := Some (in_now x4 + helloReadDeadline)\<rparr>)))
       (\<lambda>b. isOk (in_dial x6 (Some (in_now x6 + backendDialTimeout)) (AddrPort_String b)))
     else [frameVersion, statusRateLimited])"
proof -
  obtain why ok p where a: "acquire (in_now x3) (sv_heap s l) = ((why, ok), p)" by (metis prod.collapse)
  let ?s = "s\<lparr>sv_heap := (sv_heap s)(l := p)\<rparr>" and ?h = "h\<lparr>h_defers := DRelease l # h_defers h, h_pc := PHello ip l\<rparr>"
  have "reply_bytes ?s ip = reply_bytes s ip" by (simp add: reply_bytes_def fun_eq_iff split: sum.split)
  then show ?thesis
    using assms a run_hello [of ?h ip l ?s x4 x5 x6 x7 x8 x9]
    by (cases ok) (simp_all add: handleConn_Cons [of x3] steps h_admit_def run_returned h_refuse_sound)
qed

text \<open>The whole run.\<close>

lemma handler_run:
  assumes "wres c = []" "dres c = []" "\<not> conn.closed c"
  shows "tx (h_conn (snd (handleConn [x1, x2, x3, x4, x5, x6, x7, x8, x9] (s, new_handler i remote c)))) =
    tx c @ verdict_bytes (decide s remote (in_now x3)
      (fst (readHelloRequest (c\<lparr>rdeadline := Some (in_now x4 + helloReadDeadline)\<rparr>)))
      (\<lambda>b. isOk (in_dial x6 (Some (in_now x6 + backendDialTimeout)) (AddrPort_String b))))"
proof (cases "remoteTunnelIP remote")
  case None
  then show ?thesis
    by (simp add: decide_bytes handleConn_Cons [of x1] steps new_handler_def h_identify_def h_return_def run_returned)
next
  case (Some ip)
  define h1 where "h1 = (new_handler i remote c)\<lparr>h_start := in_now x1, h_peer := peerName s ip, h_pc := PLookup ip\<rparr>"
  have h1: "handleConn [x1, x2, x3, x4, x5, x6, x7, x8, x9] (s, new_handler i remote c) = handleConn [x2, x3, x4, x5, x6, x7, x8, x9] (s, h1)"
    using Some by (simp add: handleConn_Cons [of x1] steps new_handler_def h_identify_def h1_def)
  have c1: "h_pc h1 = PLookup ip" "h_conn h1 = c" by (simp_all add: h1_def new_handler_def)
  have c: "sound_conn c" using assms by (simp add: sound_conn_def)
  show ?thesis
  proof (cases "limiterFor s ip")
    case None
    then show ?thesis using Some
      by (simp add: decide_bytes h1 handleConn_Cons [of x2] steps c1 h_lookup_def h_return_def run_returned)
  next
    case l: (Some l)
    then show ?thesis
      using Some c run_acquire [of "h1\<lparr>h_pc := PAcquire ip l\<rparr>" ip l s x3 x4 x5 x6 x7 x8 x9]
      by (simp add: decide_bytes h1 handleConn_Cons [of x2] steps c1 h_lookup_def)
  qed
qed

section \<open>Properties\<close>

text \<open>
  Claim C4. A connection is decided by the table of the specification and by nothing else. With
  nobody else running, a handler on a connection that works has, after its nine pieces, written
  exactly the verdict: nothing to a caller whose address cannot be read or has no entry or who
  sent no frame within five seconds of its admission, even if it stays silent for ever, the refusal of
  the first check that fails, in the order limits, frame, policy, backend, and the acceptance only for
  a service the policy grants to that very address and a backend that answered before its deadline.
\<close>

theorem handler_decides:
  assumes "wres c = []" "dres c = []" "\<not> conn.closed c"
  shows "tx (h_conn (snd (handleConn [x1, x2, x3, x4, x5, x6, x7, x8, x9] (s, new_handler i remote c)))) =
    tx c @ verdict_bytes (decide s remote (in_now x3)
      (fst (readHelloRequest (c\<lparr>rdeadline := Some (in_now x4 + helloReadDeadline)\<rparr>)))
      (\<lambda>b. isOk (in_dial x6 (Some (in_now x6 + backendDialTimeout)) (AddrPort_String b))))"
  using assms by (rule handler_run)

definition example_granting :: Server where
  "example_granting = example_server\<lparr>sv_watcher := Some (example_watcher\<lparr>pw_cur := example_empty\<lparr>cfg_policy :=
     \<lparr>pol_peers = [Addr4 0x0A630007 \<mapsto> [''db'' \<mapsto> AddrPort (Addr4 0xC000020A) 22]]\<rparr>\<rparr>\<rparr>)\<rparr>"

definition example_input :: hinput where
  "example_input = \<lparr>in_now = 0, in_dial = (\<lambda>_ _. Inr (fresh_conn [])), in_ev = CtxCancel\<rparr>"

lemma example_remote: "remoteTunnelIP (Some (TCPAddr [10, 99, 0, 7])) = Some (Addr4 0x0A630007)"
  by (simp add: remoteTunnelIP_def AddrFromSlice_def be_word32_def)

lemma example_hello:
  "fst (readHelloRequest ((fresh_conn [1, 2, 100, 98])\<lparr>rdeadline := Some (0 + helloReadDeadline)\<rparr>)) = Inr ''db''"
  by code_simp

lemma example_acquire: "\<exists>p. acquire 0 (sv_heap example_server l) = (([], True), p)"
proof -
  have i: "limiter_inv (sv_heap example_server l)"
    using example_limiter_inv by (simp add: example_server_def limiter_inv_def)
  have "of_nat (Suc 0) \<le> tokens (sv_heap example_server l)"
      "active (sv_heap example_server l) < maxConcurrent (sv_heap example_server l)"
    by (simp_all add: example_server_def example_limiter del: newPeerLimiter_fields)
  then show ?thesis using f64.acquire_grants [OF i, of 0 0] unfolding acquire_def by auto
qed

theorem handler_decides_witness:
  "tx (h_conn (snd (handleConn (replicate 9 example_input)
     (example_granting, new_handler 0 (Some (TCPAddr [10, 99, 0, 7])) (fresh_conn [1, 2, 100, 98]))))) = [0x01, 0x00]"
proof -
  have w: "wres (fresh_conn bs) = []" "dres (fresh_conn bs) = []" "\<not> conn.closed (fresh_conn bs)" for bs by simp_all
  have l: "limiterFor example_granting (Addr4 0x0A630007) = Some 0"
    by (simp add: limiterFor_def example_granting_def example_server_def)
  obtain p where p: "acquire 0 (sv_heap example_granting 0) = (([], True), p)"
    using example_acquire [of 0] by (auto simp: example_granting_def)
  have g: "Resolve (h_policy example_granting) (Addr4 0x0A630007) ''db'' = Some (AddrPort (Addr4 0xC000020A) 22)"
    by (simp add: Resolve_def h_policy_def pw_policy_def example_granting_def)
  have "decide example_granting (Some (TCPAddr [10, 99, 0, 7])) 0
      (fst (readHelloRequest ((fresh_conn [1, 2, 100, 98])\<lparr>rdeadline := Some (0 + helloReadDeadline)\<rparr>)))
      (\<lambda>b. isOk (in_dial example_input (Some (0 + backendDialTimeout)) (AddrPort_String b))) = Reply statusOK"
    unfolding decide_def by (simp add: example_remote l p example_hello [simplified] g example_input_def isOk_def)
  moreover have "in_now example_input = 0" by (simp add: example_input_def)
  moreover have "replicate 9 example_input = [example_input, example_input, example_input, example_input, example_input,
      example_input, example_input, example_input, example_input]" by (simp add: numeral_eq_Suc)
  ultimately show ?thesis
    using handler_decides [OF w, of example_input example_input example_input example_input example_input example_input
        example_input example_input example_input example_granting 0 "Some (TCPAddr [10, 99, 0, 7])" "[1, 2, 100, 98]"]
    by (simp add: verdict_bytes_def frameVersion_def statusOK_def)
qed


end
