(* ===== verification/Sync.thy ===== *)
theory Sync
  imports Server
begin

text \<open>
  The refinement between the peer list in force and the WireGuard device: a start-up and every
  reload that reports no error leave the device with exactly the keys of the list and exactly one
  route per peer. Both need that the list does not spell one key in two ways, which the loader does
  not ensure; what happens then is shown too.
\<close>

section \<open>Lemmas\<close>

text \<open>The routes after writing a list of peers over a table, in closed form.\<close>

definition written :: "peerConfig list \<Rightarrow> (string \<rightharpoonup> string) \<Rightarrow> string \<rightharpoonup> string" where
  "written ps R = (\<lambda>a. case routes_of ps a of Some k \<Rightarrow> Some k
     | None \<Rightarrow> (case R a of None \<Rightarrow> None | Some k \<Rightarrow> if k \<in> hexkey ` set ps then None else Some k))"

lemma routes_of_Some:
  assumes "distinct (map ipt ps)"
  shows "routes_of ps a = Some k \<longleftrightarrow> (\<exists>p \<in> set ps. ipt p = a \<and> hexkey p = k)"
  unfolding routes_of_def
  by (subst map_of_eq_Some_iff) (use assms in \<open>auto simp: comp_def\<close>)

lemma routes_of_SomeD: "routes_of ps a = Some k \<Longrightarrow> \<exists>p \<in> set ps. ipt p = a \<and> hexkey p = k"
  unfolding routes_of_def by (auto dest!: map_of_SomeD)

lemma routes_of_None: "routes_of ps a = None \<longleftrightarrow> a \<notin> ipt ` set ps"
  unfolding routes_of_def by (simp add: map_of_eq_None_iff image_comp comp_def)

lemma written_Cons:
  assumes "hexkey p \<notin> hexkey ` set ps" "ipt p \<notin> ipt ` set ps"
  shows "written ps ((\<lambda>a. if R a = Some (hexkey p) then None else R a)(ipt p \<mapsto> hexkey p)) = written (p # ps) R"
proof
  fix a
  have n: "routes_of ps (ipt p) = None" using assms(2) by (simp add: routes_of_None)
  have c: "routes_of (p # ps) a = (if a = ipt p then Some (hexkey p) else routes_of ps a)"
    by (simp add: routes_of_def)
  show "written ps ((\<lambda>a. if R a = Some (hexkey p) then None else R a)(ipt p \<mapsto> hexkey p)) a = written (p # ps) R a"
    using assms(1) n by (auto simp: written_def c split: option.splits)
qed

lemma written_append:
  assumes "distinct (map ipt (ps @ qs))" "hexkey ` set ps \<inter> hexkey ` set qs = {}"
  shows "written qs (written ps R) = written (ps @ qs) R"
proof
  fix a
  have c: "routes_of (ps @ qs) a = (case routes_of ps a of Some k \<Rightarrow> Some k | None \<Rightarrow> routes_of qs a)"
    by (simp add: routes_of_def map_add_def split: option.splits)
  have d: "distinct (map ipt ps)" "ipt ` set ps \<inter> ipt ` set qs = {}" using assms(1) by auto
  show "written qs (written ps R) a = written (ps @ qs) R a"
  proof (cases "routes_of ps a")
    case None
    then show ?thesis by (auto simp: written_def c split: option.splits)
  next
    case (Some k)
    then obtain p where p: "p \<in> set ps" "ipt p = a" "hexkey p = k" using routes_of_Some [OF d(1)] by auto
    then have "routes_of qs a = None" using d(2) by (auto simp: routes_of_None)
    moreover have "k \<notin> hexkey ` set qs" using assms(2) p by auto
    ultimately show ?thesis using Some by (simp add: written_def c)
  qed
qed

text \<open>A loop over added or changed peers that met no error.\<close>

lemma apply_loop_table:
  assumes "follows_uapi lib tbl" "apply_loop lib osw u ps (s, w) = ([], s', w')" "sv_dev s = Some d"
    and "wt_wf (tbl (the (td_dev d)) w)" "list_all peer_wf ps"
    and "distinct (map hexkey ps)" "distinct (map ipt ps)"
    and "u \<longrightarrow> hexkey ` set ps \<subseteq> dom (wt_peers (tbl (the (td_dev d)) w))"
  shows "sv_dev s' = Some d \<and> wt_wf (tbl (the (td_dev d)) w')
    \<and> dom (wt_peers (tbl (the (td_dev d)) w')) = dom (wt_peers (tbl (the (td_dev d)) w)) \<union> hexkey ` set ps
    \<and> wt_routes (tbl (the (td_dev d)) w') = written ps (wt_routes (tbl (the (td_dev d)) w))"
  using assms(2-)
proof (induction ps arbitrary: s w)
  case Nil
  then show ?case by (auto simp: written_def routes_of_def fun_eq_iff split: option.splits)
next
  case (Cons p ps)
  obtain s1 w1 where a: "srv_applyPeer lib osw p u (s, w) = (None, s1, w1)"
      and l: "apply_loop lib osw u ps (s1, w1) = ([], s', w')"
    using Cons.prems(1) by (auto split: prod.splits option.splits)
  have wf: "peer_wf p" using Cons.prems by simp
  have "\<not> (u \<and> wt_peers (tbl (the (td_dev d)) w) (hexkey p) = None)" using Cons.prems(7) by auto
  then obtain psk where d1: "sv_dev s1 = Some d"
      and t1: "tbl (the (td_dev d)) w1 = put_peer (hexkey p) psk None (ipt p) (tbl (the (td_dev d)) w)"
    using srv_applyPeer_table [OF assms(1) a Cons.prems(2,3) wf] by auto
  have w1: "wt_wf (tbl (the (td_dev d)) w1)" using put_peer_wf [OF Cons.prems(3)] by (simp add: t1)
  have D: "dom (wt_peers (tbl (the (td_dev d)) w1)) = insert (hexkey p) (dom (wt_peers (tbl (the (td_dev d)) w)))"
    unfolding t1 by (rule put_peer_dom)
  have R: "written ps (wt_routes (tbl (the (td_dev d)) w1)) = written (p # ps) (wt_routes (tbl (the (td_dev d)) w))"
    unfolding t1 put_peer_routes using Cons.prems(5,6) by (intro written_Cons) auto
  have "u \<longrightarrow> hexkey ` set ps \<subseteq> dom (wt_peers (tbl (the (td_dev d)) w1))"
    using Cons.prems(7) unfolding D by auto
  then show ?case
    using Cons.IH [OF l d1 w1] Cons.prems(4-6) R D by simp
qed

text \<open>The arithmetic of the difference: what is written over what is left gives the new routes.\<close>

lemma keyed_unique:
  assumes "peers_wf ps" "p \<in> set ps" "q \<in> set ps"
  shows "pc_PublicKey p = pc_PublicKey q \<Longrightarrow> p = q" "ipt p = ipt q \<Longrightarrow> p = q"
proof -
  have wf: "peer_wf p" "peer_wf q" using assms by (auto simp: peers_wf_def list_all_iff)
  show "pc_PublicKey p = pc_PublicKey q \<Longrightarrow> p = q"
    using assms by (simp add: peers_wf_def distinct_map inj_on_def)
  show "ipt p = ipt q \<Longrightarrow> p = q"
    using assms ipt_inj [OF wf] by (simp add: peers_wf_def distinct_map inj_on_def)
qed

lemma peers_wf_distinct_ipt:
  assumes "peers_wf ps"
  shows "distinct (map ipt ps)"
proof -
  have "inj_on ipt (set ps)" using keyed_unique(2) [OF assms] by (auto intro: inj_onI)
  moreover have "distinct ps" using assms by (auto simp: peers_wf_def distinct_map)
  ultimately show ?thesis by (simp add: distinct_map)
qed

lemma keys_faithful_distinct:
  assumes "keys_faithful ps'" "set ps \<subseteq> set ps'" "peers_wf ps"
  shows "distinct (map hexkey ps)"
proof -
  have "inj_on hexkey (set ps)"
  proof (rule inj_onI)
    fix p q
    assume "p \<in> set ps" "q \<in> set ps" "hexkey p = hexkey q"
    then show "p = q"
      using keyed_unique(1) [OF assms(3)] assms(1,2) unfolding keys_faithful_def by (meson subsetD)
  qed
  moreover have "distinct ps" using assms(3) by (auto simp: peers_wf_def distinct_map)
  ultimately show ?thesis by (simp add: distinct_map)
qed

text \<open>A peer of the new list is added, changed, or was there with the same key and address.\<close>

lemma diff_cases:
  assumes "peers_wf prev" "p \<in> set next"
  shows "p \<in> set (Added (diffPeers prev next)) \<or> p \<in> set (Changed (diffPeers prev next))
    \<or> (\<exists>old \<in> set prev. pc_PublicKey old = pc_PublicKey p \<and> ipt old = ipt p \<and> hexkey old = hexkey p)"
proof -
  have dp: "distinct (map pc_PublicKey prev)" using assms(1) by (simp add: peers_wf_def)
  show ?thesis
  proof (cases "pc_PublicKey p \<in> pc_PublicKey ` set prev")
    case True
    then obtain old where old: "old \<in> set prev" "pc_PublicKey old = pc_PublicKey p" by auto
    show ?thesis
    proof (cases "peer_equal old p")
      case True
      then show ?thesis using old by (auto simp: peer_equal_def ipt_def hexkey_def)
    next
      case False
      then show ?thesis using old assms(2) diffPeers_key(3) [OF dp] by blast
    qed
  next
    case False
    then show ?thesis using assms(2) diffPeers_key(1) [OF dp] by blast
  qed
qed

lemma keys_faithful_same:
  "keys_faithful (xs @ ys) \<Longrightarrow> hexkey p = hexkey q \<Longrightarrow> p \<in> set xs \<union> set ys \<Longrightarrow> q \<in> set xs \<union> set ys
    \<Longrightarrow> pc_PublicKey p = pc_PublicKey q"
  unfolding keys_faithful_def set_append by blast

text \<open>No listed peer has the key of a removed one, in either spelling.\<close>

lemma diff_removed_key:
  assumes wf: "peers_wf prev" and kf: "keys_faithful (prev @ next)" and p: "p \<in> set next"
  shows "hexkey p \<notin> hexkey ` set (Removed (diffPeers prev next))"
proof
  assume "hexkey p \<in> hexkey ` set (Removed (diffPeers prev next))"
  then obtain z where z: "z \<in> set (Removed (diffPeers prev next))" "hexkey z = hexkey p" by (metis imageE)
  have "distinct (map pc_PublicKey prev)" using wf by (simp add: peers_wf_def)
  from diffPeers_key(2) [OF this] z(1) have "z \<in> set prev" "pc_PublicKey z \<notin> pc_PublicKey ` set next" by auto
  then show False using keys_faithful_same [OF kf z(2)] p by (metis UnI1 UnI2 imageI)
qed

text \<open>A peer that no loop of \<open>applyDiff\<close> writes was there before, with the same address, and no
  written peer has its key.\<close>

lemma diff_unwritten_old:
  assumes "peers_wf prev" "p \<in> set next" "p \<notin> set (Added (diffPeers prev next) @ Changed (diffPeers prev next))"
  obtains q where "q \<in> set prev" "pc_PublicKey q = pc_PublicKey p" "ipt q = ipt p" "hexkey q = hexkey p"
  using diff_cases [OF assms(1,2)] assms(3) by (metis Un_iff set_append)

lemma diff_unwritten_key:
  assumes wf: "peers_wf next" and kf: "keys_faithful (prev @ next)"
    and p: "p \<in> set next" "p \<notin> set (Added (diffPeers prev next) @ Changed (diffPeers prev next))" (is "p \<notin> set ?W")
  shows "hexkey p \<notin> hexkey ` set ?W"
proof
  assume "hexkey p \<in> hexkey ` set ?W"
  then obtain z where z: "z \<in> set ?W" "hexkey z = hexkey p" by (metis imageE)
  moreover have "set ?W \<subseteq> set next" using diffPeers_subset by auto
  ultimately have "z = p" using keys_faithful_same [OF kf z(2)] p(1) keyed_unique(1) [OF wf] by (meson UnI2 subsetD)
  then show False using z p(2) by blast
qed

text \<open>A peer whose address nobody has any more was removed or is written anew.\<close>

lemma diff_released:
  assumes wf: "peers_wf prev" and q: "q \<in> set prev" "ipt q \<notin> ipt ` set next"
  shows "hexkey q \<in> hexkey ` set (Removed (diffPeers prev next))
    \<or> hexkey q \<in> hexkey ` set (Added (diffPeers prev next) @ Changed (diffPeers prev next))" (is "_ \<or> _ \<in> hexkey ` set ?W")
proof (cases "pc_PublicKey q \<in> pc_PublicKey ` set next")
  case True
  then obtain p where p: "p \<in> set next" "pc_PublicKey p = pc_PublicKey q" by auto
  have "p \<in> set ?W"
  proof (rule ccontr)
    assume "p \<notin> set ?W"
    then obtain z where z: "z \<in> set prev" "pc_PublicKey z = pc_PublicKey p" "ipt z = ipt p"
      by (rule diff_unwritten_old [OF wf p(1)])
    then have "z = q" using keyed_unique(1) [OF wf] q(1) p(2) by metis
    then show False using z q(2) p(1) by (metis imageI)
  qed
  moreover have "hexkey p = hexkey q" using p(2) by (simp add: hexkey_def)
  ultimately show ?thesis by (metis imageI)
next
  case False
  have dp: "distinct (map pc_PublicKey prev)" using wf by (simp add: peers_wf_def)
  have "q \<in> set (Removed (diffPeers prev next))"
    by (intro diffPeers_key(2) [OF dp, THEN iffD2] conjI q(1) False)
  then show ?thesis by blast
qed

lemma written_diff:
  assumes wf: "peers_wf prev" "peers_wf next" and kf: "keys_faithful (prev @ next)"
  shows "written (Added (diffPeers prev next) @ Changed (diffPeers prev next))
      (\<lambda>a. case routes_of prev a of None \<Rightarrow> None
         | Some k \<Rightarrow> if k \<in> hexkey ` set (Removed (diffPeers prev next)) then None else Some k)
    = routes_of next" (is "written ?W ?R = _")
proof
  fix a
  have di: "distinct (map ipt prev)" "distinct (map ipt next)" using wf peers_wf_distinct_ipt by auto
  have sub: "set ?W \<subseteq> set next" using diffPeers_subset by auto
  consider p where "p \<in> set ?W" "ipt p = a"
    | p where "a \<notin> ipt ` set ?W" "p \<in> set next" "ipt p = a"
    | "a \<notin> ipt ` set ?W" "a \<notin> ipt ` set next" by (metis imageE)
  then show "written ?W ?R a = routes_of next a"
  proof cases
    case 1
    then have "routes_of ?W a \<noteq> None" by (auto simp: routes_of_None)
    then obtain k where k: "routes_of ?W a = Some k" by blast
    then obtain q where q: "q \<in> set ?W" "ipt q = a" "hexkey q = k"
      using routes_of_SomeD by blast
    then have "routes_of next a = Some k" using sub routes_of_Some [OF di(2)] by blast
    then show ?thesis using k by (simp add: written_def)
  next
    case 2
    then have nW: "p \<notin> set ?W" by blast
    obtain q where q: "q \<in> set prev" "pc_PublicKey q = pc_PublicKey p" "ipt q = a" "hexkey q = hexkey p"
      using diff_unwritten_old [OF wf(1) 2(2) nW] 2(3) by metis
    have "routes_of prev a = Some (hexkey p)" "routes_of next a = Some (hexkey p)"
      using routes_of_Some [OF di(1)] routes_of_Some [OF di(2)] 2(2,3) q by blast+
    moreover have "routes_of ?W a = None" using 2(1) by (simp add: routes_of_None)
    ultimately show ?thesis using diff_removed_key [OF wf(1) kf 2(2)] diff_unwritten_key [OF wf(2) kf 2(2) nW] by (simp add: written_def)
  next
    case 3
    then have "routes_of next a = None" "routes_of ?W a = None" by (simp_all add: routes_of_None)
    moreover have "k \<in> hexkey ` set (Removed (diffPeers prev next)) \<or> k \<in> hexkey ` set ?W" if k: "routes_of prev a = Some k" for k
    proof -
      obtain q where q: "q \<in> set prev" "ipt q = a" "hexkey q = k" using k routes_of_Some [OF di(1)] by blast
      then show ?thesis using diff_released [OF wf(1) q(1), of "next"] 3(2) by blast
    qed
    ultimately show ?thesis by (auto simp: written_def split: option.splits)
  qed
qed

lemma errors_Join_None: "errors_Join es = None \<longleftrightarrow> es = []"
  by (simp add: errors_Join_def)

lemma diff_disjoint: "set (Added (diffPeers prev next)) \<inter> set (Changed (diffPeers prev next)) = {}"
  by (auto simp: diffPeers_def split: option.splits)

lemma diff_distinct:
  assumes "distinct (map f next)"
  shows "distinct (map f (Added (diffPeers prev next) @ Changed (diffPeers prev next)))"
    and "f ` set (Added (diffPeers prev next)) \<inter> f ` set (Changed (diffPeers prev next)) = {}"
proof -
  let ?a = "Added (diffPeers prev next)" and ?c = "Changed (diffPeers prev next)"
  have i: "inj_on f (set next)" using assms by (simp add: distinct_map)
  have "f ` (set ?a \<inter> set ?c) = f ` set ?a \<inter> f ` set ?c"
    by (rule inj_on_image_Int [OF i diffPeers_subset])
  then show j: "f ` set ?a \<inter> f ` set ?c = {}" using diff_disjoint by (metis image_empty)
  have "distinct (map f ?a)" "distinct (map f ?c)"
    using assms by (simp_all add: diffPeers_def distinct_map_filter)
  then show "distinct (map f (?a @ ?c))" using j by simp
qed

lemma diff_hexkeys:
  assumes wf: "peers_wf prev" "peers_wf next" and kf: "keys_faithful (prev @ next)"
  shows "hexkey ` set prev - hexkey ` set (Removed (diffPeers prev next))
      \<union> hexkey ` set (Added (diffPeers prev next)) = hexkey ` set next" (is "?l = _")
    and "hexkey ` set (Changed (diffPeers prev next))
      \<subseteq> hexkey ` set prev - hexkey ` set (Removed (diffPeers prev next)) \<union> hexkey ` set (Added (diffPeers prev next))"
proof -
  let ?d = "diffPeers prev next"
  have dp: "distinct (map pc_PublicKey prev)" using wf(1) by (simp add: peers_wf_def)
  note D = diffPeers_key [OF dp, of _ "next"]
  have hk: "pc_PublicKey p = pc_PublicKey q \<Longrightarrow> hexkey p = hexkey q" for p q by (simp add: hexkey_def)
  note nr = diff_removed_key [OF wf(1) kf]
  show l: "?l = hexkey ` set next"
  proof (intro set_eqI iffI)
    fix k
    assume "k \<in> ?l"
    then consider q where "q \<in> set prev" "hexkey q = k" "k \<notin> hexkey ` set (Removed ?d)"
      | p where "p \<in> set (Added ?d)" "hexkey p = k" by auto
    then show "k \<in> hexkey ` set next"
    proof cases
      case (1 q)
      then have "q \<notin> set (Removed ?d)" by blast
      then obtain p where "p \<in> set next" "pc_PublicKey p = pc_PublicKey q" using 1(1) D(2) by (metis imageE)
      then show ?thesis using hk 1(2) by (metis imageI)
    next
      case (2 p)
      then show ?thesis using D(1) by blast
    qed
  next
    fix k
    assume "k \<in> hexkey ` set next"
    then obtain p where p: "p \<in> set next" "hexkey p = k" by auto
    show "k \<in> ?l"
    proof (cases "pc_PublicKey p \<in> pc_PublicKey ` set prev")
      case True
      then obtain q where "q \<in> set prev" "pc_PublicKey q = pc_PublicKey p" by (metis imageE)
      then have "k \<in> hexkey ` set prev" using hk p(2) by (metis imageI)
      then show ?thesis using nr [OF p(1)] p(2) by blast
    next
      case False
      then have "p \<in> set (Added ?d)" by (intro D(1) [THEN iffD2] conjI p(1))
      then show ?thesis using p(2) by (metis UnI2 imageI)
    qed
  qed
  show "hexkey ` set (Changed ?d) \<subseteq> ?l" unfolding l by (rule image_mono [OF diffPeers_subset(2)])
qed

text \<open>The refinement: an error-free \<^verbatim>\<open>applyDiff\<close> moves the device from one list to the next.\<close>

lemma applyDiff_sync:
  assumes fu: "follows_uapi lib tbl" and d: "sv_dev s = Some d"
    and sync: "dev_sync (tbl (the (td_dev d)) w) prev"
    and wf: "peers_wf prev" "peers_wf next" and kf: "keys_faithful (prev @ next)"
    and ap: "applyDiff lib osw (diffPeers prev next) (s, w) = (None, s', w')"
  shows "dev_sync (tbl (the (td_dev d)) w') next \<and> sv_dev s' = Some d"
proof -
  let ?d = "diffPeers prev next" and ?t = "\<lambda>w. tbl (the (td_dev d)) w"
  let ?R = "\<lambda>a. case routes_of prev a of None \<Rightarrow> None
      | Some k \<Rightarrow> if k \<in> hexkey ` set (Removed ?d) then None else Some k"
  have wfs: "wt_wf (?t w)" "dom (wt_peers (?t w)) = hexkey ` set prev" "wt_routes (?t w) = routes_of prev"
    using sync by (simp_all add: dev_sync_def)
  obtain s1 w1 s2 w2 where
      r: "revoke_loop lib (Removed ?d) (s, w) = ([], s1, w1)" and
      a: "apply_loop lib osw False (Added ?d) (s1, w1) = ([], s2, w2)" and
      c: "apply_loop lib osw True (Changed ?d) (s2, w2) = ([], s', w')"
    using ap d by (auto simp: applyDiff_def errors_Join_None split: prod.splits)
  have lw: "list_all peer_wf (Removed ?d)" "list_all peer_wf (Added ?d)" "list_all peer_wf (Changed ?d)"
    using wf by (auto simp: diffPeers_def peers_wf_def list_all_iff)
  have di: "distinct (map hexkey next)" "distinct (map ipt next)"
    using keys_faithful_distinct [OF kf _ wf(2)] peers_wf_distinct_ipt [OF wf(2)] by auto
  have dd: "distinct (map hexkey (Added ?d))" "distinct (map ipt (Added ?d))"
      "distinct (map hexkey (Changed ?d))" "distinct (map ipt (Changed ?d))"
    using diff_distinct(1) [OF di(1), of prev] diff_distinct(1) [OF di(2), of prev] by simp_all
  have t1: "s1 = s" "wt_wf (?t w1)" "dom (wt_peers (?t w1)) = hexkey ` set prev - hexkey ` set (Removed ?d)"
      "wt_routes (?t w1) = ?R"
    using revoke_loop_table [OF fu r d wfs(1) lw(1)] wfs(2,3) by simp_all
  have t2: "sv_dev s2 = Some d" "wt_wf (?t w2)"
      "dom (wt_peers (?t w2)) = hexkey ` set prev - hexkey ` set (Removed ?d) \<union> hexkey ` set (Added ?d)"
      "wt_routes (?t w2) = written (Added ?d) ?R"
    using apply_loop_table [OF fu a _ t1(2) lw(2) dd(1,2)] d t1 by simp_all
  have "True \<longrightarrow> hexkey ` set (Changed ?d) \<subseteq> dom (wt_peers (?t w2))"
    using diff_hexkeys(2) [OF wf kf] t2(3) by simp
  then have t3: "sv_dev s' = Some d" "wt_wf (?t w')"
      "dom (wt_peers (?t w')) = dom (wt_peers (?t w2)) \<union> hexkey ` set (Changed ?d)"
      "wt_routes (?t w') = written (Changed ?d) (written (Added ?d) ?R)"
    using apply_loop_table [OF fu c t2(1,2) lw(3) dd(3,4)] t2(4) by simp_all
  have "dom (wt_peers (?t w')) = hexkey ` set next"
    using t3(3) t2(3) diff_hexkeys [OF wf kf] by auto
  moreover have "wt_routes (?t w') = routes_of next"
    using t3(4) written_append [OF diff_distinct(1) [OF di(2)] diff_distinct(2) [OF di(1)]] written_diff [OF wf kf]
    by simp
  ultimately show ?thesis using t3 by (simp add: dev_sync_def)
qed


text \<open>The start-up loop.\<close>

lemma initial_loop_apply:
  "initial_loop lib osw ps st = (None, st') \<Longrightarrow> apply_loop lib osw False ps st = ([], st')"
  by (induction ps arbitrary: st) (auto split: prod.splits option.splits)

lemma written_empty: "written ps Map.empty = routes_of ps"
  by (auto simp: written_def fun_eq_iff split: option.splits)

lemma applyDiff_updates_dom:
  assumes fu: "follows_uapi lib tbl" and l: "apply_loop lib osw True ps (s, w) = ([], s', w')" and d: "sv_dev s = Some d"
    and "wt_wf (tbl (the (td_dev d)) w)" "list_all peer_wf ps"
  shows "dom (wt_peers (tbl (the (td_dev d)) w')) = dom (wt_peers (tbl (the (td_dev d)) w))"
  using l d assms(4,5)
proof (induction ps arbitrary: s w)
  case (Cons p ps)
  obtain s1 w1 where a: "srv_applyPeer lib osw p True (s, w) = (None, s1, w1)"
      and l: "apply_loop lib osw True ps (s1, w1) = ([], s', w')"
    using Cons.prems(1) by (auto split: prod.splits option.splits)
  obtain psk where d1: "sv_dev s1 = Some d" and t1: "tbl (the (td_dev d)) w1 =
      (if wt_peers (tbl (the (td_dev d)) w) (hexkey p) = None then tbl (the (td_dev d)) w
       else put_peer (hexkey p) psk None (ipt p) (tbl (the (td_dev d)) w))"
    using srv_applyPeer_table [OF fu a Cons.prems(2,3)] Cons.prems(4) by auto
  have "dom (wt_peers (tbl (the (td_dev d)) w1)) = dom (wt_peers (tbl (the (td_dev d)) w))"
    unfolding t1 using put_peer_dom [of "hexkey p" psk None "ipt p" "tbl (the (td_dev d)) w"] by auto
  moreover have "wt_wf (tbl (the (td_dev d)) w1)"
    unfolding t1 using Cons.prems(3) by (simp add: put_peer_wf)
  ultimately show ?case using Cons.IH [OF l d1] Cons.prems(4) by simp
qed simp

section \<open>Properties\<close>

text \<open>
  Claim C6. The device refines the peer list across reloads. When the device holds exactly the
  peers in force, then after a reload that reports no error (in particular after one whose file
  could not be loaded) it again holds exactly the peers in force: the same set of keys, and for
  each peer one route, its own address. This includes peers that move or swap addresses. The
  hypothesis on the keys says that no key is spelled in two ways.
\<close>

theorem reload_keeps_device_in_step:
  assumes "follows_uapi lib tbl" "sv_dev s = Some d" "sv_watcher s = Some wt" "watcher_inv wt"
    and "dev_sync (tbl (the (td_dev d)) w) (in_force s)"
    and "server_reload lib osw env clock (s, w) = (None, s', w')"
    and "keys_faithful (in_force s @ in_force s')"
  shows "dev_sync (tbl (the (td_dev d)) w') (in_force s')"
proof (cases "load_peers env (pw_path wt)")
  case (Inl e)
  then show ?thesis using assms(3,5,6)
    by (auto simp: server_reload_def reload_def reloadLocked_def handleReload_def Let_def in_force_def pw_Config_def)
next
  case (Inr cfg)
  let ?wt = "wt\<lparr>pw_cur := cfg, pw_seen := statFileID env (pw_path wt)\<rparr>"
  let ?s1 = "refreshPeers clock cfg (s\<lparr>sv_watcher := Some ?wt\<rparr>)"
  obtain ae s2 w2 where a: "applyDiff lib osw (diffPeers (cfg_peers (pw_cur wt)) (cfg_peers cfg)) (?s1, w) = (ae, s2, w2)"
    by (metis prod.collapse)
  have r: "ae = None" "s' = pruneSecretCache s2" "w' = w2"
    using assms(3,6) Inr a
    by (simp_all add: server_reload_def reload_def reloadLocked_def handleReload_def Let_def pw_Config_def)
  have f: "in_force s = cfg_peers (pw_cur wt)" "in_force s' = cfg_peers cfg"
    using assms(3) applyDiff_fields [OF a] by (simp_all add: r in_force_def pw_Config_def)
  have wf: "peers_wf (cfg_peers (pw_cur wt))" "peers_wf (cfg_peers cfg)"
    using assms(4) load_peers_inv(1) [OF Inr] by (simp_all add: watcher_inv_def)
  have dev: "sv_dev ?s1 = Some d" using assms(2) by simp
  show ?thesis
    unfolding f(2) r(3)
    using applyDiff_sync [OF assms(1) dev assms(5) [unfolded f(1)] wf assms(7) [unfolded f] a [unfolded r(1)]] by blast
qed

lemma example_empty_sync: "dev_sync empty_table []"
  by (simp add: dev_sync_def empty_table_def routes_of_def wt_wf_def)

lemma server_reload_in_force:
  assumes "sv_watcher s = Some wt" "load_peers env (pw_path wt) = Inr cfg" "server_reload lib osw env clock (s, w) = (r, s', w')"
  shows "in_force s' = cfg_peers cfg"
proof -
  let ?s1 = "refreshPeers clock cfg (s\<lparr>sv_watcher := Some (wt\<lparr>pw_cur := cfg, pw_seen := statFileID env (pw_path wt)\<rparr>)\<rparr>)"
  obtain ae s2 w2 where a: "applyDiff lib osw (diffPeers (cfg_peers (pw_cur wt)) (cfg_peers cfg)) (?s1, w) = (ae, s2, w2)"
    by (metis prod.collapse)
  then have "s' = pruneSecretCache s2"
    using assms by (simp add: server_reload_def reload_def reloadLocked_def handleReload_def Let_def pw_Config_def)
  then show ?thesis using applyDiff_fields [OF a] by (simp add: in_force_def pw_Config_def)
qed

lemma newTunnelDevice_open: "newTunnelDevice lib opts w = (Inr d, w') \<Longrightarrow> \<not> td_closed d \<and> td_dev d \<noteq> None"
  by (auto simp: newTunnelDevice_def Let_def split: sum.splits prod.splits option.splits)

text \<open>A start-up that succeeds. (The hypotheses on the library are those of the claim below.)\<close>

lemma startup_success:
  assumes "follows_uapi lib tbl"
    and "\<And>opts w d w'. newTunnelDevice lib opts w = (Inr d, w') \<Longrightarrow> tbl (the (td_dev d)) w' = empty_table"
    and "\<And>ap w e w' h. listen ap w = (e, w') \<Longrightarrow> tbl h w' = tbl h w"
    and "tables_inv s" "run_startup lib osw env clock listen (s, w) = (None, s', w')"
  shows "\<exists>d. sv_dev s' = Some d \<and> \<not> td_closed d \<and> peers_wf (in_force s')
    \<and> (\<forall>ip. limiterFor s' ip \<noteq> None \<longleftrightarrow> (\<exists>p \<in> set (in_force s'). pc_TunnelIP p = Unmap ip))
    \<and> (keys_faithful (in_force s') \<longrightarrow> dev_sync (tbl (the (td_dev d)) w') (in_force s'))"
proof -
  obtain pk s1 wt opts dev w1 s4 w2 w3 ap where
      st: "resolveSecret osw (sc_PrivateKey (sv_cfg s)) (s\<lparr>sv_started := True\<rparr>) = (Inr pk, s1)"
        "newPeerWatcher env (sc_PeersFile (sv_cfg s1)) = Inr wt"
        "newTunnelDevice lib opts w = (Inr dev, w1)"
        "initial_loop lib osw (cfg_peers (pw_Config wt)) (s1\<lparr>sv_watcher := Some wt, sv_dev := Some dev\<rparr>, w1) = (None, s4, w2)"
        "listen ap w2 = (None, w')" "s' = refreshPeers clock (pw_Config wt) s4"
    using assms(5) by (auto simp: run_startup_def Let_def split: if_splits prod.splits sum.splits option.splits)
  let ?ps = "cfg_peers (pw_Config wt)"
  let ?s3 = "s1\<lparr>sv_watcher := Some wt, sv_dev := Some dev\<rparr>"
  have loop: "apply_loop lib osw False ?ps (?s3, w1) = ([], s4, w2)" by (rule initial_loop_apply [OF st(4)])
  note fl = apply_loop_fields [OF loop]
  have wf: "peers_wf ?ps" using newPeerWatcher_inv [OF st(2)] by (simp add: watcher_inv_def pw_Config_def)
  have f: "in_force s' = ?ps" "sv_dev s' = Some dev" using fl by (simp_all add: st(6) in_force_def)
  have t: "tables_inv s4" using assms(4) fl resolveSecret_fields [OF st(1)] by (simp add: tables_inv_def)
  have e: "tbl (the (td_dev dev)) w1 = empty_table" by (rule assms(2) [OF st(3)])
  have "dom (wt_peers (tbl (the (td_dev dev)) w2)) = hexkey ` set ?ps
      \<and> wt_routes (tbl (the (td_dev dev)) w2) = routes_of ?ps \<and> wt_wf (tbl (the (td_dev dev)) w2)" if "keys_faithful ?ps"
    using apply_loop_table [OF assms(1) loop, of dev] keys_faithful_distinct [OF that order_refl wf]
      peers_wf_distinct_ipt [OF wf] wf
    by (simp add: e empty_table_def written_empty peers_wf_def wt_wf_def)
  then have "keys_faithful ?ps \<longrightarrow> dev_sync (tbl (the (td_dev dev)) w') ?ps"
    using assms(3) [OF st(5)] by (simp add: dev_sync_def)
  then show ?thesis
    using f wf refreshPeers_dom [OF t wf] newTunnelDevice_open [OF st(3)] by (simp add: st(6))
qed

text \<open>A start-up that fails.\<close>

lemma unwind_early:
  "unwind lib AfterWatcher (s, w) = (close_watcher s, w)"
  "sv_dev s = Some d \<Longrightarrow> td_dev d = Some h \<Longrightarrow> \<not> td_closed d \<Longrightarrow>
     unwind lib AfterDevice (s, w) = (close_watcher (s\<lparr>sv_dev := Some (d\<lparr>td_closed := True\<rparr>)\<rparr>), DevClose lib h w)"
  by (simp_all add: unwind_def run_exit_def run_defers_def run_action_def close_device_def dev_Close_def)

lemma close_watcher_fields [simp]:
  "sv_dev (close_watcher s) = sv_dev s" "sv_started (close_watcher s) = sv_started s"
  "sv_watcher (close_watcher s) = Some wt \<Longrightarrow> pw_closed wt"
proof -
  have "pw_closed (snd (pw_Close x None))" for x by (simp add: pw_Close_def)
  then show "sv_watcher (close_watcher s) = Some wt \<Longrightarrow> pw_closed wt" by (auto simp: close_watcher_def)
qed (simp_all add: close_watcher_def)

lemma initial_loop_fields:
  "initial_loop lib osw ps (s, w) = (e, s', w') \<Longrightarrow> sv_dev s' = sv_dev s \<and> sv_started s' = sv_started s"
proof (induction ps arbitrary: s w)
  case (Cons p ps)
  obtain r s1 w1 where a: "srv_applyPeer lib osw p False (s, w) = (r, s1, w1)" by (metis prod.collapse)
  then have "sv_dev s1 = sv_dev s \<and> sv_started s1 = sv_started s"
    by (auto simp: srv_applyPeer_def resolveSecret_def Let_def split: prod.splits sum.splits option.splits if_splits)
  then show ?case using Cons a by (auto split: option.splits)
qed simp

definition released :: "'w wglib \<Rightarrow> Server \<times> 'w \<Rightarrow> Server \<times> 'w \<Rightarrow> bool" where
  "released lib = (\<lambda>(s, w) (s', w').
     sv_started s' \<and> (\<forall>wt. sv_watcher s' = Some wt \<longrightarrow> pw_closed wt)
     \<and> (case sv_dev s' of
          None \<Rightarrow> w' = w \<or> (\<exists>opts err. newTunnelDevice lib opts w = (Inl err, w'))
        | Some d \<Rightarrow> td_closed d \<and> (\<exists>w2. w' = DevClose lib (the (td_dev d)) w2)))"

lemma startup_failure:
  assumes "run_startup lib osw env clock listen (s, w) = (Some err, s', w')"
    and "\<not> sv_started s" "sv_dev s = None" "sv_watcher s = None"
  shows "released lib (s, w) (s', w')"
proof -
  let ?s0 = "s\<lparr>sv_started := True\<rparr>"
  obtain r s1 where k: "resolveSecret osw (sc_PrivateKey (sv_cfg ?s0)) ?s0 = (r, s1)" by fastforce
  then have s1: "sv_started s1" "sv_dev s1 = None" "sv_watcher s1 = None"
    using assms(3,4) resolveSecret_fields [OF k] by (auto simp: resolveSecret_def split: option.splits sum.splits)
  note run = assms(1) [unfolded run_startup_def, simplified, unfolded Let_def]
  show ?thesis
  proof (cases "\<exists>pk wt opts dev w1. r = Inr pk \<and> newPeerWatcher env (sc_PeersFile (sv_cfg s1)) = Inr wt
      \<and> opts = \<lparr>do_TunnelIP = sc_TunnelIP (sv_cfg s1), do_MTU = sc_MTU (sv_cfg s1), do_PrivateKey = pk,
          do_ListenPort = sc_ListenPort (sv_cfg s1), do_LogLevel = 1\<rparr> \<and> newTunnelDevice lib opts w = (Inr dev, w1)")
    case False
    then show ?thesis
      using run assms(2) k s1
      by (auto simp: released_def unwind_early split: sum.splits prod.splits)
  next
    case True
    then obtain pk wt opts dev w1 where d: "r = Inr pk" "newPeerWatcher env (sc_PeersFile (sv_cfg s1)) = Inr wt"
        "opts = \<lparr>do_TunnelIP = sc_TunnelIP (sv_cfg s1), do_MTU = sc_MTU (sv_cfg s1), do_PrivateKey = pk,
          do_ListenPort = sc_ListenPort (sv_cfg s1), do_LogLevel = 1\<rparr>" "newTunnelDevice lib opts w = (Inr dev, w1)" by blast
    then obtain h where h: "td_dev dev = Some h" "\<not> td_closed dev" using newTunnelDevice_open [OF d(4)] by auto
    have u: "released lib (s, w) x" if "unwind lib AfterDevice (t, w2) = x" "sv_dev t = Some dev" "sv_started t" for t w2 x
      using unwind_early(2) [OF that(2) h, of lib w2] that(1,3) h(1) by (auto simp: released_def)
    have "sv_started (fold close_limiter ls t) = sv_started t" for ls t
      by (induction ls arbitrary: t) (simp_all add: close_limiter_def split: prod.split)
    then have rf: "sv_started (refreshPeers clock c t) = sv_started t" for c t
      by (simp add: refreshPeers_def refresh_locked_def split: prod.splits)
    obtain e s4 w2 where l: "initial_loop lib osw (cfg_peers (pw_Config wt)) (s1\<lparr>sv_watcher := Some wt, sv_dev := Some dev\<rparr>, w1) = (e, s4, w2)"
      by (metis prod.collapse)
    have s4: "sv_dev s4 = Some dev" "sv_started s4" using initial_loop_fields [OF l] s1(1) by simp_all
    show ?thesis
      using run assms(2) k d l s4 by (auto simp: rf dest!: u split: option.splits prod.splits)
  qed
qed

definition example_cfg :: ServerConfig where
  "example_cfg = \<lparr>sc_ListenPort = 51820, sc_PrivateKey = ''env:K'', sc_TunnelIP = serverTunnelIP, sc_MTU = 1280,
     sc_PeersFile = ''p'', sc_Resolver = None\<rparr>"


definition fresh_lib :: "wg_table wglib" where
  "fresh_lib = ref_lib\<lparr>NewDevice := (\<lambda>_ _ w. (0, empty_table))\<rparr>"

definition example_keyworld :: osworld where
  "example_keyworld = \<lparr>os_open = (\<lambda>_. Inl io_EOF), os_env = (\<lambda>_. Some example_key)\<rparr>"

definition example_new :: Server where
  "example_new = \<lparr>sv_cfg = example_cfg, sv_started = False, sv_dev = None, sv_watcher = None, sv_peerNames = [],
     sv_limiters = [], sv_heap = (\<lambda>_. nil_limiter), sv_next = 0, sv_pskCache = [], sv_reaped = []\<rparr>"

lemma show_int_no_newline: "CHR 0x0A \<notin> set (show_int i)"
  using show_nat_no_newline by (simp add: show_int_def)

lemma uapi_set_device:
  assumes "hex_key k"
  shows "uapi_set (uline ''private_key'' k @ (if b then uline ''listen_port'' (show_int i) else [])) t = t"
proof -
  have "uapi_lines (uline ''private_key'' k @ (if b then uline ''listen_port'' (show_int i) else [])) =
      (''private_key'', k) # (if b then [(''listen_port'', show_int i)] else [])"
    using hex_key_no_newline [OF assms] show_int_no_newline by (simp add: uapi_lines_uline uapi_lines_last)
  then show ?thesis by (simp add: uapi_set_def uapi_line_def)
qed

lemma fresh_lib_new:
  assumes "newTunnelDevice fresh_lib opts w = (Inr d, w')"
  shows "w' = empty_table"
proof (cases "device_checks opts")
  case (Inr r)
  obtain mtu k where r: "r = (mtu, k)" by (cases r)
  have "hex_key k" using device_checks_Inr [OF Inr [unfolded r]] keyToHex_hex_key by blast
  then show ?thesis
    using assms uapi_set_device by (simp add: newTunnelDevice_def Inr r fresh_lib_def ref_lib_def Let_def)
qed (use assms in \<open>simp add: newTunnelDevice_def\<close>)

lemma fresh_follows: "follows_uapi fresh_lib (\<lambda>_ w. w)"
  by (simp add: follows_uapi_def fresh_lib_def ref_lib_def)

lemma example_device:
  "\<exists>d w'. newTunnelDevice fresh_lib \<lparr>do_TunnelIP = serverTunnelIP, do_MTU = 1280, do_PrivateKey = Secret example_key,
     do_ListenPort = 51820, do_LogLevel = 1\<rparr> w = (Inr d, w')"
  by (simp add: newTunnelDevice_def device_checks_def serverTunnelIP_def tunnelSubnet_def Contains_24 drop_bit_eq_div
      minMTU_def maxMTU_def example_keyToHex fresh_lib_def ref_lib_def)

lemma example_startup:
  "\<exists>s' w'. run_startup fresh_lib example_keyworld example_env (\<lambda>_. 0) (\<lambda>_ w. (None, w)) (example_new, empty_table)
     = (None, s', w') \<and> in_force s' = []"
proof -
  obtain d w' where d: "newTunnelDevice fresh_lib \<lparr>do_TunnelIP = serverTunnelIP, do_MTU = 1280,
      do_PrivateKey = Secret example_key, do_ListenPort = 51820, do_LogLevel = 1\<rparr> empty_table = (Inr d, w')"
    using example_device by blast
  have p: "parseSecretRef ''env:K'' = Inr (''env'', ''K'')" by code_simp
  have k: "secret_Resolve None example_keyworld ''env:K'' = Inr (Secret example_key)"
    by (simp add: secret_Resolve_def p resolveEnv_def example_keyworld_def example_key_def)
  obtain wt where w: "newPeerWatcher example_env ''p'' = Inr wt" "pw_cur wt = example_empty"
    using example_env_load by (auto simp: newPeerWatcher_def Let_def example_env_def)
  show ?thesis
    by (simp add: run_startup_def Let_def example_new_def example_cfg_def resolveSecret_def k w d pw_Config_def
        in_force_def, simp add: example_empty_def w pw_Config_def)
qed

text \<open>
  Claim C39. A peer whose first installation failed is never installed by a later edit. A reload
  whose difference only changes entries leaves the set of keys on the device as it is and can still
  report success: a changed entry is applied with \<^verbatim>\<open>update_only\<close>, which does nothing for a key the
  device does not hold.
\<close>

theorem changed_entry_never_installs:
  assumes "follows_uapi lib tbl" "sv_dev s = Some d" "wt_wf (tbl (the (td_dev d)) w)"
    and "Added df = []" "Removed df = []" "list_all peer_wf (Changed df)"
    and "applyDiff lib osw df (s, w) = (None, s', w')"
  shows "dom (wt_peers (tbl (the (td_dev d)) w')) = dom (wt_peers (tbl (the (td_dev d)) w))"
proof -
  have "apply_loop lib osw True (Changed df) (s, w) = ([], s', w')"
    using assms(2,4,5,7) by (auto simp: applyDiff_def errors_Join_None split: prod.splits)
  then show ?thesis using applyDiff_updates_dom [OF assms(1) _ assms(2,3,6)] by blast
qed

definition example_changed :: peerDiff where
  "example_changed = \<lparr>Added = [], Removed = [], Changed = [example_config ''a'' example_key]\<rparr>"

lemma example_config_wf: "peer_wf (example_config ''a'' example_key)"
  by (rule validatePeer_wf [OF example_validatePeer(1)])

lemma example_psk: "secret_Resolve None example_keyworld ''env:PSK'' = Inr (Secret example_key)"
proof -
  have "parseSecretRef ''env:PSK'' = Inr (''env'', ''PSK'')" by code_simp
  then show ?thesis by (simp add: secret_Resolve_def resolveEnv_def example_keyworld_def example_key_def)
qed

lemma example_update:
  "\<exists>s' w'. applyDiff ref_lib example_keyworld example_changed (example_server, empty_table) = (None, s', w')"
proof -
  let ?dp = "\<lparr>dp_PublicKey = example_key, dp_PresharedKey = Secret example_key, dp_AllowedIP = Addr4 0x0A630007,
      dp_Endpoint = addrport_zero\<rparr>"
  obtain w' where "UpdatePeer ref_lib ref_dev ?dp empty_table = (None, w')"
    using example_apply [of True] by (auto simp: UpdatePeer_def example_dpeer_def)
  then show ?thesis
    by (simp add: applyDiff_def example_changed_def example_server_def srv_applyPeer_def resolveSecret_def
        example_config_def zero_ServerConfig_def example_psk errors_Join_def)
qed

theorem changed_entry_never_installs_witness:
  "\<exists>s' w'. applyDiff ref_lib example_keyworld example_changed (example_server, empty_table) = (None, s', w')
     \<and> wt_peers w' example_hex = None"
proof -
  obtain s' w' where a: "applyDiff ref_lib example_keyworld example_changed (example_server, empty_table) = (None, s', w')"
    using example_update by blast
  have "dom (wt_peers w') = dom (wt_peers empty_table)"
    by (rule changed_entry_never_installs [OF ref_follows _ _ _ _ _ a, where d = ref_dev])
      (simp_all add: example_server_def example_changed_def example_config_wf)
  then show ?thesis using a by (auto simp: empty_table_def)
qed

text \<open>
  Two spellings of one key cost a peer its route. When two peers of a list differ in
  their address and spell the same key in two ways, installing both succeeds and leaves the first
  peer's address without a route: the device has one entry for the key, and it belongs to the
  second address.
\<close>

theorem aliased_key_loses_route:
  assumes "follows_uapi lib tbl" "sv_dev s = Some d" "wt_wf (tbl (the (td_dev d)) w)"
    and "peer_wf p" "peer_wf q" "hexkey p = hexkey q" "pc_TunnelIP p \<noteq> pc_TunnelIP q"
    and "initial_loop lib osw [p, q] (s, w) = (None, s', w')"
  shows "wt_routes (tbl (the (td_dev d)) w') (ipt p) = None
    \<and> wt_routes (tbl (the (td_dev d)) w') (ipt q) = Some (hexkey p)"
proof -
  obtain s1 w1 s2 where a: "srv_applyPeer lib osw p False (s, w) = (None, s1, w1)"
      "srv_applyPeer lib osw q False (s1, w1) = (None, s2, w')"
    using assms(8) by (auto split: prod.splits option.splits)
  obtain psk where 1: "sv_dev s1 = Some d" "tbl (the (td_dev d)) w1 = put_peer (hexkey p) psk None (ipt p) (tbl (the (td_dev d)) w)"
    using srv_applyPeer_table [OF assms(1) a(1) assms(2,3,4)] by auto
  obtain psk' where 2: "tbl (the (td_dev d)) w' = put_peer (hexkey q) psk' None (ipt q) (tbl (the (td_dev d)) w1)"
    using srv_applyPeer_table [OF assms(1) a(2) 1(1) _ assms(5)] put_peer_wf [OF assms(3)] 1(2) by auto
  have "ipt p \<noteq> ipt q" using ipt_inj assms(4,5,7) by simp
  then show ?thesis unfolding 2 1(2) put_peer_routes using assms(6) by simp
qed

lemma alias_keyToHex: "keyToHex example_alias = Inr example_hex"
  by code_simp

lemma example_b_wf: "peer_wf (example_config ''b'' example_alias)"
  by (rule validatePeer_wf [OF example_validatePeer(2)])

lemma example_install:
  assumes "sv_dev s = Some ref_dev" "map_of (sv_pskCache s) ''env:PSK'' = None" "sc_Resolver (sv_cfg s) = None"
    "key \<in> {example_key, example_alias}"
  shows "\<exists>w'. srv_applyPeer ref_lib example_keyworld (example_config n key) False (s, w) =
    (None, s\<lparr>sv_pskCache := AList.update ''env:PSK'' (Secret example_key) (sv_pskCache s)\<rparr>, w')"
proof -
  have k: "keyToHex key = Inr example_hex" using assms(4) example_keyToHex alias_keyToHex by auto
  have "\<exists>cfg. ipcConfig \<lparr>dp_PublicKey = key, dp_PresharedKey = Secret example_key,
      dp_AllowedIP = pc_TunnelIP (example_config n key), dp_Endpoint = addrport_zero\<rparr> False = Inr cfg"
    by (simp add: ipcConfig_def k example_keyToHex tunnelSubnet_def Contains_24 drop_bit_eq_div example_config_def)
  then show ?thesis
    using assms
    by (auto simp: srv_applyPeer_def resolveSecret_def example_psk AddPeer_def applyPeer_def dev_ipc_def ref_lib_def
        Let_def example_config_def)
qed

lemma example_install_both:
  "\<exists>s' w'. initial_loop ref_lib example_keyworld [example_config ''a'' example_key, example_config ''b'' example_alias]
     (example_server, empty_table) = (None, s', w')"
proof -
  let ?s1 = "example_server\<lparr>sv_pskCache := AList.update ''env:PSK'' (Secret example_key) (sv_pskCache example_server)\<rparr>"
  obtain w1 where 1: "srv_applyPeer ref_lib example_keyworld (example_config ''a'' example_key) False (example_server, empty_table)
      = (None, ?s1, w1)"
    using example_install [of example_server example_key "''a''" empty_table]
    by (auto simp: example_server_def zero_ServerConfig_def)
  have "\<exists>cfg. ipcConfig \<lparr>dp_PublicKey = example_alias, dp_PresharedKey = Secret example_key,
      dp_AllowedIP = Addr4 0x0A630008, dp_Endpoint = addrport_zero\<rparr> False = Inr cfg"
    by (simp add: ipcConfig_def alias_keyToHex example_keyToHex tunnelSubnet_def Contains_24 drop_bit_eq_div)
  then have "\<exists>s' w'. srv_applyPeer ref_lib example_keyworld (example_config ''b'' example_alias) False (?s1, w1) = (None, s', w')"
    by (auto simp: srv_applyPeer_def resolveSecret_def AddPeer_def applyPeer_def dev_ipc_def ref_lib_def
        Let_def example_config_def example_server_def)
  then show ?thesis using 1 by auto
qed

theorem aliased_key_loses_route_witness:
  "\<exists>s' w'. initial_loop ref_lib example_keyworld [example_config ''a'' example_key, example_config ''b'' example_alias]
       (example_server, empty_table) = (None, s', w')
     \<and> wt_routes w' (ipt (example_config ''a'' example_key)) = None"
proof -
  obtain s' w' where l: "initial_loop ref_lib example_keyworld [example_config ''a'' example_key, example_config ''b'' example_alias]
      (example_server, empty_table) = (None, s', w')"
    using example_install_both by blast
  have h: "hexkey (example_config ''a'' example_key) = hexkey (example_config ''b'' example_alias)"
    by (simp add: hexkey_def example_config_def example_keyToHex alias_keyToHex)
  have n: "pc_TunnelIP (example_config ''a'' example_key) \<noteq> pc_TunnelIP (example_config ''b'' example_alias)"
    by (simp add: example_config_def)
  have d: "sv_dev example_server = Some ref_dev" by (simp add: example_server_def)
  show ?thesis
    using l aliased_key_loses_route [OF ref_follows d empty_table_wf example_config_wf example_b_wf h n l] by blast
qed

text \<open>
  Claim C10. Starting up is all or nothing. When it succeeds, the server listens, it has a limiter for
  exactly the addresses of the loaded list, its device is open and, unless two entries of the list spell
  one key in two ways (which the loader accepts and which costs a peer its route), the device holds
  exactly that list. When it fails, at whatever point, what it had opened is closed again: the watch of
  the peers file is closed, and a device that was made has been closed as the last thing done to the
  library, which otherwise has not been used, or refused to make the device; and the server cannot be
  started a second time. The hypotheses on the library say that a new device has no peers and that
  listening does not touch its peer table.
\<close>

theorem startup_all_or_nothing:
  assumes "follows_uapi lib tbl"
    and "\<And>opts w d w'. newTunnelDevice lib opts w = (Inr d, w') \<Longrightarrow> tbl (the (td_dev d)) w' = empty_table"
    and "\<And>ap w e w' h. listen ap w = (e, w') \<Longrightarrow> tbl h w' = tbl h w"
    and "tables_inv s" "\<not> sv_started s" "sv_dev s = None" "sv_watcher s = None"
    and "run_startup lib osw env clock listen (s, w) = (r, s', w')"
  shows "case r of
      None \<Rightarrow> \<exists>d. sv_dev s' = Some d \<and> \<not> td_closed d \<and> peers_wf (in_force s')
        \<and> (\<forall>ip. limiterFor s' ip \<noteq> None \<longleftrightarrow> (\<exists>p \<in> set (in_force s'). pc_TunnelIP p = Unmap ip))
        \<and> (keys_faithful (in_force s') \<longrightarrow> dev_sync (tbl (the (td_dev d)) w') (in_force s'))
    | Some err \<Rightarrow> released lib (s, w) (s', w')"
  using startup_success [where lib = lib and listen = listen, OF assms(1-4)] startup_failure [OF _ assms(5-7)] assms(8)
  by (auto split: option.split)

text \<open>A peers file with one peer, a listener that works and one that does not.\<close>

definition example_env1 :: fsenv where
  "example_env1 = example_env\<lparr>fe_Decode1 := \<lambda>_. Inr \<lparr>psy_Peers = [example_peer ''a'' example_key ''10.99.0.7'']\<rparr>\<rparr>"

lemma example_env1_load: "\<exists>pol. load_peers example_env1 ''p'' = Inr \<lparr>cfg_peers = [example_config ''a'' example_key], cfg_policy = pol\<rparr>"
proof -
  have "peers_loop ''p'' 0 [] [example_peer ''a'' example_key ''10.99.0.7''] = Inr [example_config ''a'' example_key]"
    by (simp add: example_validatePeer)
  moreover have "\<exists>pol. newPolicy (map peer_policy [example_config ''a'' example_key]) = Inr pol"
    by (simp add: newPolicy_Inr peer_policy_def example_config_def peer_ok_def entry_ok_def
        backend_ok_def ap_IsValid_def IsUnspecified_def example_parses)
  ultimately show ?thesis
    by (auto simp: load_peers_def LoadPeersConfig_def decodeStrict_def buildPeersConfig_def example_env1_def example_env_def)
qed

lemma example_fresh_apply:
  assumes "td_dev d \<noteq> None" "sv_dev s = Some d" "map_of (sv_pskCache s) ''env:PSK'' = None" "sc_Resolver (sv_cfg s) = None" "p = example_config ''a'' example_key"
  shows "\<exists>s' w'. srv_applyPeer fresh_lib example_keyworld p False (s, w) = (None, s', w')"
proof -
  have "\<exists>cfg. ipcConfig \<lparr>dp_PublicKey = example_key, dp_PresharedKey = Secret example_key,
      dp_AllowedIP = Addr4 0x0A630007, dp_Endpoint = addrport_zero\<rparr> False = Inr cfg"
    by (simp add: ipcConfig_def example_keyToHex tunnelSubnet_def Contains_24 drop_bit_eq_div)
  then show ?thesis
    using assms
    by (auto simp: srv_applyPeer_def resolveSecret_def example_psk AddPeer_def applyPeer_def dev_ipc_def fresh_lib_def ref_lib_def
        Let_def example_config_def)
qed

lemma example_startup1:
  "\<exists>s' w' f. (\<forall>x. run_startup fresh_lib example_keyworld example_env1 (\<lambda>_. 0) (\<lambda>_ w. (x, w)) (example_new, empty_table) =
       (case x of None \<Rightarrow> (None, s', w') | Some err \<Rightarrow> (Some (f err), unwind fresh_lib AfterDevice (s', w'))))
     \<and> in_force s' = [example_config ''a'' example_key] \<and> (\<exists>d. sv_dev s' = Some d \<and> td_dev d \<noteq> None \<and> \<not> td_closed d)"
proof -
  obtain d w1 where d: "newTunnelDevice fresh_lib \<lparr>do_TunnelIP = serverTunnelIP, do_MTU = 1280,
      do_PrivateKey = Secret example_key, do_ListenPort = 51820, do_LogLevel = 1\<rparr> empty_table = (Inr d, w1)"
    using example_device by blast
  have p: "parseSecretRef ''env:K'' = Inr (''env'', ''K'')" by code_simp
  have k: "secret_Resolve None example_keyworld ''env:K'' = Inr (Secret example_key)"
    by (simp add: secret_Resolve_def p resolveEnv_def example_keyworld_def example_key_def)
  obtain wt pol where w: "newPeerWatcher example_env1 ''p'' = Inr wt"
      "pw_cur wt = \<lparr>cfg_peers = [example_config ''a'' example_key], cfg_policy = pol\<rparr>"
    using example_env1_load by (auto simp: newPeerWatcher_def Let_def example_env_def example_env1_def)
  let ?s3 = "example_new\<lparr>sv_started := True, sv_pskCache := [(''env:K'', Secret example_key)], sv_watcher := Some wt, sv_dev := Some d\<rparr>"
  obtain s4 w4 where a: "srv_applyPeer fresh_lib example_keyworld (example_config ''a'' example_key) False (?s3, w1) = (None, s4, w4)"
    using example_fresh_apply [of d ?s3 "example_config ''a'' example_key" w1] newTunnelDevice_open [OF d]
    by (auto simp: example_new_def example_cfg_def)
  have r: "run_startup fresh_lib example_keyworld example_env1 (\<lambda>_. 0) (\<lambda>_ w. (x, w)) (example_new, empty_table) =
      (let s5 = refreshPeers (\<lambda>_. 0) (pw_Config wt) s4 in case x of None \<Rightarrow> (None, s5, w4)
       | Some err \<Rightarrow> (Some (errorf_w (''gocloak: server: listen on '' @ Addr_String (sc_TunnelIP (sv_cfg s5)) @ '':''
                  @ show_nat (unat tunnelServicePort) @ '': '') err ''''), unwind fresh_lib AfterDevice (s5, w4)))" for x
    using a by (simp add: run_startup_def Let_def example_new_def example_cfg_def resolveSecret_def k w d pw_Config_def split: option.split)
  have f: "sv_dev s4 = Some d" "sv_watcher s4 = Some wt" using srv_applyPeer_fields [OF a] by simp_all
  have g: "in_force (refreshPeers (\<lambda>_. 0) (pw_Config wt) s4) = [example_config ''a'' example_key]"
    using f w by (simp add: in_force_def pw_Config_def)
  show ?thesis
    using f g newTunnelDevice_open [OF d]
    by (intro exI [of _ "refreshPeers (\<lambda>_. 0) (pw_Config wt) s4"] exI [of _ w4]
      exI [of _ "\<lambda>err. errorf_w (''gocloak: server: listen on '' @ Addr_String (sc_TunnelIP (sv_cfg (refreshPeers (\<lambda>_. 0) (pw_Config wt) s4))) @ '':''
                  @ show_nat (unat tunnelServicePort) @ '': '') err ''''"])
      (simp add: r Let_def)
qed

theorem startup_all_or_nothing_witness:
  "(\<exists>s' w'. run_startup fresh_lib example_keyworld example_env1 (\<lambda>_. 0) (\<lambda>_ w. (None, w)) (example_new, empty_table) = (None, s', w')
      \<and> in_force s' = [example_config ''a'' example_key] \<and> dev_sync w' (in_force s'))
   \<and> (\<exists>err s' w'. run_startup fresh_lib example_keyworld example_env1 (\<lambda>_. 0) (\<lambda>_ w. (Some io_EOF, w)) (example_new, empty_table)
      = (Some err, s', w') \<and> (\<exists>d. sv_dev s' = Some d \<and> td_closed d))"
proof -
  have i: "tables_inv example_new" "\<not> sv_started example_new" "sv_dev example_new = None" "sv_watcher example_new = None"
    by (simp_all add: tables_inv_def example_new_def)
  obtain s5 w5 f where
      r: "run_startup fresh_lib example_keyworld example_env1 (\<lambda>_. 0) (\<lambda>_ w. (x, w)) (example_new, empty_table) =
       (case x of None \<Rightarrow> (None, s5, w5) | Some err \<Rightarrow> (Some (f err), unwind fresh_lib AfterDevice (s5, w5)))"
      and s5: "in_force s5 = [example_config ''a'' example_key]" "\<exists>d. sv_dev s5 = Some d \<and> td_dev d \<noteq> None \<and> \<not> td_closed d" for x
    using example_startup1 by blast
  have a: "case x of
      None \<Rightarrow> keys_faithful (in_force s') \<longrightarrow> dev_sync w' (in_force s')
    | Some err \<Rightarrow> released fresh_lib (example_new, empty_table) (s', w')"
    if "run_startup fresh_lib example_keyworld example_env1 (\<lambda>_. 0) (\<lambda>_ w. (y, w)) (example_new, empty_table) = (x, s', w')" for x y s' w'
    using startup_all_or_nothing [OF fresh_follows fresh_lib_new _ i that] by (cases x) fastforce+
  obtain s6 w6 where u: "unwind fresh_lib AfterDevice (s5, w5) = (s6, w6)" by fastforce
  obtain d h where d: "sv_dev s5 = Some d" "td_dev d = Some h" "\<not> td_closed d" using s5(2) by blast
  then have "sv_dev s6 \<noteq> None" using u unwind_early(2) [OF d, of fresh_lib w5] by auto
  then show ?thesis
    using a [OF r [of None, simplified]] a [OF r [of "Some io_EOF", simplified option.case u]] r [of None] r [of "Some io_EOF"] s5(1)
    by (auto simp: u keys_faithful_def released_def split: option.splits)
qed

text \<open>A reload from the empty list to the list of one peer.\<close>

theorem reload_keeps_device_in_step_witness:
  "\<exists>s' w'. server_reload ref_lib example_keyworld example_env1 (\<lambda>_. 0) (example_server, empty_table) = (None, s', w')
     \<and> in_force s' = [example_config ''a'' example_key] \<and> dev_sync w' (in_force s')"
proof -
  obtain r s' w' where e: "server_reload ref_lib example_keyworld example_env1 (\<lambda>_. 0) (example_server, empty_table) = (r, s', w')"
    by (metis prod.collapse)
  obtain pol where l: "load_peers example_env1 ''p'' = Inr \<lparr>cfg_peers = [example_config ''a'' example_key], cfg_policy = pol\<rparr>"
      (is "_ = Inr ?cfg")
    using example_env1_load by blast
  have df: "diffPeers [] [example_config ''a'' example_key] = \<lparr>Added = [example_config ''a'' example_key], Removed = [], Changed = []\<rparr>"
    by (simp add: diffPeers_def peers_by_key_def)
  have f: "sv_dev example_server = Some ref_dev" "sv_watcher example_server = Some example_watcher" "in_force example_server = []"
    by (simp_all add: example_server_def in_force_def pw_Config_def example_watcher_def example_empty_def)
  let ?s1 = "refreshPeers (\<lambda>_. 0) ?cfg (example_server\<lparr>sv_watcher := Some (example_watcher\<lparr>pw_cur := ?cfg,
      pw_seen := statFileID example_env1 ''p''\<rparr>)\<rparr>)"
  have s1: "sv_dev ?s1 = Some ref_dev" "map_of (sv_pskCache ?s1) ''env:PSK'' = None" "sc_Resolver (sv_cfg ?s1) = None"
    by (simp_all add: example_server_def zero_ServerConfig_def)
  obtain s2 w2 where a: "srv_applyPeer ref_lib example_keyworld (example_config ''a'' example_key) False (?s1, empty_table) = (None, s2, w2)"
    using example_install [OF s1, of example_key "''a''" empty_table] by auto
  have wt: "pw_path example_watcher = ''p''" "cfg_peers (pw_cur example_watcher) = []"
    by (simp_all add: example_watcher_def example_empty_def)
  have r: "r = None"
    using e a s1(1) by (simp add: server_reload_def reload_def reloadLocked_def handleReload_def Let_def f(2) wt l df
        applyDiff_def errors_Join_def pw_Config_def split: prod.splits)
  have i: "in_force s' = [example_config ''a'' example_key]"
    using server_reload_in_force [OF f(2) _ e, of ?cfg] l by (simp add: wt)
  have k: "keys_faithful (in_force example_server @ in_force s')" by (simp add: f(3) i keys_faithful_def)
  have "dev_sync w' (in_force s')"
    using reload_keeps_device_in_step [OF ref_follows f(1,2) example_watcher_inv _ e [unfolded r] k]
      example_empty_sync f(3) by simp
  then show ?thesis using e r i by blast
qed

end
