(* ===== verification/Serving.thy ===== *)
theory Serving
  imports Handler Sync
begin

text \<open>
  The running server: any number of connection handlers, the watcher's callback that replaces the
  tables, the closing of the connections of limiters that are gone, and the shutdown, interleaved
  in any order the locks of \<^verbatim>\<open>src/server.go\<close> allow. The state is the server with its handlers;
  the publication of a new list by the watcher and the rebuilding of the tables are separate
  steps, as they are under different locks, and so are draining a live set (under the limiter's
  lock) and closing each of its connections (outside it). The application of the difference to
  the device comes after them in the same goroutine and touches none of this state.
\<close>

section \<open>Definitions\<close>

record world =
  w_srv :: Server
  w_handlers :: "handler list"
  w_fresh :: bool              \<comment> \<open>a list is published and the tables are not rebuilt yet\<close>
  w_gone :: "nat list"         \<comment> \<open>limiters whose live set is still to be drained\<close>
  w_closing :: "nat list"      \<comment> \<open>connections taken from a live set and still to be closed\<close>
  w_cancelled :: bool
  w_draining :: bool

definition close_pair :: "nat \<Rightarrow> handler list \<Rightarrow> handler list" where
  "close_pair i hs = hs[i := (hs ! i)\<lparr>h_conn := conn_close (h_conn (hs ! i)), h_backend := conn_close (h_backend (hs ! i))\<rparr>]"

definition store :: "nat \<Rightarrow> peerLimiter \<Rightarrow> Server \<Rightarrow> Server" where
  "store l p s = s\<lparr>sv_heap := (sv_heap s)(l := p)\<rparr>"

inductive serve :: "world \<Rightarrow> world \<Rightarrow> bool" where
  accept: "\<not> w_draining w \<Longrightarrow> tx c = [] \<Longrightarrow>
     serve w (w\<lparr>w_handlers := w_handlers w @ [new_handler (length (w_handlers w)) remote c]\<rparr>)"
| handle: "i < length (w_handlers w) \<Longrightarrow> in_ev inp = CtxCancel \<longrightarrow> w_cancelled w \<Longrightarrow>
     handler_step inp (w_srv w, w_handlers w ! i) = (s', h') \<Longrightarrow>
     serve w (w\<lparr>w_srv := s', w_handlers := (w_handlers w)[i := h']\<rparr>)"
| publish: "\<not> w_draining w \<Longrightarrow> \<not> w_fresh w \<Longrightarrow> w_gone w = [] \<Longrightarrow> w_closing w = [] \<Longrightarrow>
     sv_watcher (w_srv w) = Some wt \<Longrightarrow> reload env wt = (r, wt') \<Longrightarrow>
     serve w (w\<lparr>w_srv := (w_srv w)\<lparr>sv_watcher := Some wt'\<rparr>, w_fresh := (rr_Err r = None)\<rparr>)"
| refresh: "w_fresh w \<Longrightarrow>
     refresh_locked clock (cfg_peers (pw_Config (the (sv_watcher (w_srv w))))) (w_srv w) = (gone, s') \<Longrightarrow>
     serve w (w\<lparr>w_srv := s', w_fresh := False, w_gone := gone\<rparr>)"
| reap: "w_closing w = [] \<Longrightarrow> w_gone w = l # ls \<Longrightarrow> closeLive (sv_heap (w_srv w) l) = (conns, p) \<Longrightarrow>
     serve w (w\<lparr>w_srv := store l p (w_srv w), w_gone := ls, w_closing := conns\<rparr>)"
| close: "w_closing w = i # js \<Longrightarrow>
     serve w (w\<lparr>w_handlers := close_pair i (w_handlers w), w_closing := js\<rparr>)"
| cancel: "serve w (w\<lparr>w_cancelled := True\<rparr>)"
| drain: "w_cancelled w \<Longrightarrow> \<not> w_draining w \<Longrightarrow> \<not> w_fresh w \<Longrightarrow> w_gone w = [] \<Longrightarrow> w_closing w = [] \<Longrightarrow>
     serve w (w\<lparr>w_draining := True, w_gone := map snd (sv_limiters (w_srv w))\<rparr>)"

definition serve_start :: "Server \<Rightarrow> world" where
  "serve_start s = \<lparr>w_srv = s, w_handlers = [], w_fresh = False, w_gone = [], w_closing = [],
     w_cancelled = False, w_draining = False\<rparr>"

text \<open>What a server that listens can become.\<close>

inductive serving :: "Server \<Rightarrow> world \<Rightarrow> bool" for s where
  start: "serving s (serve_start s)"
| more: "serving s w \<Longrightarrow> serve w w' \<Longrightarrow> serving s w'"

section \<open>Specification\<close>

definition holders :: "nat \<Rightarrow> handler list \<Rightarrow> nat" where
  "holders l hs = length (filter (\<lambda>h. DRelease l \<in> set (h_defers h)) hs)"

definition ip_of :: "handler \<Rightarrow> addr" where
  "ip_of h = the (remoteTunnelIP (h_remote h))"

text \<open>The stack of deferred calls is determined by how far the handler got.\<close>

definition base_defers :: "deferred list" where
  "base_defers = [DCloseConn, DWgDone]"

definition handler_ok :: "nat \<Rightarrow> handler \<Rightarrow> bool" where
  "handler_ok nxt h = (case h_pc h of
      PStart \<Rightarrow> h_defers h = base_defers
    | PLookup ip \<Rightarrow> h_defers h = base_defers \<and> remoteTunnelIP (h_remote h) = Some ip
    | PAcquire ip l \<Rightarrow> h_defers h = base_defers \<and> remoteTunnelIP (h_remote h) = Some ip \<and> l < nxt
    | PHello ip l \<Rightarrow> h_defers h = DRelease l # base_defers \<and> remoteTunnelIP (h_remote h) = Some ip \<and> l < nxt
    | PResolve ip l _ \<Rightarrow> h_defers h = DRelease l # base_defers \<and> remoteTunnelIP (h_remote h) = Some ip \<and> l < nxt
    | PDial ip l _ _ \<Rightarrow> h_defers h = DRelease l # base_defers \<and> remoteTunnelIP (h_remote h) = Some ip \<and> l < nxt
    | PTrack ip l _ \<Rightarrow> h_defers h = DCloseBackend # DRelease l # base_defers \<and> remoteTunnelIP (h_remote h) = Some ip \<and> l < nxt
    | PRecheck ip l _ \<Rightarrow> h_defers h = DCloseBackend # DRelease l # base_defers \<and> remoteTunnelIP (h_remote h) = Some ip \<and> l < nxt
    | PAnswer ip l _ \<Rightarrow> h_defers h = DUntrack l # DCloseBackend # DRelease l # base_defers \<and> remoteTunnelIP (h_remote h) = Some ip \<and> l < nxt
    | PClear ip l _ \<Rightarrow> h_defers h = DUntrack l # DCloseBackend # DRelease l # base_defers \<and> remoteTunnelIP (h_remote h) = Some ip \<and> l < nxt
    | PPipe ip l _ \<Rightarrow> h_defers h = DUntrack l # DCloseBackend # DRelease l # base_defers \<and> remoteTunnelIP (h_remote h) = Some ip \<and> l < nxt
    | PReturn \<Rightarrow> h_defers h = [] \<or> h_defers h = [DWgDone] \<or> h_defers h = base_defers
        \<or> (\<exists>l < nxt. h_defers h = DRelease l # base_defers \<or> h_defers h = DCloseBackend # DRelease l # base_defers
             \<or> h_defers h = DUntrack l # DCloseBackend # DRelease l # base_defers))"

text \<open>A handler that is in the live set of a limiter, or about to leave it.\<close>

definition tracking :: "nat \<Rightarrow> handler \<Rightarrow> bool" where
  "tracking l h = (DUntrack l \<in> set (h_defers h) \<or> (\<exists>ip sv. h_pc h = PRecheck ip l sv))"

definition both_closed :: "handler \<Rightarrow> bool" where
  "both_closed h = (conn.closed (h_conn h) \<and> conn.closed (h_backend h))"

text \<open>A registered connection: known to the reaper, or already in its hands, or closed.\<close>

definition guarded :: "world \<Rightarrow> nat \<Rightarrow> nat \<Rightarrow> bool" where
  "guarded w i l =
     (i \<in> set (live (sv_heap (w_srv w) l))
        \<and> (limiterFor (w_srv w) (ip_of (w_handlers w ! i)) = Some l \<or> l \<in> set (w_gone w))
      \<or> i \<in> set (w_closing w) \<or> both_closed (w_handlers w ! i))"

definition serve_inv :: "world \<Rightarrow> bool" where
  "serve_inv w =
     (tables_inv (w_srv w)
      \<and> (\<exists>wt. sv_watcher (w_srv w) = Some wt \<and> watcher_inv wt)
      \<and> (w_fresh w \<longrightarrow> w_gone w = [] \<and> w_closing w = [] \<and> \<not> w_draining w)
      \<and> (\<not> w_fresh w \<longrightarrow> (\<forall>(ip, l) \<in> set (sv_limiters (w_srv w)). \<exists>p \<in> set (in_force (w_srv w)).
            pc_TunnelIP p = ip \<and> pl_publicKey (sv_heap (w_srv w) l) = pc_PublicKey p))
      \<and> (\<forall>l < sv_next (w_srv w). active (sv_heap (w_srv w) l) = int (holders l (w_handlers w)))
      \<and> (\<forall>i < length (w_handlers w). h_id (w_handlers w ! i) = i \<and> handler_ok (sv_next (w_srv w)) (w_handlers w ! i))
      \<and> (\<forall>l < sv_next (w_srv w). \<forall>i \<in> set (live (sv_heap (w_srv w) l)).
            i < length (w_handlers w) \<and> tracking l (w_handlers w ! i))
      \<and> (\<forall>i < length (w_handlers w). \<forall>l. DUntrack l \<in> set (h_defers (w_handlers w ! i)) \<longrightarrow> guarded w i l)
      \<and> (\<forall>i < length (w_handlers w). \<forall>ip l sv. h_pc (w_handlers w ! i) = PRecheck ip l sv
            \<and> limiterFor (w_srv w) ip = Some l \<longrightarrow>
            i \<in> set (live (sv_heap (w_srv w) l)) \<or> i \<in> set (w_closing w) \<or> both_closed (w_handlers w ! i)))"

section \<open>Lemmas\<close>

subsection \<open>One step of a handler\<close>

lemmas step_defs = handler_step_def h_identify_def h_lookup_def h_admit_def h_hello_def h_resolve_def h_dial_def
  h_track_def h_recheck_def h_answer_def h_clear_def h_pipe_def h_deferred_def h_return_def h_refuse_returns

lemma step_same:
  assumes "handler_step inp (s, h) = (s', h')"
  shows "h_id h' = h_id h" "h_remote h' = h_remote h" "sv_limiters s' = sv_limiters s" "sv_next s' = sv_next s"
    "sv_watcher s' = sv_watcher s" "limiterFor s' ip = limiterFor s ip"
  using assms
  by (auto simp: step_defs Let_def limiterFor_def split: hpc.splits option.splits prod.splits sum.splits if_splits list.splits deferred.splits)

lemma acquire_same:
  assumes "acquire now p = ((why, ok), p')"
  shows "live p' = live p" "pl_publicKey p' = pl_publicKey p" "active p' = (if ok then active p + 1 else active p)"
  using assms by (auto simp: acquire_def acquire_with_def Let_def split: if_splits)

lemma release_same [simp]: "live (release p) = live p" "pl_publicKey (release p) = pl_publicKey p"
  by (simp_all add: release_def)

lemma track_same [simp]:
  "active (track i p) = active p" "pl_publicKey (track i p) = pl_publicKey p" "set (live (track i p)) = insert i (set (live p))"
  by (simp_all add: track_def)

lemma untrack_same [simp]:
  "active (untrack i p) = active p" "pl_publicKey (untrack i p) = pl_publicKey p" "set (live (untrack i p)) = set (live p) - {i}"
  by (simp_all add: untrack_def)

lemma step_key:
  "handler_step inp (s, h) = (s', h') \<Longrightarrow> pl_publicKey (sv_heap s' l) = pl_publicKey (sv_heap s l)"
  by (auto simp: step_defs Let_def acquire_same split: hpc.splits option.splits prod.splits sum.splits if_splits list.splits deferred.splits)

lemmas step_splits = option.splits prod.splits sum.splits if_splits list.splits deferred.splits

text \<open>A step changes a limiter by at most one of its operations.\<close>

lemma step_heap:
  assumes "handler_step inp (s, h) = (s', h')"
  shows "sv_heap s' l \<in> {sv_heap s l, snd (acquire (in_now inp) (sv_heap s l)), release (sv_heap s l),
    track (h_id h) (sv_heap s l), untrack (h_id h) (sv_heap s l)}"
  using assms by (cases "h_pc h") (simp_all add: step_defs Let_def split: step_splits, auto)

lemma step_limiter_inv:
  assumes "handler_step inp (s, h) = (s', h')" "limiter_inv (sv_heap s l)"
  shows "limiter_inv (sv_heap s' l)"
  using step_heap [OF assms(1), of l] f64.acquire_inv [OF assms(2), of "in_now inp"]
    release_inv [OF assms(2)] track_inv [OF assms(2)] untrack_inv [OF assms(2)] assms(2)
  by (auto simp: acquire_def)

lemma step_tables: "handler_step inp (s, h) = (s', h') \<Longrightarrow> tables_inv s \<Longrightarrow> tables_inv s'"
  using step_limiter_inv by (simp add: tables_inv_def step_same)

lemma limiterFor_bound: "tables_inv s \<Longrightarrow> limiterFor s ip = Some l \<Longrightarrow> l < sv_next s"
  by (auto simp: limiterFor_def tables_inv_def dest!: map_of_SomeD)

lemma step_ok:
  assumes "handler_step inp (s, h) = (s', h')" "handler_ok (sv_next s) h" "tables_inv s"
  shows "handler_ok (sv_next s) h'"
proof (cases "h_pc h")
  case (PLookup ip)
  then show ?thesis
    using assms(1,2) limiterFor_bound [OF assms(3)]
    by (cases "limiterFor s ip") (auto simp: step_defs handler_ok_def)
next
  case PReturn
  consider "h_defers h = []" | "h_defers h = [DWgDone]" | "h_defers h = base_defers"
    | l where "l < sv_next s" "h_defers h = DRelease l # base_defers \<or> h_defers h = DCloseBackend # DRelease l # base_defers
        \<or> h_defers h = DUntrack l # DCloseBackend # DRelease l # base_defers"
    using assms(2) by (auto simp: handler_ok_def PReturn)
  then show ?thesis
    using assms(1) PReturn by cases (auto simp: step_defs handler_ok_def base_defers_def)
qed (use assms(1,2) in \<open>simp_all add: step_defs handler_ok_def Let_def split: step_splits, auto\<close>)

lemma step_active:
  assumes "handler_step inp (s, h) = (s', h')" "handler_ok (sv_next s) h"
    and "DRelease l \<in> set (h_defers h) \<Longrightarrow> 0 < active (sv_heap s l)"
  shows "active (sv_heap s' l) = active (sv_heap s l) + of_bool (DRelease l \<in> set (h_defers h')) - of_bool (DRelease l \<in> set (h_defers h))"
  using assms
  by (cases "h_pc h")
    (auto simp: step_defs handler_ok_def base_defers_def Let_def acquire_same release_def split: step_splits)

lemma step_admits:
  assumes "handler_step inp (s, h) = (s', h')" "DRelease l \<in> set (h_defers h')" "DRelease l \<notin> set (h_defers h)"
  shows "active (sv_heap s l) < maxConcurrent (sv_heap s l)"
proof -
  have a: "acquire now p = ((why, True), p') \<Longrightarrow> active p < maxConcurrent p" for now p why p'
    by (auto simp: acquire_def acquire_with_def Let_def split: if_splits)
  show ?thesis
    using assms by (cases "h_pc h") (auto simp: step_defs Let_def dest: a split: step_splits)
qed

lemma step_live_other:
  assumes "handler_step inp (s, h) = (s', h')" "j \<noteq> h_id h"
  shows "j \<in> set (live (sv_heap s' l)) \<longleftrightarrow> j \<in> set (live (sv_heap s l))"
  using assms by (cases "h_pc h") (auto simp: step_defs Let_def acquire_same split: step_splits)

lemma step_tracking:
  assumes "handler_step inp (s, h) = (s', h')" "handler_ok (sv_next s) h" "tracking l h" "\<not> tracking l h'"
  shows "h_id h \<notin> set (live (sv_heap s' l))"
  using assms
  by (cases "h_pc h")
    (simp_all add: step_defs handler_ok_def tracking_def base_defers_def Let_def split: step_splits, auto)

lemma step_live_new:
  assumes "handler_step inp (s, h) = (s', h')" "h_id h \<in> set (live (sv_heap s' l))" "h_id h \<notin> set (live (sv_heap s l))"
  shows "tracking l h'"
  using assms
  by (cases "h_pc h") (auto simp: step_defs tracking_def Let_def acquire_same split: step_splits)

lemma pipe_step_closed:
  "conn.closed (pi_peer p) \<Longrightarrow> conn.closed (pi_peer (pipe_step ev p))"
  "conn.closed (pi_backend p) \<Longrightarrow> conn.closed (pi_backend (pipe_step ev p))"
proof -
  have w: "conn_write bs c = (e, c') \<Longrightarrow> conn.closed c' = conn.closed c" for bs c e c'
    using conn_write_closed [of bs c] by simp
  show "conn.closed (pi_peer p) \<Longrightarrow> conn.closed (pi_peer (pipe_step ev p))"
    and "conn.closed (pi_backend p) \<Longrightarrow> conn.closed (pi_backend (pipe_step ev p))"
    by (cases ev; auto simp: copy_round_def Let_def dest: w split: prod.splits option.splits if_splits)+
qed

lemma deadline_closed: 
  "SetReadDeadline t c = (e, c') \<Longrightarrow> conn.closed c' = conn.closed c" "SetWriteDeadline t c = (e, c') \<Longrightarrow> conn.closed c' = conn.closed c"
  "SetDeadline t c = (e, c') \<Longrightarrow> conn.closed c' = conn.closed c"
  by (auto simp: SetReadDeadline_def SetWriteDeadline_def SetDeadline_def deadline_call_def split: if_splits list.splits option.splits)

lemma respond_closed: "respond now st c = (e, c') \<Longrightarrow> conn.closed c' = conn.closed c"
proof -
  have w: "conn_write bs c = (e, c') \<Longrightarrow> conn.closed c' = conn.closed c" for bs c e c'
    using conn_write_closed [of bs c] by simp
  show "respond now st c = (e, c') \<Longrightarrow> conn.closed c' = conn.closed c"
    by (auto simp: respond_def writeHelloResponse_def dest: w deadline_closed split: prod.splits option.splits if_splits)
qed

lemma conn_close_closed [simp]: "conn.closed (conn_close c)"
  by (simp add: conn_close_def)

text \<open>How a registration comes about and how it is kept.\<close>

lemma step_untrack:
  assumes "handler_step inp (s, h) = (s', h')" "handler_ok (sv_next s) h" "DUntrack l \<in> set (h_defers h')"
  shows "(DUntrack l \<in> set (h_defers h) \<and> sv_heap s' = sv_heap s \<and> (both_closed h \<longrightarrow> both_closed h'))
    \<or> (\<exists>sv. h_pc h = PRecheck (ip_of h) l sv \<and> limiterFor s (ip_of h) = Some l \<and> s' = s
         \<and> h_conn h' = h_conn h \<and> h_backend h' = h_backend h)"
  using assms
proof (cases "h_pc h")
  case (PPipe ip k sv)
  then show ?thesis
    using assms pipe_step_closed [of "h_pipe_of h" "in_ev inp"]
    by (auto simp: step_defs both_closed_def Let_def h_pipe_of_def split: step_splits)
qed (auto simp: step_defs handler_ok_def both_closed_def base_defers_def ip_of_def Let_def
      dest: respond_closed deadline_closed split: step_splits)

lemma step_recheck:
  assumes "handler_step inp (s, h) = (s', h')" "h_pc h' = PRecheck ip l sv"
  shows "h_id h \<in> set (live (sv_heap s' l))"
  using assms by (cases "h_pc h") (auto simp: step_defs Let_def split: step_splits)

subsection \<open>Counting the slots\<close>

lemma holders_update:
  assumes "i < length hs"
  shows "int (holders l (hs[i := h'])) = int (holders l hs) + of_bool (DRelease l \<in> set (h_defers h'))
    - of_bool (DRelease l \<in> set (h_defers (hs ! i)))"
  using assms
proof (induction hs arbitrary: i)
  case (Cons a hs)
  then show ?case by (cases i) (auto simp: holders_def split: if_splits)
qed simp

lemma holders_pos: "i < length hs \<Longrightarrow> DRelease l \<in> set (h_defers (hs ! i)) \<Longrightarrow> 0 < holders l hs"
  by (auto simp: holders_def filter_empty_conv intro: nth_mem)

lemma holders_none: "(\<And>h. h \<in> set hs \<Longrightarrow> handler_ok n h) \<Longrightarrow> n \<le> l \<Longrightarrow> holders l hs = 0"
proof -
  have "handler_ok n h \<Longrightarrow> n \<le> l \<Longrightarrow> DRelease l \<notin> set (h_defers h)" for h
    by (cases "h_pc h") (auto simp: handler_ok_def base_defers_def)
  then show "(\<And>h. h \<in> set hs \<Longrightarrow> handler_ok n h) \<Longrightarrow> n \<le> l \<Longrightarrow> holders l hs = 0"
    by (simp add: holders_def filter_empty_conv)
qed

lemma handler_ok_mono: "handler_ok n h \<Longrightarrow> n \<le> m \<Longrightarrow> handler_ok m h"
  by (cases "h_pc h") (auto simp: handler_ok_def elim: less_le_trans)

subsection \<open>The invariant\<close>

lemmas serve_inv_parts = serve_inv_def [THEN iffD1]

lemma inv_accept:
  assumes "serve_inv w"
  shows "serve_inv (w\<lparr>w_handlers := w_handlers w @ [new_handler (length (w_handlers w)) remote c]\<rparr>)"
proof -
  let ?h = "new_handler (length (w_handlers w)) remote c"
  have h: "h_id ?h = length (w_handlers w)" "handler_ok n ?h" "DRelease l \<notin> set (h_defers ?h)" "DUntrack l \<notin> set (h_defers ?h)"
      "h_pc ?h = PStart" for n l
    by (simp_all add: new_handler_def handler_ok_def base_defers_def)
  have g: "guarded (w\<lparr>w_handlers := w_handlers w @ [?h]\<rparr>) i l = guarded w i l" if "i < length (w_handlers w)" for i l
    using that by (simp add: guarded_def nth_append)
  show ?thesis
    using assms h g unfolding serve_inv_def
    by (auto simp: nth_append holders_def less_Suc_eq)
qed

lemma guarded_stepping:
  assumes "serve_inv w" "i < length (w_handlers w)" "handler_step inp (w_srv w, w_handlers w ! i) = (s', h')"
    and "DUntrack l \<in> set (h_defers h')"
  shows "guarded (w\<lparr>w_srv := s', w_handlers := (w_handlers w)[i := h']\<rparr>) i l"
proof -
  let ?h = "w_handlers w ! i"
  note same = step_same [OF assms(3)]
  have ok: "handler_ok (sv_next (w_srv w)) ?h" using assms(1,2) by (simp add: serve_inv_def)
  have ip: "ip_of h' = ip_of ?h" by (simp add: ip_of_def same(2))
  from step_untrack [OF assms(3) ok assms(4)] show ?thesis
  proof
    assume u: "DUntrack l \<in> set (h_defers ?h) \<and> sv_heap s' = sv_heap (w_srv w) \<and> (both_closed ?h \<longrightarrow> both_closed h')"
    then have "guarded w i l" using assms(1,2) by (auto simp: serve_inv_def)
    then show ?thesis using u assms(2) ip same(6) by (auto simp: guarded_def)
  next
    assume "\<exists>sv. h_pc ?h = PRecheck (ip_of ?h) l sv \<and> limiterFor (w_srv w) (ip_of ?h) = Some l \<and> s' = w_srv w
       \<and> h_conn h' = h_conn ?h \<and> h_backend h' = h_backend ?h"
    then obtain sv where u: "h_pc ?h = PRecheck (ip_of ?h) l sv" "limiterFor (w_srv w) (ip_of ?h) = Some l" "s' = w_srv w"
      "h_conn h' = h_conn ?h" "h_backend h' = h_backend ?h" by blast
    then have "i \<in> set (live (sv_heap (w_srv w) l)) \<or> i \<in> set (w_closing w) \<or> both_closed ?h"
      using assms(1,2) by (auto simp: serve_inv_def)
    then show ?thesis using u assms(2) ip by (auto simp: guarded_def both_closed_def)
  qed
qed

lemma handle_live:
  assumes "serve_inv w" "i < length (w_handlers w)" and st: "handler_step inp (w_srv w, w_handlers w ! i) = (s', h')"
    and l: "l < sv_next (w_srv w)" "j \<in> set (live (sv_heap s' l))"
  shows "j < length (w_handlers w) \<and> tracking l ((w_handlers w)[i := h'] ! j)"
proof -
  have ok: "handler_ok (sv_next (w_srv w)) (w_handlers w ! i)" "h_id (w_handlers w ! i) = i"
    using assms(1,2) by (simp_all add: serve_inv_def)
  show ?thesis
  proof (cases "j = i")
    case True
    have "i \<in> set (live (sv_heap (w_srv w) l)) \<Longrightarrow> tracking l (w_handlers w ! i)" using assms(1) l(1) by (auto simp: serve_inv_def)
    then have "tracking l h'"
      using step_tracking [OF st ok(1), of l] step_live_new [OF st, of l] l(2) unfolding True ok(2) by blast
    then show ?thesis using assms(2) True by simp
  next
    case False
    then show ?thesis using step_live_other [OF st, of j l] l assms(1) ok(2) by (auto simp: serve_inv_def)
  qed
qed

lemma inv_handle:
  assumes "serve_inv w" "i < length (w_handlers w)" "handler_step inp (w_srv w, w_handlers w ! i) = (s', h')"
  shows "serve_inv (w\<lparr>w_srv := s', w_handlers := (w_handlers w)[i := h']\<rparr>)"
proof -
  let ?w = "w\<lparr>w_srv := s', w_handlers := (w_handlers w)[i := h']\<rparr>" and ?h = "w_handlers w ! i"
  note st = assms(3) and same = step_same [OF assms(3)]
  have ok: "handler_ok (sv_next (w_srv w)) ?h" "h_id ?h = i" "tables_inv (w_srv w)"
    using assms(1,2) by (simp_all add: serve_inv_def)
  have act: "active (sv_heap s' l) = int (holders l ((w_handlers w)[i := h']))" if "l < sv_next (w_srv w)" for l
  proof -
    have a: "active (sv_heap (w_srv w) l) = int (holders l (w_handlers w))" using assms(1) that by (simp add: serve_inv_def)
    have "DRelease l \<in> set (h_defers ?h) \<Longrightarrow> 0 < active (sv_heap (w_srv w) l)" using holders_pos [OF assms(2)] a by simp
    then show ?thesis using step_active [OF st ok(1)] holders_update [OF assms(2)] a by simp
  qed
  note liv = handle_live [OF assms]
  have rec: "j \<in> set (live (sv_heap s' l)) \<or> j \<in> set (w_closing w) \<or> both_closed ((w_handlers w)[i := h'] ! j)"
    if "j < length (w_handlers w)" "h_pc ((w_handlers w)[i := h'] ! j) = PRecheck ip l sv" "limiterFor (w_srv w) ip = Some l" for j ip l sv
  proof (cases "j = i")
    case True
    then show ?thesis using step_recheck [OF st] that(2) assms(2) ok(2) by simp
  next
    case False
    then show ?thesis using step_live_other [OF st, of j l] that assms(1) ok(2) by (auto simp: serve_inv_def)
  qed
  have gua: "guarded ?w j l" if j: "j < length (w_handlers w)" "DUntrack l \<in> set (h_defers ((w_handlers w)[i := h'] ! j))" for j l
  proof (cases "j = i")
    case False
    then have "guarded w j l" using j assms(1) by (auto simp: serve_inv_def)
    then show ?thesis
      using False step_live_other [OF st, of j l] ok(2) same(6) by (auto simp: guarded_def)
  next
    case True
    then show ?thesis using guarded_stepping [OF assms] j(2) assms(2) by simp
  qed
  have hok: "h_id ((w_handlers w)[i := h'] ! j) = j \<and> handler_ok (sv_next (w_srv w)) ((w_handlers w)[i := h'] ! j)"
    if "j < length (w_handlers w)" for j
    using that assms(1) step_ok [OF st ok(1,3)] ok(2) same(1) by (cases "j = i") (auto simp: serve_inv_def)
  show ?thesis
    using assms(1) step_tables [OF st ok(3)] act liv rec gua hok step_key [OF st]
    unfolding serve_inv_def by (simp add: same in_force_def)
qed

text \<open>What rebuilding the tables does to the limiters that exist.\<close>

lemma refresh_old:
  assumes "tables_inv s" "peers_wf ps" "refresh_locked clock ps s = (gone, s')" "l < sv_next s"
  shows "live (sv_heap s' l) = live (sv_heap s l)" "active (sv_heap s' l) = active (sv_heap s l)"
    "limiterFor s' ip = Some l \<Longrightarrow> limiterFor s ip = Some l"
    "limiterFor s ip = Some l \<Longrightarrow> limiterFor s' ip = Some l \<or> l \<in> set gone"
proof -
  note r = refresh_locked_refreshed [OF assms(1-3)]
  have entry: "sv_heap s' l = setLimits (pc_Limits p) (sv_heap s l) \<and> map_of (sv_limiters s) ip = Some l"
    if e: "(ip, l) \<in> set (sv_limiters s')" "ip = Unmap (pc_TunnelIP p)"
      "limiter_of clock (sv_limiters s) (sv_heap s) (sv_next s) (sv_heap s') p l" for ip p
    using that assms(4) by (auto simp: limiter_of_def keeps_def split: if_splits)
  have "live (sv_heap s' l) = live (sv_heap s l) \<and> active (sv_heap s' l) = active (sv_heap s l)"
  proof (cases "l \<in> snd ` set (sv_limiters s')")
    case True
    then obtain ip where ip: "(ip, l) \<in> set (sv_limiters s')" by force
    from refreshed_entry [OF r(1) ip] obtain p where p: "ip = Unmap (pc_TunnelIP p)"
        "limiter_of clock (sv_limiters s) (sv_heap s) (sv_next s) (sv_heap s') p l" by metis
    show ?thesis using entry [OF ip p] by simp
  next
    case False
    then show ?thesis using r(1) assms(4) by (simp add: refreshed_def)
  qed
  then show "live (sv_heap s' l) = live (sv_heap s l)" "active (sv_heap s' l) = active (sv_heap s l)" by simp_all
  have was: "map_of (sv_limiters s) a = Some l" if a: "(a, l) \<in> set (sv_limiters s')" for a
  proof -
    from refreshed_entry [OF r(1) a] obtain p where "a = Unmap (pc_TunnelIP p)"
        "limiter_of clock (sv_limiters s) (sv_heap s) (sv_next s) (sv_heap s') p l" by metis
    then show ?thesis using entry [OF a] by simp
  qed
  show "limiterFor s' ip = Some l \<Longrightarrow> limiterFor s ip = Some l"
    using was by (auto simp: limiterFor_def dest: map_of_SomeD)
  assume f: "limiterFor s ip = Some l"
  show "limiterFor s' ip = Some l \<or> l \<in> set gone"
  proof (cases "l \<in> snd ` set (sv_limiters s')")
    case True
    then obtain a where a: "(a, l) \<in> set (sv_limiters s')" by force
    have "(a, l) \<in> set (sv_limiters s)" "(Unmap ip, l) \<in> set (sv_limiters s)"
      using map_of_SomeD [OF was [OF a]] f by (simp_all add: limiterFor_def map_of_SomeD)
    then have "a = Unmap ip"
      using assms(1) unfolding tables_inv_def distinct_map inj_on_def by (metis fst_conv snd_conv)
    then show ?thesis
      using a refreshed_map_of(1) [OF r(1) peers_wf_distinct_ips [OF assms(2)]] by (simp add: limiterFor_def)
  next
    case False
    then show ?thesis using f r(2) by (force simp: limiterFor_def dest: map_of_SomeD)
  qed
qed

lemma refresh_new:
  assumes "tables_inv s" "peers_wf ps" "refresh_locked clock ps s = (gone, s')" "sv_next s \<le> l" "l < sv_next s'"
  shows "live (sv_heap s' l) = []" "active (sv_heap s' l) = 0"
proof -
  note r = refresh_locked_refreshed [OF assms(1-3)]
  have "l \<in> snd ` set (sv_limiters s')" using r(1) assms(4,5) by (simp add: refreshed_def)
  then obtain ip where ip: "(ip, l) \<in> set (sv_limiters s')" by force
  from refreshed_entry [OF r(1) ip] obtain p where
      p: "limiter_of clock (sv_limiters s) (sv_heap s) (sv_next s) (sv_heap s') p l" by metis
  have "\<not> keeps (sv_limiters s) (sv_heap s) p l"
    using assms(1,4) by (auto simp: keeps_def tables_inv_def dest!: map_of_SomeD)
  then show "live (sv_heap s' l) = []" "active (sv_heap s' l) = 0" using p by (simp_all add: limiter_of_def)
qed

lemma refresh_entries:
  assumes "tables_inv s" "peers_wf ps" "refresh_locked clock ps s = (gone, s')" "(ip, l) \<in> set (sv_limiters s')"
  shows "\<exists>p \<in> set ps. pc_TunnelIP p = ip \<and> pl_publicKey (sv_heap s' l) = pc_PublicKey p"
proof -
  note r = refresh_locked_refreshed [OF assms(1-3)]
  from refreshed_entry [OF r(1) assms(4)] obtain p where p: "p \<in> set ps" "ip = Unmap (pc_TunnelIP p)"
      "limiter_of clock (sv_limiters s) (sv_heap s) (sv_next s) (sv_heap s') p l" by metis
  then show ?thesis using limiter_of_key peers_wf_ips [OF assms(2)] by metis
qed

lemma refresh_watcher: "refresh_locked clock ps s = (gone, s') \<Longrightarrow> sv_watcher s' = sv_watcher s"
  by (auto simp: refresh_locked_def split: prod.splits)

lemma inv_publish:
  assumes "serve_inv w" "\<not> w_draining w" "\<not> w_fresh w" "w_gone w = []" "w_closing w = []"
    and "sv_watcher (w_srv w) = Some wt" "reload env wt = (r, wt')"
  shows "serve_inv (w\<lparr>w_srv := (w_srv w)\<lparr>sv_watcher := Some wt'\<rparr>, w_fresh := (rr_Err r = None)\<rparr>)"
proof -
  let ?w = "w\<lparr>w_srv := (w_srv w)\<lparr>sv_watcher := Some wt'\<rparr>, w_fresh := (rr_Err r = None)\<rparr>"
  have wt: "watcher_inv wt'" using reloadLocked_inv [of wt env r wt'] assms(1,6,7) by (simp add: serve_inv_def reload_def)
  have c: "rr_Err r \<noteq> None \<Longrightarrow> pw_cur wt' = pw_cur wt"
    using assms(7) by (auto simp: reload_def reloadLocked_def Let_def split: sum.splits)
  have t: "tables_inv ((w_srv w)\<lparr>sv_watcher := Some wt'\<rparr>) = tables_inv (w_srv w)" by (simp add: tables_inv_def)
  have l: "limiterFor ((w_srv w)\<lparr>sv_watcher := Some wt'\<rparr>) ip = limiterFor (w_srv w) ip" for ip by (simp add: limiterFor_def)
  have g: "guarded ?w i l = guarded w i l" for i l by (simp add: guarded_def l)
  have f: "rr_Err r \<noteq> None \<Longrightarrow> in_force ((w_srv w)\<lparr>sv_watcher := Some wt'\<rparr>) = in_force (w_srv w)"
    using c assms(6) by (simp add: in_force_def pw_Config_def)
  show ?thesis
    using assms wt f unfolding serve_inv_def by (simp add: t g l)
qed

lemma tracking_bound:
  assumes "serve_inv w" "i < length (w_handlers w)" "tracking l (w_handlers w ! i)"
  shows "l < sv_next (w_srv w)"
proof -
  have "handler_ok (sv_next (w_srv w)) (w_handlers w ! i)" using assms(1,2) by (simp add: serve_inv_def)
  then show ?thesis using assms(3)
    by (cases "h_pc (w_handlers w ! i)") (auto simp: handler_ok_def tracking_def base_defers_def)
qed

lemma refresh_active:
  assumes "serve_inv w" "peers_wf (cfg_peers (pw_Config wt))"
    and "refresh_locked clock (cfg_peers (pw_Config wt)) (w_srv w) = (gone, s')" "l < sv_next s'"
  shows "active (sv_heap s' l) = int (holders l (w_handlers w))"
proof (cases "l < sv_next (w_srv w)")
  case True
  have t: "tables_inv (w_srv w)" using assms(1) by (simp add: serve_inv_def)
  show ?thesis using refresh_old(2) [OF t assms(2,3)] True assms(1) by (simp add: serve_inv_def)
next
  case False
  have t: "tables_inv (w_srv w)" using assms(1) by (simp add: serve_inv_def)
  have "holders l (w_handlers w) = 0"
    using assms(1) False by (intro holders_none [of _ "sv_next (w_srv w)"]) (auto simp: in_set_conv_nth serve_inv_def)
  then show ?thesis using False refresh_new(2) [OF t assms(2,3), of l] assms(4) by simp
qed

lemma inv_refresh:
  assumes "serve_inv w" "w_fresh w"
    and "refresh_locked clock (cfg_peers (pw_Config (the (sv_watcher (w_srv w))))) (w_srv w) = (gone, s')"
  shows "serve_inv (w\<lparr>w_srv := s', w_fresh := False, w_gone := gone\<rparr>)"
proof -
  let ?w = "w\<lparr>w_srv := s', w_fresh := False, w_gone := gone\<rparr>"
  obtain wt where wt: "sv_watcher (w_srv w) = Some wt" "watcher_inv wt" using assms(1) by (auto simp: serve_inv_def)
  have t: "tables_inv (w_srv w)" using assms(1) by (simp add: serve_inv_def)
  have wf: "peers_wf (cfg_peers (pw_Config (the (sv_watcher (w_srv w)))))" using wt by (simp add: watcher_inv_def pw_Config_def)
  note old = refresh_old [OF t wf assms(3)] and new = refresh_new [OF t wf assms(3)]
  have w': "sv_watcher s' = Some wt" using refresh_watcher [OF assms(3)] wt by simp
  have e: "\<exists>p \<in> set (in_force s'). pc_TunnelIP p = ip \<and> pl_publicKey (sv_heap s' l) = pc_PublicKey p"
    if "(ip, l) \<in> set (sv_limiters s')" for ip l
    using refresh_entries [OF t wf assms(3) that] wt w' by (simp add: in_force_def)
  have nxt: "sv_next (w_srv w) \<le> sv_next s'" using refresh_locked_refreshed(1) [OF t wf assms(3)] by (simp add: refreshed_def)
  have ok: "h_id (w_handlers w ! i) = i \<and> handler_ok (sv_next (w_srv w)) (w_handlers w ! i)" if "i < length (w_handlers w)" for i
    using assms(1) that by (simp add: serve_inv_def)
  note act = refresh_active [OF assms(1) wf assms(3)]
  have liv: "i < length (w_handlers w) \<and> tracking l (w_handlers w ! i)" if "l < sv_next s'" "i \<in> set (live (sv_heap s' l))" for l i
  proof (cases "l < sv_next (w_srv w)")
    case True
    then show ?thesis using old(1) assms(1) that by (simp add: serve_inv_def)
  next
    case False
    then show ?thesis using new(1) [of l] that by simp
  qed
  note bd = tracking_bound [OF assms(1)]
  have gua: "guarded ?w i l" if "i < length (w_handlers w)" "DUntrack l \<in> set (h_defers (w_handlers w ! i))" for i l
  proof -
    have "guarded w i l" "l < sv_next (w_srv w)" using that assms(1) bd [OF that(1)] by (auto simp: serve_inv_def tracking_def)
    then show ?thesis
      using old(1,4) [of l] assms(1,2) by (auto simp: guarded_def serve_inv_def)
  qed
  have rec: "i \<in> set (live (sv_heap s' l)) \<or> i \<in> set (w_closing w) \<or> both_closed (w_handlers w ! i)"
    if "i < length (w_handlers w)" "h_pc (w_handlers w ! i) = PRecheck ip l sv" "limiterFor s' ip = Some l" for i ip l sv
  proof -
    have "l < sv_next (w_srv w)" using that(2) by (intro bd [OF that(1)]) (auto simp: tracking_def)
    then show ?thesis using old(1,3) [of l] that assms(1) unfolding serve_inv_def by metis
  qed
  show ?thesis
    using refresh_locked_tables [OF t wf assms(3)] w' wt e act liv gua rec ok handler_ok_mono [OF _ nxt]
    unfolding serve_inv_def by auto
qed

lemma inv_reap:
  assumes "serve_inv w" "w_closing w = []" "w_gone w = l # ls" "closeLive (sv_heap (w_srv w) l) = (conns, p)"
  shows "serve_inv (w\<lparr>w_srv := store l p (w_srv w), w_gone := ls, w_closing := conns\<rparr>)"
proof -
  let ?w = "w\<lparr>w_srv := store l p (w_srv w), w_gone := ls, w_closing := conns\<rparr>" and ?p = "sv_heap (w_srv w) l"
  have p: "conns = live ?p" "p = ?p\<lparr>live := []\<rparr>" using assms(4) by (simp_all add: closeLive_def)
  have st: "sv_limiters (store l p s) = sv_limiters s" "sv_next (store l p s) = sv_next s" "sv_watcher (store l p s) = sv_watcher s"
      "limiterFor (store l p s) ip = limiterFor s ip" "in_force (store l p s) = in_force s" for s ip
    by (simp_all add: store_def in_force_def)
  have heap: "sv_heap (store l p (w_srv w)) k = (if k = l then ?p\<lparr>live := []\<rparr> else sv_heap (w_srv w) k)" for k
    by (simp add: store_def p)
  have t: "tables_inv (store l p (w_srv w))"
    using assms(1) by (auto simp: tables_inv_def heap st limiter_inv_live_Nil serve_inv_def)
  have g: "guarded w i k \<Longrightarrow> guarded ?w i k" for i k
    using assms(2,3) by (auto simp: guarded_def heap st p(1))
  have nf: "\<not> w_fresh w" using assms(1,3) by (auto simp: serve_inv_def)
  show ?thesis
    using assms(1) t g nf unfolding serve_inv_def by (auto simp: heap st p(1) assms(2))
qed

lemma close_pair_same:
  "length (close_pair i hs) = length hs" "holders l (close_pair i hs) = holders l hs"
  "j < length hs \<Longrightarrow> h_id (close_pair i hs ! j) = h_id (hs ! j)"
  "j < length hs \<Longrightarrow> h_remote (close_pair i hs ! j) = h_remote (hs ! j)"
  "j < length hs \<Longrightarrow> h_pc (close_pair i hs ! j) = h_pc (hs ! j)"
  "j < length hs \<Longrightarrow> h_defers (close_pair i hs ! j) = h_defers (hs ! j)"
  "j < length hs \<Longrightarrow> both_closed (close_pair i hs ! j) \<longleftrightarrow> both_closed (hs ! j) \<or> j = i"
proof -
  show "holders l (close_pair i hs) = holders l hs"
  proof (cases "i < length hs")
    case True
    then show ?thesis unfolding close_pair_def of_nat_eq_iff [where 'a = int, symmetric] holders_update [OF True] by simp
  qed (simp add: close_pair_def list_update_beyond)
qed (simp add: close_pair_def, (cases "i = j"; auto simp: close_pair_def both_closed_def)+)

lemma inv_close:
  assumes "serve_inv w" "w_closing w = i # js"
  shows "serve_inv (w\<lparr>w_handlers := close_pair i (w_handlers w), w_closing := js\<rparr>)"
proof -
  let ?w = "w\<lparr>w_handlers := close_pair i (w_handlers w), w_closing := js\<rparr>"
  note same = close_pair_same
  have ok: "handler_ok n (close_pair i (w_handlers w) ! j) = handler_ok n (w_handlers w ! j)"
      "tracking l (close_pair i (w_handlers w) ! j) = tracking l (w_handlers w ! j)"
      "ip_of (close_pair i (w_handlers w) ! j) = ip_of (w_handlers w ! j)" if "j < length (w_handlers w)" for n j l
    using that by (simp_all add: handler_ok_def tracking_def ip_of_def same cong: hpc.case_cong)
  have g: "guarded w j l \<Longrightarrow> guarded ?w j l" if "j < length (w_handlers w)" for j l
    using that assms(2) by (auto simp: guarded_def same ok)
  have nf: "\<not> w_fresh w" using assms by (auto simp: serve_inv_def)
  show ?thesis
    using assms(1) g nf unfolding serve_inv_def by (auto simp: same ok assms(2))
qed

lemma serve_preserves: "serve w w' \<Longrightarrow> serve_inv w \<Longrightarrow> serve_inv w'"
proof (induction rule: serve.induct)
  case (accept w c remote)
  then show ?case by (intro inv_accept)
next
  case (handle i w inp s' h')
  then show ?case by (intro inv_handle)
next
  case (publish w wt env r wt')
  then show ?case by (intro inv_publish)
next
  case (refresh w clock gone s')
  then show ?case by (intro inv_refresh)
next
  case (reap w l ls conns p)
  then show ?case by (intro inv_reap)
next
  case (close w i js)
  then show ?case by (intro inv_close)
next
  case (cancel w)
  then show ?case by (simp add: serve_inv_def guarded_def)
next
  case (drain w)
  then have "guarded w i l \<Longrightarrow> guarded (w\<lparr>w_draining := True, w_gone := map snd (sv_limiters (w_srv w))\<rparr>) i l" for i l
    by (auto simp: guarded_def)
  then show ?case using drain unfolding serve_inv_def by auto
qed

text \<open>A server that has just started to listen.\<close>

definition listening :: "Server \<Rightarrow> bool" where
  "listening s = (tables_inv s \<and> (\<exists>wt. sv_watcher s = Some wt \<and> watcher_inv wt)
     \<and> (\<forall>(ip, l) \<in> set (sv_limiters s). \<exists>p \<in> set (in_force s). pc_TunnelIP p = ip \<and> pl_publicKey (sv_heap s l) = pc_PublicKey p)
     \<and> (\<forall>l < sv_next s. active (sv_heap s l) = 0 \<and> live (sv_heap s l) = []))"

lemma serve_start_inv: "listening s \<Longrightarrow> serve_inv (serve_start s)"
  by (auto simp: serve_inv_def serve_start_def listening_def holders_def)

lemma serving_inv: "serving s w \<Longrightarrow> listening s \<Longrightarrow> serve_inv w"
  by (induction rule: serving.induct) (auto intro: serve_start_inv serve_preserves)

lemma startup_listening:
  assumes "sv_limiters s = []" "sv_next s = 0" "run_startup lib osw env clock listen (s, w) = (None, s', w')"
  shows "listening s'"
proof -
  obtain pk s1 wt opts dev w1 s4 w2 where
      st: "resolveSecret osw (sc_PrivateKey (sv_cfg s)) (s\<lparr>sv_started := True\<rparr>) = (Inr pk, s1)"
        "newPeerWatcher env (sc_PeersFile (sv_cfg s1)) = Inr wt" "newTunnelDevice lib opts w = (Inr dev, w1)"
        "initial_loop lib osw (cfg_peers (pw_Config wt)) (s1\<lparr>sv_watcher := Some wt, sv_dev := Some dev\<rparr>, w1) = (None, s4, w2)"
        "s' = refreshPeers clock (pw_Config wt) s4"
    using assms(3) by (auto simp: run_startup_def Let_def split: if_splits prod.splits sum.splits option.splits)
  note fl = apply_loop_fields [OF initial_loop_apply [OF st(4)]]
  have wi: "watcher_inv wt" by (rule newPeerWatcher_inv [OF st(2)])
  then have wf: "peers_wf (cfg_peers (pw_Config wt))" by (simp add: watcher_inv_def pw_Config_def)
  have s4: "sv_limiters s4 = []" "sv_next s4 = 0" "sv_watcher s4 = Some wt"
    using assms fl resolveSecret_fields [OF st(1)] by simp_all
  then have t: "tables_inv s4" by (simp add: tables_inv_def)
  obtain gone s5 where r: "refresh_locked clock (cfg_peers (pw_Config wt)) s4 = (gone, s5)" by fastforce
  have "gone = []" using refresh_locked_refreshed(2) [OF t wf r] s4 by simp
  then have s': "s' = s5" using st(5) refreshPeers_eq [OF r] by simp
  have w5: "sv_watcher s5 = Some wt" using refresh_watcher [OF r] s4 by simp
  show ?thesis
    unfolding listening_def s'
    using refresh_locked_tables [OF t wf r] w5 wi refresh_new [OF t wf r] refresh_entries [OF t wf r] s4
    by (auto simp: in_force_def)
qed

section \<open>Properties\<close>

text \<open>
  Claim C1. Revocation leaves no orphan, whatever the interleaving. In every state the running
  server can reach, a connection that is past the second authorization check is closed on both
  sides, or is in the hands of the reaper, or is in the live set of the very limiter it was
  admitted under, and that limiter is the one in force for its address or one that is still to be
  drained. So when no reload or shutdown is in progress, every connection that is still open
  belongs to a peer of the list in force that has this address and this public key.
\<close>

theorem revocation_leaves_no_orphan:
  assumes "serving s w" "listening s" "i < length (w_handlers w)"
    and "h_pc (w_handlers w ! i) \<in> {PAnswer ip l sv, PClear ip l sv, PPipe ip l sv}"
  shows "(both_closed (w_handlers w ! i) \<or> i \<in> set (w_closing w)
      \<or> i \<in> set (live (sv_heap (w_srv w) l)) \<and> (limiterFor (w_srv w) ip = Some l \<or> l \<in> set (w_gone w)))
    \<and> (\<not> both_closed (w_handlers w ! i) \<and> w_closing w = [] \<and> w_gone w = [] \<and> \<not> w_fresh w \<longrightarrow>
        limiterFor (w_srv w) ip = Some l \<and> (\<exists>p \<in> set (in_force (w_srv w)).
          pc_TunnelIP p = ip \<and> pc_PublicKey p = pl_publicKey (sv_heap (w_srv w) l)))"
proof -
  have inv: "serve_inv w" by (rule serving_inv [OF assms(1,2)])
  then have ok: "handler_ok (sv_next (w_srv w)) (w_handlers w ! i)" using assms(3) by (simp add: serve_inv_def)
  then have u: "DUntrack l \<in> set (h_defers (w_handlers w ! i))" and ip: "remoteTunnelIP (h_remote (w_handlers w ! i)) = Some ip"
    using assms(4) by (auto simp: handler_ok_def)
  have g: "guarded w i l" using inv u assms(3) by (auto simp: serve_inv_def)
  have e: "\<exists>p \<in> set (in_force (w_srv w)). pc_TunnelIP p = ip \<and> pc_PublicKey p = pl_publicKey (sv_heap (w_srv w) l)"
    if "\<not> w_fresh w" "limiterFor (w_srv w) ip = Some l"
  proof -
    have "(ip, l) \<in> set (sv_limiters (w_srv w))"
      using that(2) unmap_limiter [OF ip] by (simp add: limiterFor_def map_of_SomeD)
    then show ?thesis using inv that(1) by (fastforce simp: serve_inv_def)
  qed
  have "ip_of (w_handlers w ! i) = ip" using ip by (simp add: ip_of_def)
  then show ?thesis using g e by (auto simp: guarded_def)
qed

text \<open>
  Claim C3. The concurrency count is exact under every interleaving: the number a limiter holds is
  the number of handlers that were admitted under it and have not released their slot, so no slot
  leaks and none is released twice, through refusals, revocations, reloads and shutdown. A step
  that admits one more handler does so below the cap in force at that moment. When every handler
  has returned, every count is zero.
\<close>

theorem slots_are_exact:
  assumes "serving s w" "listening s" "l < sv_next (w_srv w)"
  shows "active (sv_heap (w_srv w) l) = int (holders l (w_handlers w))
    \<and> (\<forall>w'. serve w w' \<and> holders l (w_handlers w) < holders l (w_handlers w') \<longrightarrow>
          holders l (w_handlers w') = holders l (w_handlers w) + 1
        \<and> int (holders l (w_handlers w')) \<le> maxConcurrent (sv_heap (w_srv w) l))
    \<and> ((\<forall>h \<in> set (w_handlers w). returned h) \<longrightarrow> active (sv_heap (w_srv w) l) = 0)"
proof (intro conjI allI impI)
  have inv: "serve_inv w" by (rule serving_inv [OF assms(1,2)])
  then show a: "active (sv_heap (w_srv w) l) = int (holders l (w_handlers w))" using assms(3) by (simp add: serve_inv_def)
  { assume "\<forall>h \<in> set (w_handlers w). returned h"
    then have "holders l (w_handlers w) = 0" by (auto simp: holders_def returned_def filter_empty_conv)
    then show "active (sv_heap (w_srv w) l) = 0" using a by simp }
  fix w'
  assume w': "serve w w' \<and> holders l (w_handlers w) < holders l (w_handlers w')"
  then have "serve w w'" ..
  then have "holders l (w_handlers w') = holders l (w_handlers w) + 1
      \<and> int (holders l (w_handlers w')) \<le> maxConcurrent (sv_heap (w_srv w) l)"
  proof cases
    case (accept c remote)
    then show ?thesis using w' by (simp add: holders_def new_handler_def)
  next
    case (handle i inp s' h')
    have ok: "handler_ok (sv_next (w_srv w)) (w_handlers w ! i)" using inv handle(2) by (simp add: serve_inv_def)
    have u: "int (holders l (w_handlers w')) = int (holders l (w_handlers w)) + of_bool (DRelease l \<in> set (h_defers h'))
        - of_bool (DRelease l \<in> set (h_defers (w_handlers w ! i)))"
      using holders_update [OF handle(2), of l h'] handle(1) by simp
    then have d: "DRelease l \<in> set (h_defers h')" "DRelease l \<notin> set (h_defers (w_handlers w ! i))"
      using w' by (auto simp: of_bool_def split: if_splits)
    have "active (sv_heap (w_srv w) l) < maxConcurrent (sv_heap (w_srv w) l)"
      using step_admits [OF handle(4) d] .
    then show ?thesis using u d a by simp
  next
    case (close i js)
    then show ?thesis using w' by (simp add: close_pair_same)
  qed (use w' in auto)
  then show "holders l (w_handlers w') = holders l (w_handlers w) + 1"
    and "int (holders l (w_handlers w')) \<le> maxConcurrent (sv_heap (w_srv w) l)" by simp_all
qed

text \<open>The bytes a handler may have written when it returns, from the line it logged.\<close>

definition reply_for :: "logline \<Rightarrow> byte list \<Rightarrow> bool" where
  "reply_for line bs = (case line of
      LogRateLimited _ _ _ _ \<Rightarrow> prefix bs [frameVersion, statusRateLimited]
    | LogMalformed _ _ _ \<Rightarrow> prefix bs [frameVersion, statusMalformed]
    | LogDenied _ _ _ _ \<Rightarrow> prefix bs [frameVersion, statusDenied]
    | LogBackendUnavailable _ _ _ _ _ _ \<Rightarrow> prefix bs [frameVersion, statusBackendUnavailable]
    | LogResponseFailed _ _ _ _ \<Rightarrow> prefix bs [frameVersion, statusOK]
    | LogDeadlines _ _ _ \<Rightarrow> bs = [frameVersion, statusOK]
    | LogClosed _ _ _ _ _ _ \<Rightarrow> prefix [frameVersion, statusOK] bs
    | _ \<Rightarrow> bs = [])"

definition reply_ok :: "handler \<Rightarrow> bool" where
  "reply_ok h = (case h_pc h of
      PClear _ _ _ \<Rightarrow> tx (h_conn h) = [frameVersion, statusOK] \<and> h_log h = []
    | PPipe _ _ _ \<Rightarrow> prefix [frameVersion, statusOK] (tx (h_conn h)) \<and> h_log h = []
    | PReturn \<Rightarrow> (\<exists>line. h_log h = [line] \<and> reply_for line (tx (h_conn h)))
    | _ \<Rightarrow> tx (h_conn h) = [] \<and> h_log h = [])"

lemma respond_tx:
  assumes "respond now st c = (e, c')" "validStatus st"
  shows "prefix (tx c') (tx c @ [frameVersion, st])" "e = None \<Longrightarrow> tx c' = tx c @ [frameVersion, st]"
proof -
  obtain k where k: "tx c' = tx c @ take k [frameVersion, st]" using respond_prefix [of now st c] assms(1) by auto
  show "prefix (tx c') (tx c @ [frameVersion, st])"
    unfolding k prefix_def by (metis append.assoc append_take_drop_id)
  have d: "SetWriteDeadline t c = (e, c1) \<Longrightarrow> tx c1 = tx c" for t e c1 using deadline_calls_tx(2) [of t c] by simp
  show "e = None \<Longrightarrow> tx c' = tx c @ [frameVersion, st]"
    using assms by (auto simp: respond_def writeHelloResponse_def d dest!: conn_write_ok_tx split: prod.splits option.splits)
qed

lemma pipe_step_prefix: "prefix a (tx (pi_peer p)) \<Longrightarrow> prefix a (tx (pi_peer (pipe_step ev p)))"
proof (cases ev)
  case (CopyDown n)
  assume "prefix a (tx (pi_peer p))"
  then show ?thesis
    by (cases rule: copy_round_cases [of n "pi_backend p" "pi_peer p"]) (auto simp: CopyDown Let_def prefix_def)
qed (auto simp: copy_round_def Let_def split: prod.splits option.splits)

lemma step_reply:
  assumes "handler_step inp (s, h) = (s', h')" "reply_ok h"
  shows "reply_ok h'"
proof -
  have d: "SetReadDeadline t c = (e, c1) \<Longrightarrow> tx c1 = tx c" "SetDeadline t c = (e, c1) \<Longrightarrow> tx c1 = tx c" for t c e c1
    using deadline_calls_tx(1,3) [of t c] by simp_all
  have r: "readHelloRequest c = (x, c1) \<Longrightarrow> tx c1 = tx c" for c x c1
    using read_full_tx by (auto simp: readHelloRequest_def read_full_def Let_def split: prod.splits sum.splits if_splits)
  have a: "tx (h_conn h) = [] \<Longrightarrow> validStatus st \<Longrightarrow> prefix (tx (snd (respond now st (h_conn h)))) [frameVersion, st]" for now st
    using respond_tx(1) [of now st "h_conn h"] by (metis append_Nil prod.collapse)
  show ?thesis
  proof (cases "h_pc h")
    case (PHello ip l)
    have "tx c2 = [] \<Longrightarrow> prefix (tx (snd (respond now statusMalformed c2))) [frameVersion, statusMalformed]" for now c2
      using respond_tx(1) [of now statusMalformed c2] by (metis append_Nil prod.collapse validStatus_all(5))
    then show ?thesis
      using assms PHello by (auto simp: step_defs reply_ok_def reply_for_def Let_def dest!: d r split: step_splits)
  next
    case (PAnswer ip l sv)
    obtain e c where c: "respond (in_now inp) statusOK (h_conn h) = (e, c)" by fastforce
    then show ?thesis
      using assms PAnswer respond_tx [OF c]
      by (cases e) (auto simp: step_defs reply_ok_def reply_for_def)
  next
    case (PPipe ip l sv)
    then show ?thesis
      using assms pipe_step_prefix [of "[frameVersion, statusOK]" "h_pipe_of h" "in_ev inp"]
      by (auto simp: step_defs reply_ok_def reply_for_def Let_def h_pipe_of_def split: step_splits)
  qed (use assms a in \<open>auto simp: step_defs reply_ok_def reply_for_def Let_def dest!: d split: step_splits\<close>)
qed

lemma serve_reply:
  "serve w w' \<Longrightarrow> \<forall>h \<in> set (w_handlers w). reply_ok h \<Longrightarrow> \<forall>h \<in> set (w_handlers w'). reply_ok h"
proof (induction rule: serve.induct)
  case (handle i w inp s' h')
  have "reply_ok h'" using handle step_reply by (metis nth_mem)
  then show ?case using handle(4) set_update_subset_insert [of "w_handlers w" i h'] by auto
next
  case (close w i js)
  have "reply_ok (close_pair i (w_handlers w) ! j)" if "j < length (w_handlers w)" for j
  proof -
    have "tx (h_conn (close_pair i (w_handlers w) ! j)) = tx (h_conn (w_handlers w ! j))"
        "h_log (close_pair i (w_handlers w) ! j) = h_log (w_handlers w ! j)"
      using that by (cases "i = j"; simp add: close_pair_def conn_close_def)+
    then show ?thesis using close(2) that by (simp add: reply_ok_def close_pair_same cong: hpc.case_cong)
  qed
  then show ?case by (auto simp: in_set_conv_nth close_pair_same)
qed (auto simp: reply_ok_def new_handler_def)

text \<open>
  Claim C21. Silence to the unauthorized, under every interleaving. Whatever a handler has written
  is fixed by how it ended: a caller with no entry, a caller that was revoked while it was being
  set up and a caller that sent no frame got no byte at all; a refused one got at most the one
  frame of its refusal; and the acceptance goes out only after the second check, before any byte
  of the backend.
\<close>

theorem replies_are_disciplined:
  assumes "serving s w" "h \<in> set (w_handlers w)"
  shows "reply_ok h
    \<and> (\<forall>peer ms. LogNoPeerEntry peer ms \<in> set (h_log h) \<longrightarrow> tx (h_conn h) = [])
    \<and> (\<forall>peer sv ms. LogRevoked peer sv ms \<in> set (h_log h) \<longrightarrow> tx (h_conn h) = [])
    \<and> (\<forall>peer sv st ms. LogDenied peer sv st ms \<in> set (h_log h) \<longrightarrow> prefix (tx (h_conn h)) [frameVersion, statusDenied])"
proof -
  have "\<forall>h \<in> set (w_handlers w). reply_ok h"
    using assms(1)
  proof (induction rule: serving.induct)
    case start
    then show ?case by (simp add: serve_start_def)
  next
    case (more w w')
    then show ?case using serve_reply by blast
  qed
  then have "reply_ok h" using assms(2) by blast
  then show ?thesis by (cases "h_pc h") (auto simp: reply_ok_def reply_for_def)
qed

subsection \<open>An example\<close>

lemma serving_handles:
  assumes "serving s w" "i < length (w_handlers w)" "list_all (\<lambda>x. in_ev x \<noteq> CtxCancel) xs"
    and "handleConn xs (w_srv w, w_handlers w ! i) = (s', h')"
  shows "serving s (w\<lparr>w_srv := s', w_handlers := (w_handlers w)[i := h']\<rparr>)"
  using assms
proof (induction xs arbitrary: w)
  case Nil
  then have "w\<lparr>w_srv := s', w_handlers := (w_handlers w)[i := h']\<rparr> = w" by (cases w) auto
  then show ?case using Nil(1) by simp
next
  case (Cons x xs)
  obtain s1 h1 where st: "handler_step x (w_srv w, w_handlers w ! i) = (s1, h1)" by fastforce
  let ?w = "w\<lparr>w_srv := s1, w_handlers := (w_handlers w)[i := h1]\<rparr>"
  have "serve w ?w" using st Cons.prems by (intro handle) auto
  then have w: "serving s ?w" using Cons.prems(1) by (rule more [rotated])
  have "handleConn xs (w_srv ?w, w_handlers ?w ! i) = (s', h')" using Cons.prems(2,4) st by (simp add: handleConn_Cons)
  then show ?case using Cons.IH [OF w] Cons.prems(2,3) by simp
qed

lemma run_to_answer:
  assumes "remoteTunnelIP r = Some ip" "limiterFor s ip = Some l" "acquire (in_now x) (sv_heap s l) = (([], True), p)"
    and "readHelloRequest c = (Inr sv, c')" "Resolve (h_policy s) ip sv = Some b"
    and "in_dial x (Some (in_now x + backendDialTimeout)) (AddrPort_String b) = Inr bc" "sound_conn c"
  shows "\<exists>s' h'. handleConn (replicate 8 x) (s, new_handler i r c) = (s', h') \<and> h_pc h' = PAnswer ip l sv
    \<and> conn.closed (h_conn h') = conn.closed c' \<and> sv_next s' = sv_next s \<and> limiterFor s' ip = Some l"
proof -
  have e: "replicate 8 x = [x, x, x, x, x, x, x, x]" by (simp add: numeral_eq_Suc)
  have "readHelloRequest (c\<lparr>rdeadline := t\<rparr>) = (Inr sv, c'\<lparr>rdeadline := t\<rparr>)" for t
    using assms(4) by (auto simp: readHelloRequest_def read_full_def Let_def split: if_splits)
  moreover have "dial_context (in_dial x) (Some (in_now x + backendDialTimeout)) (AddrPort_String b) = Inr bc" using assms(6) by simp
  ultimately show ?thesis
    using assms unfolding e
    by (simp add: handleConn_Cons steps new_handler_def h_identify_def h_lookup_def h_admit_def h_hello_def deadline_sound
        h_resolve_def h_dial_def h_track_def h_recheck_def del: dial_context_ok)
qed

definition example_serving :: Server where
  "example_serving = example_server\<lparr>sv_watcher := Some (example_watcher\<lparr>pw_cur :=
     \<lparr>cfg_peers = [example_config ''a'' example_key],
      cfg_policy = \<lparr>pol_peers = [Addr4 0x0A630007 \<mapsto> [''db'' \<mapsto> AddrPort (Addr4 0xC000020A) 22]]\<rparr>\<rparr>\<rparr>),
     sv_heap := (\<lambda>_. newPeerLimiter 0 example_key example_limits)\<rparr>"

lemma example_listening: "listening example_serving"
proof -
  have "newPolicy (map peer_policy [example_config ''a'' example_key]) =
      Inr \<lparr>pol_peers = [Addr4 0x0A630007 \<mapsto> [''db'' \<mapsto> AddrPort (Addr4 0xC000020A) 22]]\<rparr>"
    by (simp add: newPolicy_def peer_policy_def example_config_def ap_IsValid_def IsUnspecified_def example_names Let_def)
  moreover have "peers_wf [example_config ''a'' example_key]"
    using example_config_wf by (simp add: peers_wf_def)
  moreover have "tables_inv example_serving"
    using example_limiter_inv by (simp add: tables_inv_def example_serving_def example_server_def)
  ultimately show ?thesis
    by (simp add: listening_def watcher_inv_def example_serving_def example_server_def in_force_def pw_Config_def)
      (simp add: example_config_def)
qed

lemma example_world:
  "\<exists>w. serving example_serving w \<and> length (w_handlers w) = 1 \<and> h_pc (w_handlers w ! 0) = PAnswer (Addr4 0x0A630007) 0 ''db''
     \<and> \<not> both_closed (w_handlers w ! 0) \<and> \<not> w_fresh w \<and> w_gone w = [] \<and> w_closing w = [] \<and> sv_next (w_srv w) = 1"
proof -
  let ?x = "example_input\<lparr>in_ev := CopyUp 0\<rparr>" and ?r = "Some (TCPAddr [10, 99, 0, 7])" and ?c = "fresh_conn [1, 2, 100, 98]"
  let ?w = "(serve_start example_serving)\<lparr>w_handlers := w_handlers (serve_start example_serving)
     @ [new_handler (length (w_handlers (serve_start example_serving))) ?r ?c]\<rparr>"
  have w: "serving example_serving ?w"
    by (rule more [OF start]) (rule accept, simp_all add: serve_start_def)
  have h: "readHelloRequest ?c = (Inr ''db'', fresh_conn [])" by code_simp
  have "of_nat (Suc 0) \<le> tokens (newPeerLimiter 0 example_key example_limits)"
      "active (newPeerLimiter 0 example_key example_limits) < maxConcurrent (newPeerLimiter 0 example_key example_limits)"
    by (simp_all add: example_limiter del: newPeerLimiter_fields)
  then obtain p where p: "acquire 0 (newPeerLimiter 0 example_key example_limits) = (([], True), p)"
    using f64.acquire_grants [OF example_limiter_inv, of 0 0 example_key 0] unfolding acquire_def by auto
  have f: "limiterFor example_serving (Addr4 0x0A630007) = Some 0"
      "Resolve (h_policy example_serving) (Addr4 0x0A630007) ''db'' = Some (AddrPort (Addr4 0xC000020A) 22)"
    by (simp_all add: limiterFor_def Resolve_def h_policy_def pw_policy_def example_serving_def example_server_def)
  obtain s' h' where r: "handleConn (replicate 8 ?x) (example_serving, new_handler 0 ?r ?c) = (s', h')"
      "h_pc h' = PAnswer (Addr4 0x0A630007) 0 ''db''" "\<not> conn.closed (h_conn h')" "sv_next s' = 1"
    using run_to_answer [OF example_remote f(1) _ h f(2), of ?x p "fresh_conn []" 0] p
    by (auto simp: example_input_def sound_conn_def example_serving_def example_server_def)
  have "serving example_serving (?w\<lparr>w_srv := s', w_handlers := (w_handlers ?w)[0 := h']\<rparr>)"
    using r(1) by (intro serving_handles [OF w, of 0 "replicate 8 ?x"]) (simp_all add: serve_start_def list_all_iff)
  then show ?thesis
    using r by (intro exI [of _ "?w\<lparr>w_srv := s', w_handlers := (w_handlers ?w)[0 := h']\<rparr>"])
      (simp add: serve_start_def both_closed_def)
qed

theorem revocation_leaves_no_orphan_witness:
  "\<exists>w. serving example_serving w \<and> \<not> both_closed (w_handlers w ! 0)
     \<and> limiterFor (w_srv w) (Addr4 0x0A630007) = Some 0 \<and> in_force (w_srv w) \<noteq> []"
proof -
  obtain w where w: "serving example_serving w" "length (w_handlers w) = 1"
      "h_pc (w_handlers w ! 0) = PAnswer (Addr4 0x0A630007) 0 ''db''"
      "\<not> both_closed (w_handlers w ! 0)" "\<not> w_fresh w" "w_gone w = []" "w_closing w = []"
    using example_world by blast
  have "0 < length (w_handlers w)" using w(2) by simp
  from revocation_leaves_no_orphan [OF w(1) example_listening this, of "Addr4 0x0A630007" 0 "''db''"]
  show ?thesis using w by force
qed

theorem replies_are_disciplined_witness:
  "\<exists>w. serving example_serving w \<and> w_handlers w \<noteq> [] \<and> tx (h_conn (w_handlers w ! 0)) = []"
proof -
  obtain w where w: "serving example_serving w" "length (w_handlers w) = 1"
      "h_pc (w_handlers w ! 0) = PAnswer (Addr4 0x0A630007) 0 ''db''"
    using example_world by blast
  have "w_handlers w ! 0 \<in> set (w_handlers w)" using w(2) by (intro nth_mem) simp
  then have "reply_ok (w_handlers w ! 0)" using replies_are_disciplined [OF w(1)] by blast
  then have "tx (h_conn (w_handlers w ! 0)) = []" by (simp add: reply_ok_def w(3))
  then show ?thesis using w(1,2) by (intro exI [of _ w]) auto
qed

theorem slots_are_exact_witness:
  "\<exists>w. serving example_serving w \<and> active (sv_heap (w_srv w) 0) = 1"
proof -
  obtain w where w: "serving example_serving w" "length (w_handlers w) = 1"
      "h_pc (w_handlers w ! 0) = PAnswer (Addr4 0x0A630007) 0 ''db''" "sv_next (w_srv w) = 1"
    using example_world by blast
  obtain h where h: "w_handlers w = [h]" using w(2) by (auto simp: length_Suc_conv)
  have "handler_ok (sv_next (w_srv w)) h" using serving_inv [OF w(1) example_listening] h by (simp add: serve_inv_def)
  then have "holders 0 (w_handlers w) = 1" using w(3) by (simp add: h handler_ok_def holders_def)
  then show ?thesis using slots_are_exact [OF w(1) example_listening, of 0] w(1,4) by auto
qed

subsection \<open>Handlers return\<close>

text \<open>How far a handler is from having returned.\<close>

definition rank :: "handler \<Rightarrow> nat" where
  "rank h = (case h_pc h of
      PStart \<Rightarrow> 17 | PLookup _ \<Rightarrow> 16 | PAcquire _ _ \<Rightarrow> 15 | PHello _ _ \<Rightarrow> 14 | PResolve _ _ _ \<Rightarrow> 13
    | PDial _ _ _ _ \<Rightarrow> 12 | PTrack _ _ _ \<Rightarrow> 11 | PRecheck _ _ _ \<Rightarrow> 10 | PAnswer _ _ _ \<Rightarrow> 9 | PClear _ _ _ \<Rightarrow> 8
    | PPipe _ _ _ \<Rightarrow> (if pipe_done (h_pipe_of h) then 6 else 7)
    | PReturn \<Rightarrow> length (h_defers h))"

definition in_pipe :: "handler \<Rightarrow> bool" where
  "in_pipe h = (\<exists>ip l sv. h_pc h = PPipe ip l sv \<and> \<not> pipe_done (h_pipe_of h))"

lemma handler_ok_defers: "handler_ok n h \<Longrightarrow> length (h_defers h) \<le> 5"
  by (cases "h_pc h") (auto simp: handler_ok_def base_defers_def)

text \<open>
  No piece before the pipe waits: the code has set a deadline before each read and write of the
  peer's connection, and given one to the dialer.
\<close>

lemma SetReadDeadline_sets: "SetReadDeadline (Some t) c = (None, c') \<Longrightarrow> rdeadline c' \<noteq> None"
  by (auto simp: SetReadDeadline_def deadline_call_def split: if_splits list.splits option.splits)

lemma hello_moves: "h_pc h = PHello ip l \<Longrightarrow> length (h_defers h) \<le> 5 \<Longrightarrow> rank (h_hello now ip l h) < rank h"
  using SetReadDeadline_sets hello_returns
  by (fastforce simp: h_hello_def h_refuse_returns h_return_def rank_def split: prod.split option.split sum.split)

lemma dial_moves: "h_pc h = PDial ip l sv b \<Longrightarrow> length (h_defers h) \<le> 5 \<Longrightarrow> rank (h_dial dial now ip l sv b h) < rank h"
  by (auto simp: h_dial_def h_refuse_returns h_return_def rank_def dest: dial_context_returns split: sum.split)

lemma answer_moves: "h_pc h = PAnswer ip l sv \<Longrightarrow> length (h_defers h) \<le> 5 \<Longrightarrow> rank (h_answer now ip l sv h) < rank h"
  by (auto simp: h_answer_def h_return_def rank_def waits_def dest: respond_returns split: prod.split option.split)

lemma step_rank:
  assumes "handler_step x (s, h) = (s', h')" "handler_ok n h" "\<not> in_pipe h"
  shows "rank h' < rank h \<or> rank h = 0 \<and> rank h' = 0"
proof -
  have d: "length (h_defers h) \<le> 5" by (rule handler_ok_defers [OF assms(2)])
  show ?thesis
  proof (cases "h_pc h")
    case (PHello ip l)
    then show ?thesis using assms(1) hello_moves [OF _ d] by (auto simp: steps)
  next
    case (PDial ip l sv b)
    then show ?thesis using assms(1) dial_moves [OF _ d] by (auto simp: steps)
  next
    case (PAnswer ip l sv)
    then show ?thesis using assms(1) answer_moves [OF _ d] by (auto simp: steps)
  qed (use assms(1,3) d in \<open>auto simp: step_defs rank_def in_pipe_def Let_def split: step_splits\<close>)
qed

lemma step_pipe:
  assumes "handler_step x (s, h) = (s', h')" "in_pipe h"
  shows "h_pc h' = h_pc h" "h_pipe_of h' = pipe_step (in_ev x) (h_pipe_of h)" "rank h' \<le> rank h"
  using assms by (auto simp: step_defs in_pipe_def Let_def h_pipe_of_def rank_def)

lemma step_rank_le: "handler_step x (s, h) = (s', h') \<Longrightarrow> handler_ok n h \<Longrightarrow> rank h' \<le> rank h"
  using step_rank step_pipe(3) by (metis le_eq_less_or_eq less_imp_le)

text \<open>After the context is cancelled, one move of each goroutine of the handler takes it further.\<close>

lemma round_rank:
  assumes ev: "in_ev c = CtxCancel" "in_ev u = CopyUp m" "in_ev d = CopyDown k"
    and "handler_ok (sv_next s) h" "tables_inv s" "handleConn [c, u, d] (s, h) = (s', h')"
  shows "handler_ok (sv_next s') h'" "tables_inv s'" "rank h' < rank h \<or> rank h' = 0"
proof -
  obtain s1 h1 where 1: "handler_step c (s, h) = (s1, h1)" by fastforce
  obtain s2 h2 where 2: "handler_step u (s1, h1) = (s2, h2)" by fastforce
  have 3: "handler_step d (s2, h2) = (s', h')" using assms(6) 1 2 by (simp add: handleConn_Cons)
  have k1: "handler_ok (sv_next s1) h1" "tables_inv s1"
    using step_ok [OF 1 assms(4,5)] step_same(4) [OF 1] step_tables [OF 1 assms(5)] by simp_all
  have k2: "handler_ok (sv_next s2) h2" "tables_inv s2"
    using step_ok [OF 2 k1] step_same(4) [OF 2] step_tables [OF 2 k1(2)] by simp_all
  show "handler_ok (sv_next s') h'" "tables_inv s'"
    using step_ok [OF 3 k2] step_same(4) [OF 3] step_tables [OF 3 k2(2)] by simp_all
  note le = step_rank_le [OF 1 assms(4)] step_rank_le [OF 2 k1(1)] step_rank_le [OF 3 k2(1)]
  show "rank h' < rank h \<or> rank h' = 0"
  proof (cases "in_pipe h \<and> in_pipe h1 \<and> in_pipe h2")
    case False
    then show ?thesis
      using step_rank [OF 1 assms(4)] step_rank [OF 2 k1(1)] step_rank [OF 3 k2(1)] le by linarith
  next
    case True
    have p1: "h_pipe_of h1 = close_both (h_pipe_of h)"
      using step_pipe(2) [OF 1] True by (auto simp: ev in_pipe_def pipe_done_def)
    have p2: "h_pipe_of h2 = pipe_step (CopyUp m) (h_pipe_of h1)" using step_pipe(2) [OF 2] True by (simp add: ev)
    have p3: "h_pipe_of h' = pipe_step (CopyDown k) (h_pipe_of h2)" using step_pipe(2) [OF 3] True by (simp add: ev)
    have "pi_up (h_pipe_of h2)" unfolding p2 by (rule pipe_step_ended_up) (simp add: p1)
    moreover have "conn.closed (pi_backend (h_pipe_of h2))" unfolding p2 by (rule pipe_step_closed) (simp add: p1)
    ultimately have "pipe_done (h_pipe_of h')"
      unfolding pipe_done_def p3 using pipe_step_mono pipe_step_ended_down by blast
    then have "\<not> in_pipe h'" "rank h' = 6" using step_pipe(1) [OF 3] True by (auto simp: in_pipe_def rank_def)
    moreover have "rank h = 7" using True by (auto simp: in_pipe_def rank_def)
    ultimately show ?thesis by simp
  qed
qed

lemma rounds_rank:
  assumes ev: "in_ev c = CtxCancel" "in_ev u = CopyUp m" "in_ev d = CopyDown k"
    and "handler_ok (sv_next s) h" "tables_inv s" "rank h \<le> n"
  shows "rank (snd (handleConn (concat (replicate n [c, u, d])) (s, h))) = 0"
  using assms(4-)
proof (induction n arbitrary: s h)
  case (Suc n)
  obtain s' h' where r: "handleConn [c, u, d] (s, h) = (s', h')" by fastforce
  note rr = round_rank [OF ev Suc.prems(1,2) r]
  have "handleConn (concat (replicate (Suc n) [c, u, d])) (s, h) = handleConn (concat (replicate n [c, u, d])) (s', h')"
    using r by (simp add: handleConn_Cons)
  then show ?case using Suc.IH [OF rr(1,2)] rr(3) Suc.prems(3) by auto
qed simp

text \<open>
  Claim C26. A handler never hangs once the server shuts down, even if its peer and its backend keep
  their connections open, say nothing, read nothing and never answer a dial. From any point it can
  have reached, seventeen rounds of its own goroutines after the context was cancelled (each round
  lets the cancellation watcher and both copies move once) bring it to its end: all its deferred calls
  have run, so its slot is released, it is in no live set and its connections are closed. The wait of
  the shutdown therefore ends. It rests on every deadline the handler sets: on the hello, on each
  reply and on the dial.
\<close>

theorem cancelled_handlers_return:
  assumes "serving s w" "listening s" "i < length (w_handlers w)"
    and "in_ev c = CtxCancel" "in_ev u = CopyUp m" "in_ev d = CopyDown k"
  shows "returned (snd (handleConn (concat (replicate 17 [c, u, d])) (w_srv w, w_handlers w ! i)))"
proof -
  have inv: "serve_inv w" by (rule serving_inv [OF assms(1,2)])
  then have ok: "handler_ok (sv_next (w_srv w)) (w_handlers w ! i)" "tables_inv (w_srv w)"
    using assms(3) by (simp_all add: serve_inv_def)
  have "rank (w_handlers w ! i) \<le> 17"
    using handler_ok_defers [OF ok(1)] by (simp add: rank_def split: hpc.splits)
  from rounds_rank [OF assms(4-6) ok this] show ?thesis
    by (auto simp: rank_def returned_def split: hpc.splits if_splits)
qed

theorem cancelled_handlers_return_witness:
  "\<exists>w. serving example_serving w \<and> returned (snd (handleConn (concat (replicate 17
     [example_input, example_input\<lparr>in_ev := CopyUp 0\<rparr>, example_input\<lparr>in_ev := CopyDown 0\<rparr>])) (w_srv w, w_handlers w ! 0)))"
proof -
  obtain w where w: "serving example_serving w" "length (w_handlers w) = 1" using example_world by blast
  then have "0 < length (w_handlers w)" by simp
  then have "returned (snd (handleConn (concat (replicate 17
      [example_input, example_input\<lparr>in_ev := CopyUp 0\<rparr>, example_input\<lparr>in_ev := CopyDown 0\<rparr>])) (w_srv w, w_handlers w ! 0)))"
    by (rule cancelled_handlers_return [OF w(1) example_listening]) (simp_all add: example_input_def)
  then show ?thesis using w(1) by blast
qed


end
