(* ===== verification/Gofmt.thy ===== *)
theory Gofmt
  imports Prelude
begin

text \<open>
  Two formatting functions of the standard library that error messages use:
  \<^verbatim>\<open>strconv.Quote\<close> (the verb \<^verbatim>\<open>%q\<close>) and \<^verbatim>\<open>time.Duration.String\<close>. The quotation is
  that of ASCII text; a byte above 127 is written as an escape, as Go does outside valid UTF-8.
\<close>

section \<open>Definitions\<close>

definition quote_char :: "char \<Rightarrow> string" where
  "quote_char c =
     (if c = CHR 0x22 \<or> c = CHR 0x5C then [CHR 0x5C, c]
      else if 32 \<le> (of_char c :: nat) \<and> (of_char c :: nat) < 127 then [c]
      else if c = CHR 0x07 then [CHR 0x5C, CHR ''a'']
      else if c = CHR 0x08 then [CHR 0x5C, CHR ''b'']
      else if c = CHR 0x0C then [CHR 0x5C, CHR ''f'']
      else if c = CHR 0x0A then [CHR 0x5C, CHR ''n'']
      else if c = CHR 0x0D then [CHR 0x5C, CHR ''r'']
      else if c = CHR 0x09 then [CHR 0x5C, CHR ''t'']
      else if c = CHR 0x0B then [CHR 0x5C, CHR ''v'']
      else [CHR 0x5C, CHR ''x''] @ show_hex_byte (byte_of_char c))"

definition quote :: "string \<Rightarrow> string" where
  "quote s = [CHR 0x22] @ concat (map quote_char s) @ [CHR 0x22]"

text \<open>The fraction of a value in units of \<open>10 ^ prec\<close>, without trailing zeros.\<close>

definition pad_zeros :: "nat \<Rightarrow> string \<Rightarrow> string" where
  "pad_zeros n s = replicate (n - length s) (CHR ''0'') @ s"

definition fmt_frac :: "nat \<Rightarrow> nat \<Rightarrow> string" where
  "fmt_frac v prec =
     (let ds = rev (dropWhile (\<lambda>c. c = CHR ''0'') (rev (pad_zeros prec (show_nat (v mod 10 ^ prec)))))
      in if ds = [] then [] else CHR ''.'' # ds)"

definition duration_abs :: "nat \<Rightarrow> string" where
  "duration_abs u =
     (if u = 0 then ''0s''
      else if u < 1000 then show_nat u @ ''ns''
      else if u < 1000000 then show_nat (u div 1000) @ fmt_frac u 3 @ [CHR 0xC2, CHR 0xB5, CHR ''s'']
      else if u < 1000000000 then show_nat (u div 1000000) @ fmt_frac u 6 @ ''ms''
      else let s = u div 1000000000 in
        (if s div 3600 > 0 then show_nat (s div 3600) @ ''h'' else [])
        @ (if s div 60 > 0 then show_nat (s div 60 mod 60) @ ''m'' else [])
        @ show_nat (s mod 60) @ fmt_frac u 9 @ ''s'')"

definition Duration_String :: "duration \<Rightarrow> string" where
  "Duration_String d = (if d < 0 then CHR ''-'' # duration_abs (nat (- d)) else duration_abs (nat d))"

text \<open>\<^verbatim>\<open>Duration.Round\<close> of a non-negative duration, halves away from zero; the saturation at the
  largest duration is written out.\<close>

definition Duration_Round :: "duration \<Rightarrow> duration \<Rightarrow> duration" where
  "Duration_Round d m =
     (if m \<le> 0 then d
      else if d < 0 then
        (let r = (- d) mod m in
         if r + r < m then d + r else max (- (2 ^ 63)) (d - m + r))
      else
        (let r = d mod m in
         if r + r < m then d - r else if d + m - r < 2 ^ 63 then d + m - r else 2 ^ 63 - 1))"

section \<open>Lemmas\<close>

text \<open>Quoted text contains no newline: it cannot break a log line.\<close>

lemma hex_char_plain: "d < 16 \<Longrightarrow> hex_char d \<noteq> CHR 0x0A"
proof
  assume d: "d < 16" and "hex_char d = CHR 0x0A"
  then have "(of_char (hex_char d) :: nat) = 10" by simp
  then show False using d by (auto simp: hex_char_def of_char_of split: if_splits)
qed

lemma quote_char_no_newline: "CHR 0x0A \<notin> set (quote_char c)"
proof -
  have b: "unat (b :: byte) div 16 < 16" for b :: byte
    using unsigned_less [of b, where 'a = nat] by simp
  show ?thesis
    using hex_char_plain [OF b, of "byte_of_char c"] hex_char_plain [of "unat (byte_of_char c) mod 16"]
    by (auto simp: quote_char_def show_hex_byte_def)
qed

lemma quote_no_newline: "CHR 0x0A \<notin> set (quote s)"
  using quote_char_no_newline by (auto simp: quote_def)

end
