(* ===== verification/Flags.thy ===== *)
theory Flags
  imports Gofmt Float64
begin

text \<open>
  The parts of the packages \<^verbatim>\<open>flag\<close> and \<^verbatim>\<open>time\<close> the commands use:
  \<^verbatim>\<open>FlagSet.Parse\<close> for flags that take a value, what it prints, and
  \<^verbatim>\<open>time.ParseDuration\<close>. A flag set is the list of its flags, each with the check its
  \<^verbatim>\<open>Set\<close> makes; the values set are a map of the texts given, the last one winning.
\<close>

section \<open>Durations\<close>

text \<open>\<^verbatim>\<open>leadingInt\<close> on the digits it consumes: no result when the value leaves the range.\<close>

fun leading_int :: "nat \<Rightarrow> string \<Rightarrow> nat option" where
  "leading_int x [] = Some x"
| "leading_int x (c # cs) =
     (if x > 2 ^ 63 div 10 then None
      else let y = x * 10 + (of_char c - 48) in if y > 2 ^ 63 then None else leading_int y cs)"

text \<open>\<^verbatim>\<open>leadingFraction\<close> on the digits it consumes: further digits are dropped after an overflow.\<close>

fun leading_fraction :: "nat \<Rightarrow> nat \<Rightarrow> string \<Rightarrow> nat \<times> nat" where
  "leading_fraction x scale [] = (x, scale)"
| "leading_fraction x scale (c # cs) =
     (if x > (2 ^ 63 - 1) div 10 then (x, scale)
      else let y = x * 10 + (of_char c - 48) in
        if y > 2 ^ 63 then (x, scale) else leading_fraction y (scale * 10) cs)"

definition unit_map :: "string \<Rightarrow> nat option" where
  "unit_map u =
     (if u = ''ns'' then Some 1
      else if u = ''us'' \<or> u = [CHR 0xC2, CHR 0xB5, CHR ''s''] \<or> u = [CHR 0xCE, CHR 0xBC, CHR ''s''] then Some 1000
      else if u = ''ms'' then Some 1000000
      else if u = ''s'' then Some 1000000000
      else if u = ''m'' then Some 60000000000
      else if u = ''h'' then Some 3600000000000 else None)"

text \<open>One number and its unit: the value in nanoseconds and the rest. The product is in floating point.\<close>

definition duration_part :: "string \<Rightarrow> (nat \<times> string) option" where
  "duration_part s =
     (let ds = takeWhile is_digit_char s; s1 = dropWhile is_digit_char s;
          dot = (s1 \<noteq> [] \<and> hd s1 = CHR ''.''); s2 = (if dot then tl s1 else s1);
          fs = (if dot then takeWhile is_digit_char s2 else []); s3 = (if dot then dropWhile is_digit_char s2 else s2);
          u = takeWhile (\<lambda>c. \<not> (c = CHR ''.'' \<or> is_digit_char c)) s3;
          rest = dropWhile (\<lambda>c. \<not> (c = CHR ''.'' \<or> is_digit_char c)) s3 in
      case leading_int 0 ds of None \<Rightarrow> None
      | Some v \<Rightarrow>
          if ds = [] \<and> fs = [] then None
          else (case unit_map u of None \<Rightarrow> None
            | Some unit \<Rightarrow>
                if v > 2 ^ 63 div unit then None
                else (case leading_fraction 0 1 fs of (f, scale) \<Rightarrow>
                  let v' = v * unit + (if f > 0
                        then nat \<lfloor>fl (fl (of_nat f) * fl (of_nat unit / fl (of_nat scale)))\<rfloor> else 0) in
                  if v' > 2 ^ 63 then None else Some (v', rest))))"

lemma unit_map_Nil: "unit_map [] = None"
  by (simp add: unit_map_def)

lemma duration_part_shorter: "duration_part s = Some (v, rest) \<Longrightarrow> length rest < length s"
proof -
  assume a: "duration_part s = Some (v, rest)"
  let ?P = "\<lambda>c. \<not> (c = CHR ''.'' \<or> is_digit_char c)"
  obtain s3 where s3: "length s3 \<le> length s" "takeWhile ?P s3 \<noteq> []" "rest = dropWhile ?P s3"
  proof -
    let ?s1 = "dropWhile is_digit_char s"
    let ?dot = "?s1 \<noteq> [] \<and> hd ?s1 = CHR ''.''"
    let ?s2 = "if ?dot then tl ?s1 else ?s1"
    let ?s3 = "if ?dot then dropWhile is_digit_char ?s2 else ?s2"
    have "length ?s1 \<le> length s" "length (dropWhile is_digit_char (tl ?s1)) \<le> length (tl ?s1)"
      using length_dropWhile_le by blast+
    then have "length ?s3 \<le> length s" by (auto simp del: length_dropWhile_le)
    moreover have "takeWhile ?P ?s3 \<noteq> []"
    proof
      assume "takeWhile ?P ?s3 = []"
      then show False using a unfolding duration_part_def Let_def by (simp only: unit_map_Nil split: option.splits if_splits; simp)
    qed
    moreover have "rest = dropWhile ?P ?s3"
      using a unfolding duration_part_def Let_def by (simp only: split: option.splits if_splits prod.splits; simp)
    ultimately show thesis using that by blast
  qed
  have "length s3 = length (takeWhile ?P s3) + length (dropWhile ?P s3)"
    by (metis length_append takeWhile_dropWhile_id)
  moreover have "0 < length (takeWhile ?P s3)" using s3(2) by (simp only: length_greater_0_conv not_False_eq_True)
  ultimately show ?thesis unfolding s3(3) using s3(1) by linarith
qed

text \<open>The loop of \<^verbatim>\<open>ParseDuration\<close>; the sum is an unsigned 64-bit integer.\<close>

function duration_loop :: "nat \<Rightarrow> string \<Rightarrow> nat option" where
  "duration_loop d s =
     (if s = [] then Some d
      else case duration_part s of
        None \<Rightarrow> None
      | Some (v, rest) \<Rightarrow>
          let d' = (d + v) mod 2 ^ 64 in if d' > 2 ^ 63 then None else duration_loop d' rest)"
  by pat_completeness auto

termination duration_loop
  by (relation "measure (\<lambda>(d, s). length s)") (auto dest!: sym [of "Some _"] duration_part_shorter)

declare duration_loop.simps [simp del]

definition ParseDuration :: "string \<Rightarrow> duration option" where
  "ParseDuration orig =
     (let neg = (orig \<noteq> [] \<and> hd orig = CHR ''-''); sign = (orig \<noteq> [] \<and> hd orig \<in> {CHR ''-'', CHR ''+''});
          s = (if sign then tl orig else orig) in
      if s = ''0'' then Some 0
      else if s = [] then None
      else case duration_loop 0 s of
        None \<Rightarrow> None
      | Some d \<Rightarrow> if neg then Some (- int d) else if d > 2 ^ 63 - 1 then None else Some (int d))"

section \<open>Flags\<close>

record goflag =
  fl_name :: string
  fl_type :: string
  fl_usage :: string
  fl_default :: string                  \<comment> \<open>the default as printed, empty for the zero value\<close>
  fl_check :: "string \<Rightarrow> bool"

definition find_flag :: "goflag list \<Rightarrow> string \<Rightarrow> goflag option" where
  "find_flag fs name = find (\<lambda>f. fl_name f = name) fs"

definition flag_ErrHelp :: goerror where
  "flag_ErrHelp = GoError ''flag: help requested'' [FlagErrHelp]"

definition set_flag :: "goflag \<Rightarrow> string \<Rightarrow> (string \<rightharpoonup> string) \<Rightarrow> (string \<rightharpoonup> string) result" where
  "set_flag f v vals =
     (if fl_check f v then Inr (vals(fl_name f \<mapsto> v))
      else Inl (errors_New (''invalid value '' @ quote v @ '' for flag -'' @ fl_name f @ '': parse error'')))"

text \<open>\<^verbatim>\<open>FlagSet.Parse\<close>: the values and the positional arguments, or the error.\<close>

fun flag_Parse :: "goflag list \<Rightarrow> string list \<Rightarrow> (string \<rightharpoonup> string) \<Rightarrow> ((string \<rightharpoonup> string) \<times> string list) result" where
  "flag_Parse fs [] vals = Inr (vals, [])"
| "flag_Parse fs (s # args) vals =
     (if length s < 2 \<or> hd s \<noteq> CHR ''-'' then Inr (vals, s # args)
      else if s = ''--'' then Inr (vals, args)
      else
        let body = (if s ! 1 = CHR ''-'' then drop 2 s else drop 1 s) in
        if body = [] \<or> hd body = CHR ''-'' \<or> hd body = CHR ''='' then Inl (errors_New (''bad flag syntax: '' @ s))
        else (case str_cut body (CHR ''='') of (name, value, hasValue) \<Rightarrow>
          (case find_flag fs name of
             None \<Rightarrow>
               if name = ''help'' \<or> name = ''h'' then Inl flag_ErrHelp
               else Inl (errors_New (''flag provided but not defined: -'' @ name))
           | Some f \<Rightarrow>
               if hasValue then
                 (case set_flag f value vals of Inl err \<Rightarrow> Inl err | Inr vals' \<Rightarrow> flag_Parse fs args vals')
               else
                 (case args of
                    [] \<Rightarrow> Inl (errors_New (''flag needs an argument: -'' @ name))
                  | v # args' \<Rightarrow>
                      (case set_flag f v vals of Inl err \<Rightarrow> Inl err | Inr vals' \<Rightarrow> flag_Parse fs args' vals')))))"

text \<open>\<^verbatim>\<open>*fs.String(...)\<close>: the value set or the default.\<close>

definition flag_value :: "(string \<rightharpoonup> string) \<Rightarrow> string \<Rightarrow> string \<Rightarrow> string" where
  "flag_value vals name dflt = (case vals name of Some v \<Rightarrow> v | None \<Rightarrow> dflt)"

text \<open>\<^verbatim>\<open>PrintDefaults\<close> of flags in the order of their names.\<close>

definition nl :: string where "nl = [CHR 0x0A]"

definition print_default :: "goflag \<Rightarrow> string" where
  "print_default f = ''  -'' @ fl_name f @ '' '' @ fl_type f @ nl @ ''    '' @ [CHR 0x09] @ fl_usage f
     @ (if fl_default f = [] then [] else '' (default '' @ fl_default f @ '')'') @ nl"

definition PrintDefaults :: "goflag list \<Rightarrow> string" where
  "PrintDefaults fs = concat (map print_default fs)"

definition default_usage :: "string \<Rightarrow> goflag list \<Rightarrow> string" where
  "default_usage name fs = ''Usage of '' @ name @ '':'' @ nl @ PrintDefaults fs"

text \<open>What a failed \<^verbatim>\<open>Parse\<close> prints: the error, unless help was asked for, and the usage.\<close>

definition parse_output :: "goerror \<Rightarrow> string \<Rightarrow> string" where
  "parse_output err usage = (if errors_Is err FlagErrHelp then [] else emsg err @ nl) @ usage"

text \<open>What a command leaves behind: its exit code, and what it printed.\<close>

record outcome =
  oc_code :: int
  oc_out :: string
  oc_err :: string

section \<open>Lemmas\<close>

lemma find_flag_name: "find_flag fs name = Some f \<Longrightarrow> fl_name f = name \<and> f \<in> set fs"
  by (auto simp: find_flag_def find_Some_iff)

text \<open>A command line of \<^verbatim>\<open>--name value\<close> pairs, as one writes it.\<close>

definition flag_args :: "(string \<times> string) list \<Rightarrow> string list" where
  "flag_args kvs = concat (map (\<lambda>(k, v). [''--'' @ k, v]) kvs)"

definition plain_name :: "string \<Rightarrow> bool" where
  "plain_name k = (k \<noteq> [] \<and> hd k \<noteq> CHR ''-'' \<and> CHR ''='' \<notin> set k)"

lemma flag_Parse_pair:
  assumes "plain_name k" "find_flag fs k = Some f" "fl_check f v"
  shows "flag_Parse fs ((''--'' @ k) # v # args) vals = flag_Parse fs args (vals(k \<mapsto> v))"
proof -
  have c: "str_cut k (CHR ''='') = (k, [], False)"
    using assms(1) by (simp add: plain_name_def str_cut_def index_byte_None [THEN iffD2])
  have "hd k \<noteq> CHR ''=''" using assms(1) by (cases k) (auto simp: plain_name_def)
  then show ?thesis
    using assms find_flag_name [OF assms(2)] by (simp add: plain_name_def c set_flag_def)
qed

text \<open>Parsing such a line gives the pairs back, later ones over earlier ones, and the positional arguments.\<close>

lemma flag_Parse_args:
  assumes "\<forall>(k, v) \<in> set kvs. plain_name k \<and> (\<exists>f. find_flag fs k = Some f \<and> fl_check f v)"
    and "rest = [] \<or> hd rest = [] \<or> hd (hd rest) \<noteq> CHR ''-''"
  shows "flag_Parse fs (flag_args kvs @ rest) vals = Inr (vals ++ map_of (rev kvs), rest)"
  using assms(1)
proof (induction kvs arbitrary: vals)
  case Nil
  then show ?case using assms(2) by (cases rest) (auto simp: flag_args_def)
next
  case (Cons p kvs)
  obtain k v where p: "p = (k, v)" by (cases p)
  with Cons.prems obtain f where f: "plain_name k" "find_flag fs k = Some f" "fl_check f v" by auto
  have "flag_Parse fs (flag_args (p # kvs) @ rest) vals = flag_Parse fs (flag_args kvs @ rest) (vals(k \<mapsto> v))"
    using flag_Parse_pair [OF f] by (simp add: flag_args_def p)
  also have "\<dots> = Inr (vals(k \<mapsto> v) ++ map_of (rev kvs), rest)" using Cons by simp
  finally show ?case by (simp add: p map_add_def fun_eq_iff split: option.splits)
qed

end
