(* ===== verification/Keygen.thy ===== *)
theory Keygen
  imports Flags Wire Device
begin

unbundle bit_operations_syntax

text \<open>
  The \<^verbatim>\<open>keygen\<close> subcommand of \<^verbatim>\<open>src/cmd/gocloak/main.go\<close>, over a file system that can
  refuse or break off any operation. Curve25519 comes from \<^verbatim>\<open>golang.org/x/crypto\<close> and is a
  parameter: a function from a private key to the public key or an error.
\<close>

section \<open>Paths\<close>

text \<open>\<^verbatim>\<open>filepath.Clean\<close> and \<^verbatim>\<open>filepath.Join\<close> on a Unix path, by its components.\<close>

fun split_slash :: "string \<Rightarrow> string list" where
  "split_slash [] = [[]]"
| "split_slash (c # cs) =
     (if c = CHR ''/'' then [] # split_slash cs
      else (case split_slash cs of [] \<Rightarrow> [[c]] | p # ps \<Rightarrow> (c # p) # ps))"

text \<open>The components kept so far are in reverse order.\<close>

fun clean_comps :: "bool \<Rightarrow> string list \<Rightarrow> string list \<Rightarrow> string list" where
  "clean_comps rooted out [] = rev out"
| "clean_comps rooted out (c # cs) =
     (if c = [] \<or> c = ''.'' then clean_comps rooted out cs
      else if c = ''..'' then
        (if out \<noteq> [] \<and> hd out \<noteq> ''..'' then clean_comps rooted (tl out) cs
         else if rooted then clean_comps rooted out cs else clean_comps rooted (c # out) cs)
      else clean_comps rooted (c # out) cs)"

definition rooted_path :: "string \<Rightarrow> bool" where
  "rooted_path p = (p \<noteq> [] \<and> hd p = CHR ''/'')"

definition show_path :: "bool \<Rightarrow> string list \<Rightarrow> string" where
  "show_path rooted cs =
     (if rooted then CHR ''/'' # str_join cs ''/'' else if cs = [] then ''.'' else str_join cs ''/'')"

definition path_comps :: "string \<Rightarrow> string list" where
  "path_comps p = clean_comps (rooted_path p) [] (split_slash p)"

definition filepath_Clean :: "string \<Rightarrow> string" where
  "filepath_Clean p = show_path (rooted_path p) (path_comps p)"

definition filepath_Join :: "string \<Rightarrow> string \<Rightarrow> string" where
  "filepath_Join a b =
     (if a \<noteq> [] then filepath_Clean (a @ ''/'' @ b) else if b \<noteq> [] then filepath_Clean b else [])"

section \<open>The operating system\<close>

text \<open>
  Files by path, with their permission bits and contents; the process's mask and working
  directory; what the random source will deliver; and the failures each operation on a path will
  have: of the creation for a reason other than that the file exists, of the write after some
  bytes, of the sync, of the close, and whether a removal fails.
\<close>

record kfile =
  kf_mode :: "32 word"
  kf_data :: string

record kworld =
  kw_files :: "string \<rightharpoonup> kfile"
  kw_umask :: "32 word"
  kw_cwd :: "string result"
  kw_rand :: "byte list"
  kw_randend :: goerror
  kw_open :: "string \<Rightarrow> goerror option"
  kw_write :: "string \<Rightarrow> (nat \<times> goerror) option"
  kw_sync :: "string \<Rightarrow> goerror option"
  kw_close :: "string \<Rightarrow> goerror option"
  kw_remove :: "string \<Rightarrow> goerror option"

definition rand_ReadFull :: "nat \<Rightarrow> kworld \<Rightarrow> byte list result \<times> kworld" where
  "rand_ReadFull n w =
     (if n \<le> length (kw_rand w) then (Inr (take n (kw_rand w)), w\<lparr>kw_rand := drop n (kw_rand w)\<rparr>)
      else (Inl (if errors_Is (kw_randend w) IoEOF \<and> kw_rand w \<noteq> [] then io_ErrUnexpectedEOF else kw_randend w),
            w\<lparr>kw_rand := []\<rparr>))"

definition os_Remove :: "string \<Rightarrow> kworld \<Rightarrow> kworld" where
  "os_Remove path w = (if kw_remove w path = None then w\<lparr>kw_files := (kw_files w)(path := None)\<rparr> else w)"

definition os_ErrExist :: goerror where
  "os_ErrExist = GoError ''file exists'' [OsErrExist]"

text \<open>\<^verbatim>\<open>os.OpenFile(path, O_CREATE|O_EXCL|O_WRONLY, 0o600)\<close>: the file is new and empty.\<close>

definition create_excl :: "string \<Rightarrow> kworld \<Rightarrow> goerror option \<times> kworld" where
  "create_excl path w =
     (if kw_files w path \<noteq> None then (Some os_ErrExist, w)
      else case kw_open w path of
        Some err \<Rightarrow> (Some err, w)
      | None \<Rightarrow> (None, w\<lparr>kw_files := (kw_files w)(path \<mapsto> \<lparr>kf_mode = 0x180 AND NOT (kw_umask w), kf_data = []\<rparr>)\<rparr>))"

definition set_data :: "string \<Rightarrow> string \<Rightarrow> kworld \<Rightarrow> kworld" where
  "set_data path s w = (case kw_files w path of
      None \<Rightarrow> w
    | Some f \<Rightarrow> w\<lparr>kw_files := (kw_files w)(path \<mapsto> f\<lparr>kf_data := s\<rparr>)\<rparr>)"

definition write_string :: "string \<Rightarrow> string \<Rightarrow> kworld \<Rightarrow> goerror option \<times> kworld" where
  "write_string path s w =
     (case kw_write w path of
        None \<Rightarrow> (None, set_data path s w)
      | Some (n, err) \<Rightarrow> (Some err, set_data path (take n s) w))"

section \<open>Keys\<close>

definition pskLen :: nat where "pskLen = 32"
definition keyLen :: nat where "keyLen = 32"

definition clampPrivateKey :: "byte list \<Rightarrow> byte list" where
  "clampPrivateKey priv =
     (let p1 = priv[0 := priv ! 0 AND 248];
          p2 = p1[31 := p1 ! 31 AND 127]
      in p2[31 := p2 ! 31 OR 64])"

definition generateKeypair :: "(byte list \<Rightarrow> byte list result) \<Rightarrow> kworld \<Rightarrow> (byte list \<times> byte list) result \<times> kworld" where
  "generateKeypair x25519 w =
     (case rand_ReadFull keyLen w of
        (Inl err, w1) \<Rightarrow> (Inl (errorf_w ''generate private key: '' err ''''), w1)
      | (Inr priv, w1) \<Rightarrow>
          let priv' = clampPrivateKey priv in
          (case x25519 priv' of
             Inl err \<Rightarrow> (Inl (errorf_w ''derive public key: '' err ''''), w1)
           | Inr pub \<Rightarrow> (Inr (priv', pub), w1)))"

definition generatePSK :: "kworld \<Rightarrow> byte list result \<times> kworld" where
  "generatePSK w =
     (case rand_ReadFull pskLen w of
        (Inl err, w1) \<Rightarrow> (Inl (errorf_w ''generate psk: '' err ''''), w1)
      | (Inr psk, w1) \<Rightarrow> (Inr psk, w1))"

section \<open>Secret files\<close>

definition writeSecretFile :: "string \<Rightarrow> string \<Rightarrow> kworld \<Rightarrow> goerror option \<times> kworld" where
  "writeSecretFile path content w =
     (case create_excl path w of
        (Some err, w1) \<Rightarrow>
          (Some (if errors_Is err OsErrExist then errors_New (path @ '' already exists, refusing to overwrite'')
             else errorf_w (''write '' @ path @ '': '') err ''''), w1)
      | (None, w1) \<Rightarrow>
          (case write_string path content w1 of
             (Some err, w2) \<Rightarrow> (Some (errorf_w (''write '' @ path @ '': '') err ''''), os_Remove path w2)
           | (None, w2) \<Rightarrow>
               (case kw_sync w2 path of
                  Some err \<Rightarrow> (Some (errorf_w (''sync '' @ path @ '': '') err ''''), os_Remove path w2)
                | None \<Rightarrow>
                    (case kw_close w2 path of
                       Some err \<Rightarrow> (Some (errorf_w (''close '' @ path @ '': '') err ''''), os_Remove path w2)
                     | None \<Rightarrow> (None, w2)))))"

section \<open>The subcommand\<close>

definition keygen_flags :: "goflag list" where
  "keygen_flags =
     [\<lparr>fl_name = ''dir'', fl_type = ''string'', fl_usage = ''directory to write key files (default: current directory)'',
       fl_default = [], fl_check = (\<lambda>_. True)\<rparr>,
      \<lparr>fl_name = ''name'', fl_type = ''string'', fl_usage = ''peer name'', fl_default = [], fl_check = (\<lambda>_. True)\<rparr>]"

definition keygen_err :: "goerror \<Rightarrow> outcome" where
  "keygen_err err = \<lparr>oc_code = 1, oc_out = [], oc_err = ''gocloak: keygen: '' @ emsg err @ nl\<rparr>"

definition keygen_report :: "string \<Rightarrow> byte list \<Rightarrow> byte list \<Rightarrow> string \<Rightarrow> string \<Rightarrow> string" where
  "keygen_report name pub psk keyPath pskPath =
     ''peer: '' @ name @ nl @ ''public_key: '' @ EncodeToString pub @ nl @ ''psk: '' @ EncodeToString psk @ nl
     @ ''private key written to: '' @ keyPath @ nl @ ''psk written to: '' @ pskPath @ nl"

text \<open>The key material and the files, once the name and the directory are known.\<close>

definition keygen_files :: "(byte list \<Rightarrow> byte list result) \<Rightarrow> string \<Rightarrow> string \<Rightarrow> kworld \<Rightarrow> outcome \<times> kworld" where
  "keygen_files x25519 name targetDir w =
     (case generateKeypair x25519 w of
        (Inl err, w1) \<Rightarrow> (keygen_err err, w1)
      | (Inr (priv, pub), w1) \<Rightarrow>
     (case generatePSK w1 of
        (Inl err, w2) \<Rightarrow> (keygen_err err, w2)
      | (Inr psk, w2) \<Rightarrow>
          let keyPath = filepath_Join targetDir (name @ ''.key'');
              pskPath = filepath_Join targetDir (name @ ''.psk'') in
          (case writeSecretFile keyPath (EncodeToString priv) w2 of
             (Some err, w3) \<Rightarrow> (keygen_err err, w3)
           | (None, w3) \<Rightarrow>
               (case writeSecretFile pskPath (EncodeToString psk) w3 of
                  (Some err, w4) \<Rightarrow> (keygen_err err, os_Remove keyPath w4)
                | (None, w4) \<Rightarrow>
                    (\<lparr>oc_code = 0, oc_out = keygen_report name pub psk keyPath pskPath, oc_err = []\<rparr>, w4)))))"

definition runKeygen :: "(byte list \<Rightarrow> byte list result) \<Rightarrow> string list \<Rightarrow> kworld \<Rightarrow> outcome \<times> kworld" where
  "runKeygen x25519 args w =
     (case flag_Parse keygen_flags args (\<lambda>_. None) of
        Inl err \<Rightarrow>
          (\<lparr>oc_code = (if errors_Is err FlagErrHelp then 0 else 2), oc_out = [],
             oc_err = parse_output err (default_usage ''keygen'' keygen_flags)\<rparr>, w)
      | Inr (vals, _) \<Rightarrow>
          let name = flag_value vals ''name'' []; dir = flag_value vals ''dir'' [] in
          if name = [] then (\<lparr>oc_code = 2, oc_out = [], oc_err = ''gocloak: keygen: --name is required'' @ nl\<rparr>, w)
          else if \<not> ValidServiceName name
          then (\<lparr>oc_code = 2, oc_out = [],
                 oc_err = ''gocloak: keygen: --name must match [a-z0-9][a-z0-9-]{0,62}'' @ nl\<rparr>, w)
          else (case (if dir = [] then kw_cwd w else Inr dir) of
              Inl err \<Rightarrow> (keygen_err err, w)
            | Inr targetDir \<Rightarrow> keygen_files x25519 name targetDir w))"

section \<open>Lemmas\<close>

subsection \<open>Clamping\<close>

lemma clamp_nth:
  assumes "length p = 32"
  shows "clampPrivateKey p = (p[0 := p ! 0 AND 248])[31 := (p ! 31 AND 127) OR 64]" "length (clampPrivateKey p) = 32"
    "clampPrivateKey p ! 0 = p ! 0 AND 248" "clampPrivateKey p ! 31 = (p ! 31 AND 127) OR 64"
  using assms by (simp_all add: clampPrivateKey_def)

subsection \<open>Paths\<close>

lemma split_slash_neq_Nil [simp]: "split_slash s \<noteq> []"
  by (induction s) (auto split: list.splits)

lemma split_slash_plain: "CHR ''/'' \<notin> set n \<Longrightarrow> split_slash n = [n]"
  by (induction n) auto

lemma split_slash_append: "CHR ''/'' \<notin> set n \<Longrightarrow> split_slash (d @ CHR ''/'' # n) = split_slash d @ [n]"
  by (induction d) (auto simp: split_slash_plain split: list.splits)

lemma clean_comps_snoc:
  "n \<noteq> [] \<Longrightarrow> n \<noteq> ''.'' \<Longrightarrow> n \<noteq> ''..'' \<Longrightarrow> clean_comps r out (cs @ [n]) = clean_comps r out cs @ [n]"
  by (induction r out cs rule: clean_comps.induct) auto

lemma filepath_Join_plain:
  assumes "d \<noteq> []" "CHR ''/'' \<notin> set n" "n \<noteq> []" "n \<noteq> ''.''" "n \<noteq> ''..''"
  shows "filepath_Join d n = show_path (rooted_path d) (path_comps d @ [n])"
proof -
  have r: "rooted_path (d @ CHR ''/'' # n) = rooted_path d" using assms(1) by (cases d) (simp_all add: rooted_path_def)
  then have "path_comps (d @ CHR ''/'' # n) = path_comps d @ [n]"
    using assms by (simp add: path_comps_def split_slash_append clean_comps_snoc)
  then show ?thesis using assms(1) r by (simp add: filepath_Join_def filepath_Clean_def)
qed

lemma str_join_snoc: "str_join (cs @ [n]) sep = (if cs = [] then n else str_join cs sep @ sep @ n)"
  by (induction cs sep rule: str_join.induct) auto

lemma show_path_inj: "show_path r (cs @ [n]) = show_path r (cs @ [m]) \<longleftrightarrow> n = m"
  by (simp add: show_path_def str_join_snoc)

lemma key_file_name:
  assumes "ValidServiceName name"
  shows "CHR ''/'' \<notin> set name" "name @ ext \<noteq> []"
    "length ext = 4 \<Longrightarrow> name @ ext \<noteq> ''.''" "length ext = 4 \<Longrightarrow> name @ ext \<noteq> ''..''"
proof -
  show "CHR ''/'' \<notin> set name"
    using ValidServiceName_chars [OF assms, of "CHR ''/''"] by (auto simp: name_rest_def is_lower_def is_digit_char_def)
  have n: "name \<noteq> []" using ValidServiceName_length [OF assms] by auto
  then show "name @ ext \<noteq> []" by simp
  show "name @ ext \<noteq> ''.''" "name @ ext \<noteq> ''..''" if "length ext = 4"
  proof -
    have l: "name @ ext = s \<Longrightarrow> 4 < length s" for s using n that by auto
    show "name @ ext \<noteq> ''.''" "name @ ext \<noteq> ''..''" using l [of "''.''"] l [of "''..''"] by auto
  qed
qed

definition key_path :: "string \<Rightarrow> string \<Rightarrow> string \<Rightarrow> string" where
  "key_path dir name ext = show_path (rooted_path dir) (path_comps dir @ [name @ ext])"

text \<open>Both files are entries of the target directory, and they are different.\<close>

lemma key_paths:
  assumes "ValidServiceName name" "dir \<noteq> []"
  shows "filepath_Join dir (name @ ''.key'') = key_path dir name ''.key''"
    "filepath_Join dir (name @ ''.psk'') = key_path dir name ''.psk''"
    "key_path dir name ''.key'' \<noteq> key_path dir name ''.psk''"
  using filepath_Join_plain [OF assms(2), of "name @ ''.key''"] filepath_Join_plain [OF assms(2), of "name @ ''.psk''"]
    key_file_name [OF assms(1)]
  by (simp_all add: key_path_def show_path_inj)

subsection \<open>Secret files\<close>

text \<open>What the code can see of a file system besides the contents of the files.\<close>

definition same_fs :: "kworld \<Rightarrow> kworld \<Rightarrow> bool" where
  "same_fs a b = (dom (kw_files a) = dom (kw_files b) \<and> kw_open a = kw_open b \<and> kw_write a = kw_write b
     \<and> kw_sync a = kw_sync b \<and> kw_close a = kw_close b \<and> kw_remove a = kw_remove b)"

definition secret_file :: "string \<Rightarrow> kworld \<Rightarrow> kfile" where
  "secret_file content w = \<lparr>kf_mode = 0x180 AND NOT (kw_umask w), kf_data = content\<rparr>"

definition with_file :: "string \<Rightarrow> string \<Rightarrow> kworld \<Rightarrow> kworld" where
  "with_file path content w = w\<lparr>kw_files := (kw_files w)(path \<mapsto> secret_file content w)\<rparr>"

lemma writeSecretFile_eq:
  "writeSecretFile path content w =
     (if kw_files w path \<noteq> None then (Some (errors_New (path @ '' already exists, refusing to overwrite'')), w)
      else case kw_open w path of
        Some err \<Rightarrow> (Some (if errors_Is err OsErrExist then errors_New (path @ '' already exists, refusing to overwrite'')
            else errorf_w (''write '' @ path @ '': '') err ''''), w)
      | None \<Rightarrow> (case kw_write w path of
          Some (n, err) \<Rightarrow> (Some (errorf_w (''write '' @ path @ '': '') err ''''), os_Remove path (with_file path (take n content) w))
        | None \<Rightarrow> (case kw_sync w path of
            Some err \<Rightarrow> (Some (errorf_w (''sync '' @ path @ '': '') err ''''), os_Remove path (with_file path content w))
          | None \<Rightarrow> (case kw_close w path of
              Some err \<Rightarrow> (Some (errorf_w (''close '' @ path @ '': '') err ''''), os_Remove path (with_file path content w))
            | None \<Rightarrow> (None, with_file path content w)))))"
  by (simp add: writeSecretFile_def create_excl_def write_string_def set_data_def os_ErrExist_def with_file_def secret_file_def
      split: option.splits)

lemma with_file_fields [simp]:
  "kw_files (with_file path c w) = (kw_files w)(path \<mapsto> secret_file c w)" "kw_open (with_file path c w) = kw_open w"
  "kw_write (with_file path c w) = kw_write w" "kw_sync (with_file path c w) = kw_sync w"
  "kw_close (with_file path c w) = kw_close w" "kw_remove (with_file path c w) = kw_remove w"
  "kw_umask (with_file path c w) = kw_umask w"
  by (simp_all add: with_file_def)

lemma os_Remove_fields [simp]:
  "kw_files (os_Remove path w) = (if kw_remove w path = None then (kw_files w)(path := None) else kw_files w)"
  "kw_open (os_Remove path w) = kw_open w" "kw_write (os_Remove path w) = kw_write w" "kw_sync (os_Remove path w) = kw_sync w"
  "kw_close (os_Remove path w) = kw_close w" "kw_remove (os_Remove path w) = kw_remove w" "kw_umask (os_Remove path w) = kw_umask w"
  by (simp_all add: os_Remove_def)

lemma rand_ReadFull_fields [simp]:
  "rand_ReadFull n w = (r, w') \<Longrightarrow> w' = w\<lparr>kw_rand := kw_rand w'\<rparr>"
  by (auto simp: rand_ReadFull_def split: if_splits)

lemma writeSecretFile_ok:
  "writeSecretFile path content w = (None, w') \<Longrightarrow> kw_files w path = None \<and> w' = with_file path content w"
  by (simp add: writeSecretFile_eq split: if_splits option.splits prod.splits)

lemma writeSecretFile_failed:
  assumes "writeSecretFile path content w = (Some err, w')"
  shows "(\<forall>p. kw_files w p \<noteq> None \<or> p \<noteq> path \<longrightarrow> kw_files w' p = kw_files w p) \<and> kw_remove w' = kw_remove w
    \<and> (kw_remove w path = None \<longrightarrow> kw_files w' = kw_files w)"
  using assms by (auto simp: writeSecretFile_eq fun_upd_idem_iff split: if_splits option.splits prod.splits)

text \<open>The error and the visible part of the file system do not depend on the contents written.\<close>

lemma writeSecretFile_blind:
  assumes "same_fs a b"
  shows "fst (writeSecretFile path c a) = fst (writeSecretFile path d b)
    \<and> same_fs (snd (writeSecretFile path c a)) (snd (writeSecretFile path d b))"
proof -
  have "kw_files a path = None \<longleftrightarrow> kw_files b path = None" using assms unfolding same_fs_def by (metis domIff)
  then show ?thesis using assms by (auto simp: writeSecretFile_eq same_fs_def split: option.splits prod.splits)
qed

subsection \<open>The scalar\<close>

text \<open>A private key is a little-endian integer.\<close>

fun le_value :: "byte list \<Rightarrow> int" where
  "le_value [] = 0"
| "le_value (b # bs) = uint b + 256 * le_value bs"

lemma le_value_append: "le_value (as @ bs) = le_value as + 256 ^ length as * le_value bs"
  by (induction as) (simp_all add: algebra_simps)

lemma le_value_bounds: "0 \<le> le_value bs \<and> le_value bs < 256 ^ length bs"
proof (induction bs)
  case (Cons b bs)
  have "uint b < 256" using uint_lt2p [of b] by simp
  then show ?case using Cons by auto
qed simp

lemma clamp_low: "8 dvd uint (b AND 248 :: byte)"
proof -
  have "take_bit 3 (uint (b AND 248)) = 0"
    by (simp add: unsigned_and_eq take_bit_and)
  then show ?thesis by (simp add: take_bit_eq_mod dvd_eq_mod_eq_0)
qed

lemma clamp_high: "64 \<le> uint ((b AND 127) OR 64 :: byte) \<and> uint ((b AND 127) OR 64 :: byte) < 128"
proof -
  have e: "uint ((b AND 127) OR 64 :: byte) = (uint b AND 127) OR 64"
    by (simp add: unsigned_and_eq unsigned_or_eq)
  have "(uint b AND 127) < 2 ^ 7" using AND_upper2' [of 127 127 "uint b"] by simp
  then have "(uint b AND 127) OR 64 < 2 ^ 7" by (intro OR_upper) simp_all
  moreover have "64 \<le> 64 OR (uint b AND 127)" by (rule or_greater_eq) simp
  ultimately show ?thesis unfolding e by (simp add: or.commute)
qed

lemma clamp_split:
  assumes "length p = 32"
  shows "clampPrivateKey p = (p ! 0 AND 248) # take 30 (drop 1 p) @ [(p ! 31 AND 127) OR 64]"
proof (rule nth_equalityI)
  fix i assume "i < length (clampPrivateKey p)"
  then show "clampPrivateKey p ! i = ((p ! 0 AND 248) # take 30 (drop 1 p) @ [(p ! 31 AND 127) OR 64]) ! i"
    using assms by (auto simp: clampPrivateKey_def nth_Cons' nth_append nth_list_update)
qed (use assms in \<open>simp add: clamp_nth\<close>)

lemma clamp_idem:
  assumes "length p = 32"
  shows "clampPrivateKey (clampPrivateKey p) = clampPrivateKey p"
proof -
  have h: "((x AND 127 OR 64) AND 127) OR 64 = (x AND 127) OR 64" for x :: byte
    by (simp add: bit.conj_disj_distrib2 and.assoc or.assoc)
  have l: "(x AND 248) AND 248 = x AND 248" for x :: byte
    by (simp add: and.assoc)
  note c = clamp_nth [OF assms]
  show ?thesis
    unfolding clamp_nth(1) [OF c(2)] c(3,4) h l using c list_update_id [of "clampPrivateKey p" 0] list_update_id [of "clampPrivateKey p" 31]
    by simp
qed

lemma scalar_bounds:
  "0 \<le> lo \<Longrightarrow> lo < 256 \<Longrightarrow> 0 \<le> mid \<Longrightarrow> mid < 256 ^ 30 \<Longrightarrow> 64 \<le> hi \<and> hi < 128 \<Longrightarrow>
     2 ^ 254 \<le> lo + 256 * (mid + 256 ^ 30 * hi) \<and> lo + 256 * (mid + 256 ^ 30 * hi) < (2 ^ 255 :: int)"
  by simp

lemma clamp_scalar:
  assumes "length p = 32"
  shows "8 dvd le_value (clampPrivateKey p)" "2 ^ 254 \<le> le_value (clampPrivateKey p)" "le_value (clampPrivateKey p) < 2 ^ 255"
proof -
  let ?lo = "uint (p ! 0 AND 248)" and ?mid = "take 30 (drop 1 p)" and ?hi = "uint ((p ! 31 AND 127) OR 64)"
  have m: "length ?mid = 30" using assms by simp
  have v: "le_value (clampPrivateKey p) = ?lo + 256 * (le_value ?mid + 256 ^ 30 * ?hi)"
    by (simp only: clamp_split [OF assms] le_value.simps le_value_append m append_Cons) simp
  show "8 dvd le_value (clampPrivateKey p)" unfolding v using clamp_low [of "p ! 0"] by (simp add: dvd_add)
  have b: "0 \<le> le_value ?mid" "le_value ?mid < 256 ^ 30" using le_value_bounds [of ?mid] m by simp_all
  have l: "0 \<le> ?lo" "?lo < 256" using uint_lt2p [of "p ! 0 AND 248"] by simp_all
  show "2 ^ 254 \<le> le_value (clampPrivateKey p)" "le_value (clampPrivateKey p) < 2 ^ 255"
    unfolding v using scalar_bounds [OF l b clamp_high [of "p ! 31"]] by blast+
qed

subsection \<open>The run\<close>

lemma rand_ReadFull_Inr:
  "rand_ReadFull n w = (Inr bs, w') \<longleftrightarrow> n \<le> length (kw_rand w) \<and> bs = take n (kw_rand w) \<and> w' = w\<lparr>kw_rand := drop n (kw_rand w)\<rparr>"
  by (auto simp: rand_ReadFull_def)

lemma generate_fields:
  "generateKeypair x w = (r, w') \<Longrightarrow> \<exists>rs. w' = w\<lparr>kw_rand := rs\<rparr>"
  "generatePSK w = (q, w') \<Longrightarrow> \<exists>rs. w' = w\<lparr>kw_rand := rs\<rparr>"
  by (auto simp: generateKeypair_def generatePSK_def rand_ReadFull_def Let_def split: prod.splits sum.splits if_splits)

text \<open>The target directory and the name of a run that gets as far as the files.\<close>

definition keygen_target :: "string list \<Rightarrow> kworld \<Rightarrow> (string \<times> string) option" where
  "keygen_target args w = (case flag_Parse keygen_flags args (\<lambda>_. None) of
      Inl _ \<Rightarrow> None
    | Inr (vals, _) \<Rightarrow>
        let name = flag_value vals ''name'' []; dir = flag_value vals ''dir'' [] in
        if \<not> ValidServiceName name then None
        else case (if dir = [] then kw_cwd w else Inr dir) of Inl _ \<Rightarrow> None | Inr d \<Rightarrow> Some (name, d))"

lemma keygen_run:
  "(case keygen_target args w of
      Some (name, dir) \<Rightarrow> ValidServiceName name \<and> runKeygen x args w = keygen_files x name dir w
    | None \<Rightarrow> snd (runKeygen x args w) = w \<and> oc_out (fst (runKeygen x args w)) = []
        \<and> (\<forall>y w2. kw_cwd w2 = kw_cwd w \<longrightarrow> fst (runKeygen y args w2) = fst (runKeygen x args w)))"
  by (auto simp: keygen_target_def runKeygen_def Let_def keygen_err_def ValidServiceName_def nameRE_def
      split: sum.splits prod.splits if_splits option.splits)

text \<open>A file of the directory, created in full, with nothing readable by others.\<close>

lemma keygen_files_success:
  assumes "keygen_files x name dir w = (oc, w')" "oc_code oc = 0" "ValidServiceName name" "dir \<noteq> []"
  obtains priv pub psk where "length priv = 32" "length psk = 32" "x (clampPrivateKey priv) = Inr pub"
    "kw_rand w = priv @ psk @ kw_rand w'"
    "oc = \<lparr>oc_code = 0, oc_out = keygen_report name pub psk (key_path dir name ''.key'') (key_path dir name ''.psk''), oc_err = []\<rparr>"
    "kw_files w (key_path dir name ''.key'') = None" "kw_files w (key_path dir name ''.psk'') = None"
    "kw_files w' = (kw_files w)(key_path dir name ''.key'' \<mapsto> secret_file (EncodeToString (clampPrivateKey priv)) w,
       key_path dir name ''.psk'' \<mapsto> secret_file (EncodeToString psk) w)"
proof -
  note kp = key_paths [OF assms(3,4)]
  obtain priv pub w1 psk w2 w3 where s:
      "rand_ReadFull keyLen w = (Inr priv, w1)" "x (clampPrivateKey priv) = Inr pub" "rand_ReadFull pskLen w1 = (Inr psk, w2)"
      "writeSecretFile (key_path dir name ''.key'') (EncodeToString (clampPrivateKey priv)) w2 = (None, w3)"
      "writeSecretFile (key_path dir name ''.psk'') (EncodeToString psk) w3 = (None, w')"
      "oc = \<lparr>oc_code = 0, oc_out = keygen_report name pub psk (key_path dir name ''.key'') (key_path dir name ''.psk''), oc_err = []\<rparr>"
    using assms(1,2)
    by (auto simp: keygen_files_def generateKeypair_def generatePSK_def keygen_err_def kp Let_def
        split: prod.splits sum.splits option.splits)
  show thesis
  proof (rule that)
    show "length priv = 32" "length psk = 32" "kw_rand w = priv @ psk @ kw_rand w'"
      using s(1,3) writeSecretFile_ok [OF s(4)] writeSecretFile_ok [OF s(5)]
      by (auto simp: rand_ReadFull_Inr keyLen_def pskLen_def with_file_def) (metis append_take_drop_id drop_drop add.commute numeral_Bit0)
  qed (use s writeSecretFile_ok [OF s(4)] writeSecretFile_ok [OF s(5)] kp(3) in
      \<open>auto simp: rand_ReadFull_Inr secret_file_def\<close>)
qed

text \<open>What the resolution of secrets sees of the file system.\<close>

definition secrets_of :: "kworld \<Rightarrow> osworld" where
  "secrets_of w = \<lparr>os_open = (\<lambda>p. case kw_files w p of
        None \<Rightarrow> Inl (errors_New (''open '' @ p @ '': no such file or directory''))
      | Some f \<Rightarrow> Inr \<lparr>of_mode = kf_mode f, of_data = kf_data f, of_stat_err = None, of_read_err = None\<rparr>),
     os_env = (\<lambda>_. None)\<rparr>"

lemma secret_mode: "Perm (0x180 AND NOT u) AND 0x3F = 0"
proof -
  have "Perm (0x180 AND NOT u) AND 0x3F = NOT u AND (0x180 AND 0x1FF AND 0x3F)"
    by (simp only: Perm_def ac_simps)
  then show ?thesis by simp
qed

lemma show_path_neq_Nil: "n \<noteq> [] \<Longrightarrow> show_path r (cs @ [n]) \<noteq> []"
  by (simp add: show_path_def str_join_snoc)

text \<open>A file reference to a secret file resolves to the contents, and a 32-byte key in it is accepted.\<close>

lemma secret_file_resolves:
  assumes "kw_files w path = Some (secret_file (EncodeToString k) w0)" "path \<noteq> []" "length k = 32"
  shows "secret_Resolve r (secrets_of w) (''file:'' @ path) = Inr (Secret (EncodeToString k))"
    "keyToHex (EncodeToString k) = Inr (hex_EncodeToString k)"
proof -
  have v: "validSchemeName ''file''" by (simp add: validSchemeName_def is_lower_def)
  then have "parseSecretRef (''file:'' @ path) = Inr (''file'', path)" using assms(2) by (simp add: parseSecretRef_Inr)
  then show "secret_Resolve r (secrets_of w) (''file:'' @ path) = Inr (Secret (EncodeToString k))"
    using assms(1) secret_mode by (simp add: secret_Resolve_def resolveFile_Inr secrets_of_def secret_file_def)
  show "keyToHex (EncodeToString k) = Inr (hex_EncodeToString k)" using assms(3) by (simp add: keyToHex_Inr)
qed

lemma keygen_target_dir: "keygen_target args w = Some (name, dir) \<Longrightarrow> kw_cwd w \<noteq> Inr [] \<Longrightarrow> dir \<noteq> []"
  by (auto simp: keygen_target_def Let_def split: sum.splits prod.splits if_splits)

lemma keygen_files_out: "keygen_files x name dir w = (oc, w') \<Longrightarrow> oc_code oc = (if oc_out oc = [] then 1 else 0)"
  by (auto simp: keygen_files_def keygen_err_def keygen_report_def Let_def split: prod.splits sum.splits option.splits)

lemma keygen_files_failed:
  assumes "keygen_files x name dir w = (oc, w')" "ValidServiceName name" "dir \<noteq> []"
  shows "(\<forall>p f. kw_files w p = Some f \<longrightarrow> kw_files w' p = Some f)
    \<and> (oc_out oc = [] \<and> (\<forall>p. kw_remove w p = None) \<longrightarrow> kw_files w' = kw_files w)"
proof (cases "oc_code oc = 0")
  case True
  obtain f g where "kw_files w (key_path dir name ''.key'') = None" "kw_files w (key_path dir name ''.psk'') = None"
      "kw_files w' = (kw_files w)(key_path dir name ''.key'' \<mapsto> f, key_path dir name ''.psk'' \<mapsto> g)"
    by (rule keygen_files_success [OF assms(1) True assms(2,3)]) blast
  moreover have "oc_out oc \<noteq> []" using keygen_files_out [OF assms(1)] True by auto
  ultimately show ?thesis by auto
next
  case False
  note kp = key_paths [OF assms(2,3)]
  let ?k = "key_path dir name ''.key''" and ?p = "key_path dir name ''.psk''"
  obtain r1 w1 where g1: "generateKeypair x w = (r1, w1)" by fastforce
  obtain r2 w2 where g2: "generatePSK w1 = (r2, w2)" by fastforce
  obtain rs where w2: "w2 = w\<lparr>kw_rand := rs\<rparr>"
    using generate_fields(1) [OF g1] generate_fields(2) [OF g2] by auto
  have w1: "kw_files w1 = kw_files w" using generate_fields(1) [OF g1] by auto
  consider "kw_files w' = kw_files w"
    | priv e where "writeSecretFile ?k priv w2 = (Some e, w')"
    | priv psk e w3 w4 where "writeSecretFile ?k priv w2 = (None, w3)"
        "writeSecretFile ?p psk w3 = (Some e, w4)" "w' = os_Remove ?k w4"
    using assms(1) False w1
    by (cases r1; cases r2) (auto simp: keygen_files_def kp Let_def g1 g2 w2 split: prod.splits option.splits)
  then show ?thesis
  proof cases
    case 1
    then show ?thesis by simp
  next
    case 2
    show ?thesis using writeSecretFile_failed [OF 2] by (auto simp: w2)
  next
    case 3
    show ?thesis
      using writeSecretFile_ok [OF 3(1)] writeSecretFile_failed [OF 3(2)] 3(3) by (auto simp: w2 fun_eq_iff)
  qed
qed

lemma same_fs_refl [simp]: "same_fs w w"
  by (simp add: same_fs_def)

text \<open>What the files part prints does not depend on the private bytes, but for the public key they have.\<close>

lemma keygen_files_blind:
  assumes "length p1 = 32" "length p2 = 32" "x1 (clampPrivateKey p1) = x2 (clampPrivateKey p2)"
  shows "fst (keygen_files x1 name dir (w\<lparr>kw_rand := p1 @ rest\<rparr>)) = fst (keygen_files x2 name dir (w\<lparr>kw_rand := p2 @ rest\<rparr>))"
proof -
  let ?w = "w\<lparr>kw_rand := rest\<rparr>"
  let ?k = "filepath_Join dir (name @ ''.key'')" and ?p = "filepath_Join dir (name @ ''.psk'')"
  have g: "rand_ReadFull keyLen (w\<lparr>kw_rand := p1 @ rest\<rparr>) = (Inr p1, ?w)"
    "rand_ReadFull keyLen (w\<lparr>kw_rand := p2 @ rest\<rparr>) = (Inr p2, ?w)"
    using assms by (simp_all add: rand_ReadFull_Inr keyLen_def)
  obtain r w2 where psk: "generatePSK ?w = (r, w2)" by fastforce
  obtain e1 w3 where k1: "writeSecretFile ?k (EncodeToString (clampPrivateKey p1)) w2 = (e1, w3)" by fastforce
  obtain e2 w3' where k2: "writeSecretFile ?k (EncodeToString (clampPrivateKey p2)) w2 = (e2, w3')" by fastforce
  have b: "e1 = e2" "same_fs w3 w3'" using writeSecretFile_blind [of w2 w2 ?k] k1 k2 by (metis same_fs_refl fst_conv snd_conv)+
  have q: "fst (writeSecretFile ?p s w3) = fst (writeSecretFile ?p s w3')" for s
    using writeSecretFile_blind [OF b(2)] by blast
  show ?thesis
  proof (cases "x2 (clampPrivateKey p2)")
    case (Inl err)
    then show ?thesis using assms(3) by (simp add: keygen_files_def generateKeypair_def g)
  next
    case (Inr pub)
    show ?thesis
    proof (cases r)
      case (Inl err)
      then show ?thesis using assms(3) Inr by (simp add: keygen_files_def generateKeypair_def g psk)
    next
      case psk': (Inr s)
      show ?thesis
        using q [of "EncodeToString s"] assms(3) Inr
        by (simp add: keygen_files_def generateKeypair_def g psk psk' k1 k2 b(1) Let_def)
          (auto split: prod.splits option.splits)
    qed
  qed
qed

text \<open>When nothing fails and the names are free, the run succeeds.\<close>

lemma keygen_files_works:
  assumes "ValidServiceName name" "dir \<noteq> []" "64 \<le> length (kw_rand w)" "x (clampPrivateKey (take 32 (kw_rand w))) = Inr pub"
    and "kw_files w (key_path dir name ''.key'') = None" "kw_files w (key_path dir name ''.psk'') = None"
    and "kw_open w = (\<lambda>_. None)" "kw_write w = (\<lambda>_. None)" "kw_sync w = (\<lambda>_. None)" "kw_close w = (\<lambda>_. None)"
  shows "oc_out (fst (keygen_files x name dir w)) \<noteq> []"
proof -
  note kp = key_paths [OF assms(1,2)]
  let ?w1 = "w\<lparr>kw_rand := drop 32 (kw_rand w)\<rparr>" and ?w2 = "w\<lparr>kw_rand := drop 64 (kw_rand w)\<rparr>"
  have g: "generateKeypair x w = (Inr (clampPrivateKey (take 32 (kw_rand w)), pub), ?w1)"
    using assms(3,4) by (simp add: generateKeypair_def rand_ReadFull_def keyLen_def)
  have q: "generatePSK ?w1 = (Inr (take 32 (drop 32 (kw_rand w))), ?w2)"
    using assms(3) by (simp add: generatePSK_def rand_ReadFull_def pskLen_def)
  have k: "writeSecretFile (key_path dir name ''.key'') c ?w2 = (None, with_file (key_path dir name ''.key'') c ?w2)" for c
    using assms(5,7-) by (simp add: writeSecretFile_eq)
  have p: "writeSecretFile (key_path dir name ''.psk'') d (with_file (key_path dir name ''.key'') c ?w2)
      = (None, with_file (key_path dir name ''.psk'') d (with_file (key_path dir name ''.key'') c ?w2))" for c d
    using assms(6-) kp(3) by (simp add: writeSecretFile_eq)
  show ?thesis by (simp add: keygen_files_def g q kp k p keygen_report_def Let_def)
qed

lemma example_flags: "flag_Parse keygen_flags [''--name'', ''app-01'', ''--dir'', ''k''] (\<lambda>_. None)
    = Inr ([''name'' \<mapsto> ''app-01'', ''dir'' \<mapsto> ''k''], [])"
proof -
  have "\<exists>f. find_flag keygen_flags n = Some f \<and> fl_check f v" if "n = ''name'' \<or> n = ''dir''" for n v
    using that by (auto simp: find_flag_def keygen_flags_def)
  moreover have "flag_args [(''name'', ''app-01''), (''dir'', ''k'')] = [''--name'', ''app-01'', ''--dir'', ''k'']"
    by (simp add: flag_args_def)
  ultimately show ?thesis
    using flag_Parse_args [of "[(''name'', ''app-01''), (''dir'', ''k'')]" keygen_flags "[]" "\<lambda>_. None"]
    by (simp add: plain_name_def)
qed

text \<open>An empty directory, 64 random bytes, nothing that fails; and a Curve25519 that reverses its argument.\<close>

definition example_world :: kworld where
  "example_world = \<lparr>kw_files = (\<lambda>_. None), kw_umask = 0, kw_cwd = Inr ''/etc'', kw_rand = replicate 64 7, kw_randend = io_EOF,
     kw_open = (\<lambda>_. None), kw_write = (\<lambda>_. None), kw_sync = (\<lambda>_. None), kw_close = (\<lambda>_. None), kw_remove = (\<lambda>_. None)\<rparr>"

definition example_x25519 :: "byte list \<Rightarrow> byte list result" where
  "example_x25519 k = (if length k = 32 then Inr (rev k) else Inl (errors_New ''bad length''))"

text \<open>A directory in which the file for the preshared key already exists, so that the run fails after the private key was written.\<close>

definition taken_world :: kworld where
  "taken_world = example_world\<lparr>kw_files := [key_path ''k'' ''app-01'' ''.psk'' \<mapsto> \<lparr>kf_mode = 384, kf_data = ''old''\<rparr>]\<rparr>"

lemma example_name: "ValidServiceName ''app-01''"
  by code_simp

lemma example_run:
  "runKeygen example_x25519 [''--name'', ''app-01'', ''--dir'', ''k''] w = keygen_files example_x25519 ''app-01'' ''k'' w"
  unfolding runKeygen_def example_flags by (simp add: flag_value_def example_name)

lemma example_out: "oc_out (fst (keygen_files example_x25519 ''app-01'' ''k'' example_world)) \<noteq> []"
  by (rule keygen_files_works [OF example_name])
    (simp_all add: example_world_def example_x25519_def clamp_nth)

section \<open>Properties\<close>

text \<open>
  Clamping is the X25519 contract. Of a 32-byte key it changes only the first and the
  last byte, and the scalar that results, read as a little-endian integer, is a multiple of eight
  between \<open>2\<^sup>2\<^sup>5\<^sup>4\<close> and \<open>2\<^sup>2\<^sup>5\<^sup>5\<close>; clamping once more changes nothing.
\<close>

theorem clampPrivateKey_contract:
  assumes "length priv = 32"
  shows "8 dvd le_value (clampPrivateKey priv) \<and> 2 ^ 254 \<le> le_value (clampPrivateKey priv)
    \<and> le_value (clampPrivateKey priv) < 2 ^ 255 \<and> length (clampPrivateKey priv) = 32
    \<and> (\<forall>i. i \<noteq> 0 \<and> i \<noteq> 31 \<longrightarrow> clampPrivateKey priv ! i = priv ! i)
    \<and> clampPrivateKey (clampPrivateKey priv) = clampPrivateKey priv"
  using clamp_scalar [OF assms] clamp_idem [OF assms] clamp_nth [OF assms] assms by simp

theorem clampPrivateKey_contract_witness:
  "8 dvd le_value (clampPrivateKey (replicate 32 255)) \<and> clampPrivateKey (replicate 32 255) ! 7 = 255"
  using clampPrivateKey_contract [of "replicate 32 255"] by simp

text \<open>
  Claim C31. What \<^verbatim>\<open>keygen\<close> writes, the rest of the system reads. A run that reports a key
  created exactly two files, both entries of the target directory that did not exist; the file
  reference to each resolves, past the permission check, to a key the device accepts: the clamped
  private key whose public key was printed, and the pre-shared key that was printed. The printed
  public key is one \<^verbatim>\<open>peers.yaml\<close> accepts. The only other condition is that Curve25519 returns 32 bytes and that
  the working directory has a name.
\<close>

theorem keygen_keys_are_usable:
  assumes "runKeygen x25519 args w = (oc, w')" "oc_out oc \<noteq> []" "kw_cwd w \<noteq> Inr []"
    and "\<forall>k pub. x25519 k = Inr pub \<longrightarrow> length pub = 32"
  shows "\<exists>name dir kp pp priv pub psk.
      kp = show_path (rooted_path dir) (path_comps dir @ [name @ ''.key''])
    \<and> pp = show_path (rooted_path dir) (path_comps dir @ [name @ ''.psk''])
    \<and> oc = \<lparr>oc_code = 0, oc_out = keygen_report name pub psk kp pp, oc_err = []\<rparr>
    \<and> kw_files w kp = None \<and> kw_files w pp = None \<and> (\<forall>p. p \<noteq> kp \<and> p \<noteq> pp \<longrightarrow> kw_files w' p = kw_files w p)
    \<and> secret_Resolve None (secrets_of w') (''file:'' @ kp) = Inr (Secret (EncodeToString (clampPrivateKey priv)))
    \<and> keyToHex (EncodeToString (clampPrivateKey priv)) = Inr (hex_EncodeToString (clampPrivateKey priv))
    \<and> x25519 (clampPrivateKey priv) = Inr pub \<and> validPublicKey (EncodeToString pub) = None
    \<and> secret_Resolve None (secrets_of w') (''file:'' @ pp) = Inr (Secret (EncodeToString psk))
    \<and> keyToHex (EncodeToString psk) = Inr (hex_EncodeToString psk)"
proof -
  obtain name dir where t: "keygen_target args w = Some (name, dir)"
    using keygen_run [where args = args and w = w and x = x25519] assms(1,2) by (cases "keygen_target args w") auto
  then have v: "ValidServiceName name" "keygen_files x25519 name dir w = (oc, w')"
    using keygen_run [where args = args and w = w and x = x25519] assms(1) by auto
  note d = keygen_target_dir [OF t assms(3)] and code = keygen_files_out [OF v(2)]
  have c: "oc_code oc = 0" using code assms(2) by simp
  obtain priv pub psk where k: "length priv = 32" "length psk = 32" "x25519 (clampPrivateKey priv) = Inr pub"
      "oc = \<lparr>oc_code = 0, oc_out = keygen_report name pub psk (key_path dir name ''.key'') (key_path dir name ''.psk''), oc_err = []\<rparr>"
      "kw_files w (key_path dir name ''.key'') = None" "kw_files w (key_path dir name ''.psk'') = None"
      "kw_files w' = (kw_files w)(key_path dir name ''.key'' \<mapsto> secret_file (EncodeToString (clampPrivateKey priv)) w,
         key_path dir name ''.psk'' \<mapsto> secret_file (EncodeToString psk) w)"
    by (rule keygen_files_success [OF v(2) c v(1) d])
  have n: "key_path dir name ext \<noteq> []" if "ext \<noteq> []" for ext using that by (simp add: key_path_def show_path_neq_Nil)
  have p: "length pub = 32" using assms(4) k(3) by blast
  have pk: "validPublicKey (EncodeToString pub) = None" using p by (auto simp: validPublicKey_def wgKeyLen_def)
  note kp = key_paths(3) [OF v(1) d]
  have f: "kw_files w' (key_path dir name ''.key'') = Some (secret_file (EncodeToString (clampPrivateKey priv)) w)"
    "kw_files w' (key_path dir name ''.psk'') = Some (secret_file (EncodeToString psk) w)"
    "\<forall>p. p \<noteq> key_path dir name ''.key'' \<and> p \<noteq> key_path dir name ''.psk'' \<longrightarrow> kw_files w' p = kw_files w p"
    using k(7) kp by simp_all
  note r = secret_file_resolves(1) [OF f(1) n clamp_nth(2) [OF k(1)], where r = None] secret_file_resolves(2) [OF f(1) n clamp_nth(2) [OF k(1)]]
    secret_file_resolves(1) [OF f(2) n k(2), where r = None] secret_file_resolves(2) [OF f(2) n k(2)]
  show ?thesis
    by (rule exI [of _ name], rule exI [of _ dir], rule exI [of _ "key_path dir name ''.key''"],
        rule exI [of _ "key_path dir name ''.psk''"], rule exI [of _ priv], rule exI [of _ pub], rule exI [of _ psk])
      (intro conjI k(3-6) f(3) r pk; simp add: key_path_def)
qed

theorem keygen_keys_are_usable_witness:
  "\<exists>kp priv. secret_Resolve None (secrets_of (snd (keygen_files example_x25519 ''app-01'' ''k'' example_world))) (''file:'' @ kp)
      = Inr (Secret (EncodeToString (clampPrivateKey priv)))"
proof -
  obtain oc w' where r: "keygen_files example_x25519 ''app-01'' ''k'' example_world = (oc, w')" by fastforce
  have "runKeygen example_x25519 [''--name'', ''app-01'', ''--dir'', ''k''] example_world = (oc, w')"
    using example_run r by simp
  moreover have "oc_out oc \<noteq> []" using example_out r by simp
  moreover have "kw_cwd example_world \<noteq> Inr []" by (simp add: example_world_def)
  moreover have "\<forall>k pub. example_x25519 k = Inr pub \<longrightarrow> length pub = 32"
    by (auto simp: example_x25519_def split: if_splits)
  ultimately show ?thesis using keygen_keys_are_usable r by (metis snd_conv)
qed

text \<open>
  Claim C32. \<^verbatim>\<open>keygen\<close> is all or nothing and never overwrites. Whatever fails, a file that
  existed is as it was; and a run that does not report a key leaves, when removals work, no file of
  its own behind, so that the same command can be run again.
\<close>

theorem keygen_all_or_nothing:
  assumes "runKeygen x25519 args w = (oc, w')" "kw_cwd w \<noteq> Inr []"
  shows "(\<forall>p f. kw_files w p = Some f \<longrightarrow> kw_files w' p = Some f)
    \<and> (oc_out oc = [] \<and> (\<forall>p. kw_remove w p = None) \<longrightarrow> kw_files w' = kw_files w)"
proof (cases "keygen_target args w")
  case None
  then have "w' = w" using keygen_run [where args = args and w = w and x = x25519] assms(1) by simp
  then show ?thesis by simp
next
  case (Some t)
  then obtain name dir where t: "keygen_target args w = Some (name, dir)" by (cases t) auto
  then have v: "ValidServiceName name" "keygen_files x25519 name dir w = (oc, w')"
    using keygen_run [where args = args and w = w and x = x25519] assms(1) by auto
  show ?thesis by (rule keygen_files_failed [OF v(2,1) keygen_target_dir [OF t assms(2)]])
qed

theorem keygen_all_or_nothing_witness:
  "case runKeygen example_x25519 [''--name'', ''app-01'', ''--dir'', ''k''] taken_world of (oc, w') \<Rightarrow>
     oc_code oc = 1 \<and> kw_files w' = kw_files taken_world \<and> kw_files w' (key_path ''k'' ''app-01'' ''.psk'') \<noteq> None"
proof -
  obtain oc w' where r: "runKeygen example_x25519 [''--name'', ''app-01'', ''--dir'', ''k''] taken_world = (oc, w')" by fastforce
  have c: "oc_code oc \<noteq> 0"
  proof
    assume z: "oc_code oc = 0"
    show False
      by (rule keygen_files_success [OF r [unfolded example_run] z example_name]) (simp_all add: taken_world_def)
  qed
  then have o: "oc_out oc = []" "oc_code oc = 1"
    using r by (auto simp: example_run keygen_files_def keygen_err_def Let_def split: prod.splits sum.splits option.splits)
  then show ?thesis using keygen_all_or_nothing [OF r] r by (simp add: taken_world_def example_world_def)
qed

text \<open>
  Claim C33. The private key is never printed. Two runs that differ only in the random bytes the
  private key is made of, and whose private keys have the same public key, have the same exit code
  and print the same text, on every path through the command.
\<close>

theorem keygen_keeps_private_key:
  assumes "length p1 = 32" "length p2 = 32" "x1 (clampPrivateKey p1) = x2 (clampPrivateKey p2)"
  shows "fst (runKeygen x1 args (w\<lparr>kw_rand := p1 @ rest\<rparr>)) = fst (runKeygen x2 args (w\<lparr>kw_rand := p2 @ rest\<rparr>))"
proof -
  have t: "keygen_target args (w\<lparr>kw_rand := p1 @ rest\<rparr>) = keygen_target args (w\<lparr>kw_rand := p2 @ rest\<rparr>)"
    by (cases "flag_Parse keygen_flags args (\<lambda>_. None)") (auto simp: keygen_target_def Let_def)
  note r1 = keygen_run [where args = args and w = "w\<lparr>kw_rand := p1 @ rest\<rparr>" and x = x1]
    and r2 = keygen_run [where args = args and w = "w\<lparr>kw_rand := p2 @ rest\<rparr>" and x = x2]
  show ?thesis
  proof (cases "keygen_target args (w\<lparr>kw_rand := p2 @ rest\<rparr>)")
    case None
    then have r: "\<forall>y w2. kw_cwd w2 = kw_cwd (w\<lparr>kw_rand := p2 @ rest\<rparr>) \<longrightarrow>
        fst (runKeygen y args w2) = fst (runKeygen x2 args (w\<lparr>kw_rand := p2 @ rest\<rparr>))"
      using r2 unfolding None option.case by blast
    have "kw_cwd (w\<lparr>kw_rand := p1 @ rest\<rparr>) = kw_cwd (w\<lparr>kw_rand := p2 @ rest\<rparr>)" by simp
    then show ?thesis by (rule r [rule_format])
  next
    case (Some q)
    obtain name dir where "q = (name, dir)" by (cases q)
    then show ?thesis using r1 r2 Some t keygen_files_blind [of p1 p2 x1 x2, OF assms, where name = name and dir = dir and w = w and rest = rest] by simp
  qed
qed

theorem keygen_keeps_private_key_witness:
  "fst (runKeygen (\<lambda>_. Inr (replicate 32 9)) [''--name'', ''app-01'', ''--dir'', ''k''] (example_world\<lparr>kw_rand := replicate 32 1 @ [2]\<rparr>))
    = fst (runKeygen (\<lambda>_. Inr (replicate 32 9)) [''--name'', ''app-01'', ''--dir'', ''k''] (example_world\<lparr>kw_rand := replicate 32 3 @ [2]\<rparr>))"
  by (rule keygen_keeps_private_key) simp_all

end
