(* ===== verification/ServeCmd.thy ===== *)
theory ServeCmd
  imports Keygen Serving
begin

text \<open>
  The \<^verbatim>\<open>serve\<close> subcommand and the dispatch of \<^verbatim>\<open>src/cmd/gocloak/main.go\<close>, and the
  return value of \<^verbatim>\<open>Server.Run\<close> once the server accepts. The libraries, the file system and the
  way the serving ends are the environment of the command, a record.
\<close>

section \<open>Definitions\<close>

text \<open>The end of the accept loop: whether the run's context was done when an accept failed, and the error.\<close>

definition accept_return :: "bool \<Rightarrow> goerror \<Rightarrow> goerror option" where
  "accept_return isDone aerr = (if isDone then None else Some (errorf_w ''gocloak: server: accept: '' aerr ''''))"

text \<open>The deferred wait for the watcher: its error becomes the result when there was none.\<close>

definition watch_return :: "goerror option \<Rightarrow> goerror option \<Rightarrow> goerror option" where
  "watch_return err watchErr = (if err = None \<and> watchErr \<noteq> None then watchErr else err)"

datatype logHandler = JSONHandler | TextHandler
datatype logLevel = LInfo | LError

type_synonym logLine = "logHandler \<times> logLevel \<times> string \<times> (string \<times> string) list"

definition newLogHandler :: "string \<Rightarrow> logHandler result" where
  "newLogHandler fmt =
     (if fmt = ''json'' then Inr JSONHandler
      else if fmt = ''text'' then Inr TextHandler
      else Inl (errors_New (''log_format '' @ quote fmt @ '' must be json or text'')))"

record 'w servenv =
  sn_lib :: "'w wglib"
  sn_osw :: osworld
  sn_fs :: fsenv
  sn_readFile :: "string \<Rightarrow> string result"
  sn_decode1 :: "string \<Rightarrow> yaml_error + serverYAML"
  sn_decode2 :: "string \<Rightarrow> yaml_error + unit"
  sn_clock :: "nat \<Rightarrow> time"
  sn_listen :: "addrport \<Rightarrow> 'w \<Rightarrow> goerror option \<times> 'w"
  sn_serving :: "Server \<times> 'w \<Rightarrow> Server \<times> 'w"
  sn_done :: bool
  sn_aerr :: goerror
  sn_werr :: "goerror option"

text \<open>
  \<^verbatim>\<open>Server.Run\<close>: its result, the server as it began to accept if it got so far, and the
  libraries' state after the deferred calls. What the handlers and the reloads have made of the
  server and the libraries by the end of the accept loop is part of the environment: the machine of
  \<^verbatim>\<open>Serving\<close> has it.
\<close>

definition Server_Run :: "'w servenv \<Rightarrow> Server \<Rightarrow> 'w \<Rightarrow> goerror option \<times> Server option \<times> 'w" where
  "Server_Run env srv w =
     (case run_startup (sn_lib env) (sn_osw env) (sn_fs env) (sn_clock env) (sn_listen env) (srv, w) of
        (Some err, s, w') \<Rightarrow> (Some err, None, w')
      | (None, s, w') \<Rightarrow>
          (watch_return (accept_return (sn_done env) (sn_aerr env)) (sn_werr env), Some s,
           snd (unwind (sn_lib env) AfterListen (sn_serving env (s, w')))))"

definition serve_flags :: "goflag list" where
  "serve_flags = [\<lparr>fl_name = ''config'', fl_type = ''string'', fl_usage = ''path to server.yaml'', fl_default = [],
     fl_check = (\<lambda>_. True)\<rparr>]"

definition error_line :: "logHandler \<Rightarrow> string \<Rightarrow> goerror \<Rightarrow> logLine" where
  "error_line h what err = (h, LError, what, [(''error'', emsg err)])"

text \<open>The part of \<^verbatim>\<open>runServe\<close> after the flags: exit code, log lines, the server that accepted, the libraries.\<close>

definition serve_config :: "'w servenv \<Rightarrow> string \<Rightarrow> 'w \<Rightarrow> int \<times> logLine list \<times> Server option \<times> 'w" where
  "serve_config env configPath w =
     (case LoadServerConfig (sn_readFile env) (sn_decode1 env) (sn_decode2 env) configPath of
        Inl err \<Rightarrow> (1, [error_line JSONHandler ''gocloak: serve: could not load config'' err], None, w)
      | Inr fc \<Rightarrow>
     (case newLogHandler (sfc_LogFormat fc) of
        Inl err \<Rightarrow> (1, [error_line JSONHandler ''gocloak: serve: could not build log handler'' err], None, w)
      | Inr h \<Rightarrow>
     (case NewServer (sn_fs env) (ServerConfigFrom (Some fc)) of
        Inl err \<Rightarrow> (1, [error_line h ''gocloak: serve: could not construct server'' err], None, w)
      | Inr srv \<Rightarrow>
          let starting = (h, LInfo, ''gocloak: starting'', [(''config'', configPath)]) in
          (case Server_Run env srv w of
             (Some err, s, w') \<Rightarrow> (1, [starting, error_line h ''gocloak: serve: server run failed'' err], s, w')
           | (None, s, w') \<Rightarrow> (0, [starting, (h, LInfo, ''gocloak: stopped'', [])], s, w')))))"

definition runServe :: "'w servenv \<Rightarrow> string list \<Rightarrow> 'w \<Rightarrow> outcome \<times> logLine list \<times> Server option \<times> 'w" where
  "runServe env args w =
     (case flag_Parse serve_flags args (\<lambda>_. None) of
        Inl err \<Rightarrow>
          (\<lparr>oc_code = (if errors_Is err FlagErrHelp then 0 else 2), oc_out = [],
             oc_err = parse_output err (default_usage ''serve'' serve_flags)\<rparr>, [], None, w)
      | Inr (vals, _) \<Rightarrow>
          let configPath = flag_value vals ''config'' [] in
          if configPath = []
          then (\<lparr>oc_code = 2, oc_out = [], oc_err = ''gocloak: serve: --config is required'' @ nl\<rparr>, [], None, w)
          else (case serve_config env configPath w of (code, lg, s, w') \<Rightarrow>
            (\<lparr>oc_code = code, oc_out = [], oc_err = []\<rparr>, lg, s, w')))"

definition usage_text :: string where
  "usage_text = ''usage: gocloak <command> [flags]'' @ nl @ ''commands:'' @ nl
     @ ''  keygen --name <peer-name> [--dir <dir>]   mint a peer keypair and PSK'' @ nl
     @ ''  serve --config <path>                     run the server'' @ nl"

text \<open>\<^verbatim>\<open>run\<close>: the subcommand by the first argument.\<close>

definition gocloak_run :: "(byte list \<Rightarrow> byte list result) \<Rightarrow> 'w servenv \<Rightarrow> string list \<Rightarrow> kworld \<times> 'w
    \<Rightarrow> outcome \<times> logLine list \<times> kworld \<times> 'w" where
  "gocloak_run x25519 env args = (\<lambda>(kw, w).
     case args of
       [] \<Rightarrow> (\<lparr>oc_code = 2, oc_out = [], oc_err = usage_text\<rparr>, [], kw, w)
     | cmd # rest \<Rightarrow>
         if cmd = ''keygen'' then (case runKeygen x25519 rest kw of (oc, kw') \<Rightarrow> (oc, [], kw', w))
         else if cmd = ''serve'' then (case runServe env rest w of (oc, lg, _, w') \<Rightarrow> (oc, lg, kw, w'))
         else if cmd = ''-h'' \<or> cmd = ''-help'' \<or> cmd = ''--help''
         then (\<lparr>oc_code = 0, oc_out = usage_text, oc_err = []\<rparr>, [], kw, w)
         else (\<lparr>oc_code = 2, oc_out = [],
                 oc_err = ''gocloak: unknown command '' @ quote cmd @ nl @ usage_text\<rparr>, [], kw, w))"

section \<open>Lemmas\<close>

lemma LoadServerConfig_validated:
  "LoadServerConfig rf d1 d2 path = Inr fc \<Longrightarrow> \<exists>raw. validateServer path raw = Inr fc"
  by (auto simp: LoadServerConfig_def split: sum.splits)

text \<open>What a configuration that loads promises besides what \<^verbatim>\<open>NewServer\<close> checks: a known log format.\<close>

lemma loaded_log_format:
  "LoadServerConfig rf d1 d2 path = Inr fc \<Longrightarrow> sfc_LogFormat fc = ''json'' \<or> sfc_LogFormat fc = ''text''"
  by (auto simp: validateServer_def Let_def DefaultLogFormat_def dest!: LoadServerConfig_validated
      split: if_splits option.splits sum.splits)

lemmas loaded_config_checks = loaded_file_starts [THEN conjunct1] loaded_log_format

lemma NewServer_loaded:
  assumes "LoadServerConfig rf d1 d2 path = Inr fc"
  shows "(case load_peers env (sfc_PeersFile fc) of
      Inl err \<Rightarrow> NewServer env (ServerConfigFrom (Some fc)) = Inl err
    | Inr _ \<Rightarrow> \<exists>srv. NewServer env (ServerConfigFrom (Some fc)) = Inr srv \<and> sv_cfg srv = ServerConfigFrom (Some fc)
        \<and> \<not> sv_started srv \<and> sv_limiters srv = [] \<and> sv_next srv = 0)"
  using loaded_config_checks(1) [OF assms]
  by (auto simp: NewServer_def ServerConfigFrom_def andThen_def split: sum.splits)

section \<open>Properties\<close>

text \<open>
  Claim C30. \<^verbatim>\<open>serve\<close> fails closed. A configuration that does not load is reported through the
  JSON handler, anything later through the handler the configuration names, which always exists; a
  configuration that loads is refused by \<^verbatim>\<open>NewServer\<close> only when its peer list does not load; the
  tunnel device is not touched before both have loaded; and the exit code is 0 only for a server that
  accepted connections, with consistent tables, and then ended without an error. Every other end is exit code 1, with the error on the last line.
\<close>

theorem serve_fails_closed:
  assumes "serve_config env path w = (code, lg, accepted, w')"
  shows "(case LoadServerConfig (sn_readFile env) (sn_decode1 env) (sn_decode2 env) path of
      Inl err \<Rightarrow> code = 1 \<and> lg = [error_line JSONHandler ''gocloak: serve: could not load config'' err] \<and> accepted = None \<and> w' = w
    | Inr fc \<Rightarrow> \<exists>h. newLogHandler (sfc_LogFormat fc) = Inr h \<and> (\<forall>l \<in> set lg. fst l = h) \<and>
        (case load_peers (sn_fs env) (sfc_PeersFile fc) of
           Inl err \<Rightarrow> code = 1 \<and> lg = [error_line h ''gocloak: serve: could not construct server'' err] \<and> accepted = None \<and> w' = w
         | Inr _ \<Rightarrow>
             (code = 0 \<longrightarrow> (\<exists>s. accepted = Some s \<and> listening s \<and> sn_done env \<and> sn_werr env = None))
             \<and> (accepted = None \<or> \<not> sn_done env \<or> sn_werr env \<noteq> None \<longrightarrow>
                 code = 1 \<and> (\<exists>err. last lg = error_line h ''gocloak: serve: server run failed'' err))))"
proof (cases "LoadServerConfig (sn_readFile env) (sn_decode1 env) (sn_decode2 env) path")
  case (Inl err)
  then show ?thesis using assms by (auto simp: serve_config_def)
next
  case (Inr fc)
  obtain h where h: "newLogHandler (sfc_LogFormat fc) = Inr h"
    using loaded_config_checks(2) [OF Inr] by (auto simp: newLogHandler_def)
  note n = NewServer_loaded [OF Inr, of "sn_fs env"]
  show ?thesis
  proof (cases "load_peers (sn_fs env) (sfc_PeersFile fc)")
    case l: (Inl err)
    then show ?thesis using assms n h Inr by (auto simp: serve_config_def error_line_def)
  next
    case l: (Inr cfg)
    obtain srv where srv: "NewServer (sn_fs env) (ServerConfigFrom (Some fc)) = Inr srv" "sv_limiters srv = []" "sv_next srv = 0"
      using n l by auto
    obtain e s v where r: "run_startup (sn_lib env) (sn_osw env) (sn_fs env) (sn_clock env) (sn_listen env) (srv, w) = (e, s, v)"
      by (metis prod_cases3)
    show ?thesis
    proof (cases e)
      case None
      then have r': "run_startup (sn_lib env) (sn_osw env) (sn_fs env) (sn_clock env) (sn_listen env) (srv, w) = (None, s, v)"
        using r by simp
      have "listening s" by (rule startup_listening [OF srv(2,3) r'])
      then show ?thesis
        using assms r None h Inr srv l
        by (cases "sn_werr env"; cases "sn_done env")
          (auto simp: serve_config_def Server_Run_def error_line_def accept_return_def watch_return_def)
    next
      case (Some err)
      then show ?thesis
        using assms r h Inr srv l by (auto simp: serve_config_def Server_Run_def error_line_def)
    qed
  qed
qed

definition example_yaml :: serverYAML where
  "example_yaml = \<lparr>sy_ListenPort = 51820, sy_PrivateKey = ''env:K'', sy_TunnelIP = ''10.99.0.1'', sy_MTU = 0,
     sy_PeersFile = ''p'', sy_LogFormat = ''text''\<rparr>"

definition example_serve :: "wg_table servenv" where
  "example_serve = \<lparr>sn_lib = fresh_lib, sn_osw = example_keyworld, sn_fs = example_env, sn_readFile = (\<lambda>_. Inr []),
     sn_decode1 = (\<lambda>_. Inr example_yaml), sn_decode2 = (\<lambda>_. Inl YamlEOF), sn_clock = (\<lambda>_. 0),
     sn_listen = (\<lambda>_ w. (None, w)), sn_serving = id, sn_done = True, sn_aerr = net_ErrClosed, sn_werr = None\<rparr>"

lemma example_served: "\<exists>lg s w'. serve_config example_serve ''c'' empty_table = (0, lg, Some s, w')"
proof -
  have v: "validSecretRef ''env:K'' = None" by code_simp
  have "LoadServerConfig (\<lambda>_. Inr []) (\<lambda>_. Inr example_yaml) (\<lambda>_. Inl YamlEOF) ''c''
      = Inr \<lparr>sfc_ListenPort = 51820, sfc_PrivateKey = ''env:K'', sfc_TunnelIP = serverTunnelIP, sfc_MTU = 1280,
          sfc_PeersFile = ''p'', sfc_LogFormat = ''text''\<rparr>" (is "_ = Inr ?fc")
    by (simp add: LoadServerConfig_def decodeStrict_def validateServer_def example_yaml_def v example_server_ip
        DefaultMTU_def minMTU_def maxMTU_def)
  moreover have "server_checks example_cfg = Inr example_cfg" "ServerConfigFrom (Some ?fc) = example_cfg"
    using loaded_config_checks(1) [OF calculation] by (simp_all add: ServerConfigFrom_def example_cfg_def)
  moreover have "NewServer example_env example_cfg = Inr example_new"
    using calculation(2) example_env_load by (simp add: NewServer_def example_new_def example_cfg_def)
  ultimately show ?thesis
    using example_startup
    by (auto simp: serve_config_def example_serve_def newLogHandler_def Server_Run_def accept_return_def watch_return_def)
qed

theorem serve_fails_closed_witness:
  "\<exists>lg s w'. serve_config example_serve ''c'' empty_table = (0, lg, Some s, w') \<and> listening s"
proof -
  obtain lg s w' where r: "serve_config example_serve ''c'' empty_table = (0, lg, Some s, w')"
    using example_served by blast
  then have "listening s"
    using serve_fails_closed [OF r] by (auto split: sum.split_asm) (meson sumE)
  then show ?thesis using r by blast
qed

end
