(* ===== verification/Client.thy ===== *)
theory Client
  imports Handler Sync Gofmt
begin

text \<open>
  \<^verbatim>\<open>src/client.go\<close>: construction, the dial with its retries and its one re-resolution of the
  endpoint, the hello exchange with its watchdog, and the close. The name resolution, netstack's
  dialer and the caller's context are the environment of a dial: a record of what they will do and
  when. Instants are explicit, so the budget of a call is a number the loop is compared with.
\<close>

section \<open>Definitions\<close>

definition millisecond :: duration where "millisecond = 1000000"

definition DefaultDialTimeout :: duration where "DefaultDialTimeout = 10 * second"
definition clientSecretResolveTimeout :: duration where "clientSecretResolveTimeout = 30 * second"
definition clientEndpointResolveTimeout :: duration where "clientEndpointResolveTimeout = 10 * second"
definition clientDialAttemptTimeout :: duration where "clientDialAttemptTimeout = 2 * second"
definition clientDialRetryInterval :: duration where "clientDialRetryInterval = 250 * millisecond"

definition errHandshakeTimeout :: goerror where
  "errHandshakeTimeout = GoError ''gocloak: handshake timeout'' [ErrHandshakeTimeout]"
definition errDenied :: goerror where
  "errDenied = GoError ''gocloak: the server denied this service for this peer'' [ErrDenied]"
definition errBackendUnavailable :: goerror where
  "errBackendUnavailable = GoError ''gocloak: the server could not reach the backend for this service'' [ErrBackendUnavailable]"
definition errRateLimited :: goerror where
  "errRateLimited = GoError ''gocloak: the server rate limited this peer'' [ErrRateLimited]"
definition errMalformedRequest :: goerror where
  "errMalformedRequest = GoError ''gocloak: the server rejected the hello frame as malformed'' [ErrMalformedRequest]"
definition errClientClosed :: goerror where
  "errClientClosed = GoError ''gocloak: client is closed'' [ErrClientClosed]"
definition errInvalidServiceName :: goerror where
  "errInvalidServiceName = GoError ''gocloak: invalid service name, want ^[a-z0-9][a-z0-9-]{0,62}$'' [ErrInvalidServiceName]"

record ClientConfig =
  cc_Endpoint :: string
  cc_ServerPubKey :: string
  cc_PrivateKey :: SecretRef
  cc_PresharedKey :: SecretRef
  cc_TunnelIP :: addr
  cc_MTU :: int
  cc_DialTimeout :: duration
  cc_Resolver :: "SecretResolver option"

record clientEndpoint =
  ep_configured :: string
  ep_host :: string
  ep_port :: "16 word"
  ep_literal :: bool
  ep_addr :: addrport
  ep_generation :: "64 word"

record Client =
  cl_endpoint :: clientEndpoint
  cl_serverPubKey :: string
  cl_serverAddr :: addrport
  cl_dialTimeout :: duration
  cl_dev :: tunnelDevice
  cl_closed :: bool
  cl_closeOnce :: bool
  cl_closeErr :: "goerror option"

definition ep_current :: "clientEndpoint \<Rightarrow> addrport \<times> 64 word" where
  "ep_current e = (ep_addr e, ep_generation e)"

definition ep_applied :: "addrport \<Rightarrow> clientEndpoint \<Rightarrow> clientEndpoint" where
  "ep_applied a e = e\<lparr>ep_addr := a, ep_generation := ep_generation e + 1\<rparr>"

definition ep_describe :: "clientEndpoint \<Rightarrow> string" where
  "ep_describe e =
     (if ep_literal e then ep_configured e
      else ep_configured e @ '' (resolved to '' @ AddrPort_String (fst (ep_current e)) @ '')'')"

subsection \<open>Helpers\<close>

text \<open>The error \<^verbatim>\<open>net.SplitHostPort\<close> returns where \<^const>\<open>SplitHostPort\<close> has no result.\<close>

definition SplitHostPort_err :: "string \<Rightarrow> goerror" where
  "SplitHostPort_err hp =
     (let why = (case last_index_byte hp (CHR '':'') of
          None \<Rightarrow> ''missing port in address''
        | Some i \<Rightarrow>
            if hd hp = CHR ''['' then
              (case index_byte hp (CHR '']'') of
                 None \<Rightarrow> ''missing '' @ [CHR 0x27] @ '']'' @ [CHR 0x27] @ '' in address''
               | Some e \<Rightarrow>
                   if Suc e = length hp then ''missing port in address''
                   else if Suc e \<noteq> i then
                     (if hp ! Suc e = CHR '':'' then ''too many colons in address'' else ''missing port in address'')
                   else if CHR ''['' \<in> set (drop 1 hp) then ''unexpected '' @ [CHR 0x27] @ ''['' @ [CHR 0x27] @ '' in address''
                   else ''unexpected '' @ [CHR 0x27] @ '']'' @ [CHR 0x27] @ '' in address'')
            else if CHR '':'' \<in> set (take i hp) then ''too many colons in address''
            else if CHR ''['' \<in> set hp then ''unexpected '' @ [CHR 0x27] @ ''['' @ [CHR 0x27] @ '' in address''
            else ''unexpected '' @ [CHR 0x27] @ '']'' @ [CHR 0x27] @ '' in address'')
      in errors_New (''address '' @ hp @ '': '' @ why))"

definition splitEndpoint :: "string \<Rightarrow> (string \<times> 16 word) result" where
  "splitEndpoint endpoint =
     (if endpoint = [] then Inl (errors_New ''gocloak: client: endpoint is required'')
      else case SplitHostPort endpoint of
        None \<Rightarrow> Inl (errorf_w (''gocloak: client: endpoint '' @ quote endpoint @ '' must be host:port: '')
                 (SplitHostPort_err endpoint) '''')
      | Some (h, p) \<Rightarrow>
          if h = [] then Inl (errors_New (''gocloak: client: endpoint '' @ quote endpoint @ '' has no host''))
          else (case parse_uint16 p of
              None \<Rightarrow> Inl (errors_New (''gocloak: client: endpoint '' @ quote endpoint
                       @ '' must end in a port number in 1-65535''))
            | Some n \<Rightarrow>
                if n = 0 then Inl (errors_New (''gocloak: client: endpoint '' @ quote endpoint
                       @ '' must end in a port number in 1-65535''))
                else Inr (h, of_nat n)))"

definition resolveEndpoint :: "(string \<Rightarrow> addr list result) \<Rightarrow> string \<Rightarrow> 16 word \<Rightarrow> (addrport \<times> bool) result" where
  "resolveEndpoint lookup host port =
     (case ParseAddr host of
        Some ip \<Rightarrow> Inr (AddrPort (Unmap ip) port, True)
      | None \<Rightarrow>
          (case lookup host of
             Inl err \<Rightarrow> Inl (errorf_w (''gocloak: client: resolve endpoint '' @ quote host @ '': '') err '''')
           | Inr [] \<Rightarrow> Inl (errors_New (''gocloak: client: endpoint '' @ quote host @ '' resolved to no addresses''))
           | Inr (ip # _) \<Rightarrow> Inr (AddrPort (Unmap ip) port, False)))"

definition clientTunnelIP :: "addr \<Rightarrow> addr result" where
  "clientTunnelIP addr =
     (if \<not> IsValid addr then Inl (errors_New ''gocloak: client: tunnel ip is required'')
      else let ip = Unmap addr in
        if \<not> Contains tunnelSubnet ip
        then Inl (errors_New (''gocloak: client: tunnel ip '' @ Addr_String ip @ '' is outside the tunnel subnet ''
               @ Prefix_String tunnelSubnet))
        else if ip = serverTunnelIP
        then Inl (errors_New (''gocloak: client: tunnel ip '' @ Addr_String ip @ '' is the server address (spec section 3.2)''))
        else if ip = pfx_addr (Masked tunnelSubnet) \<or> ip = subnetBroadcast tunnelSubnet
        then Inl (errors_New (''gocloak: client: tunnel ip '' @ Addr_String ip @ '' is not a host address in ''
               @ Prefix_String tunnelSubnet))
        else Inr ip)"

definition serviceFromAddr :: "string \<Rightarrow> string" where
  "serviceFromAddr addr = (case SplitHostPort addr of Some (host, _) \<Rightarrow> host | None \<Rightarrow> addr)"

definition statusError :: "status \<Rightarrow> string \<Rightarrow> goerror option" where
  "statusError st service =
     (if st = statusOK then None
      else if st = statusDenied then Some (errorf_w '''' errDenied ('': '' @ service))
      else if st = statusBackendUnavailable then Some (errorf_w '''' errBackendUnavailable ('': '' @ service))
      else if st = statusRateLimited then Some (errorf_w '''' errRateLimited ('': '' @ service))
      else if st = statusMalformed then Some (errorf_w '''' errMalformedRequest ('': '' @ service))
      else Some (errors_New (''gocloak: client: '' @ service @ '': unexpected status '' @ status_String st)))"

subsection \<open>Construction\<close>

text \<open>The checks of \<^verbatim>\<open>newClient\<close>, before anything is resolved: host, port, tunnel address, dial timeout.\<close>

definition client_checks :: "ClientConfig \<Rightarrow> (string \<times> 16 word \<times> addr \<times> duration) result" where
  "client_checks cfg =
     andThen (splitEndpoint (cc_Endpoint cfg)) (\<lambda>(host, port).
     case validPublicKey (cc_ServerPubKey cfg) of
       Some err \<Rightarrow> Inl (errorf_w ''gocloak: client: server public key '' err '''')
     | None \<Rightarrow>
     (case validSecretRef (cc_PrivateKey cfg) of
       Some err \<Rightarrow> Inl (errorf_w ''gocloak: client: private key '' err '''')
     | None \<Rightarrow>
     (case validSecretRef (cc_PresharedKey cfg) of
       Some err \<Rightarrow> Inl (errorf_w ''gocloak: client: preshared key '' err '''')
     | None \<Rightarrow>
     andThen (clientTunnelIP (cc_TunnelIP cfg)) (\<lambda>tunnelIP.
     if cc_MTU cfg \<noteq> 0 \<and> (cc_MTU cfg < minMTU \<or> cc_MTU cfg > maxMTU)
     then Inl (errors_New (''gocloak: client: mtu '' @ show_int (cc_MTU cfg) @ '' is not in '' @ show_int minMTU
            @ ''-'' @ show_int maxMTU))
     else if cc_DialTimeout cfg < 0
     then Inl (errors_New (''gocloak: client: dial timeout '' @ Duration_String (cc_DialTimeout cfg) @ '' is negative''))
     else Inr (host, port, tunnelIP, if cc_DialTimeout cfg = 0 then DefaultDialTimeout else cc_DialTimeout cfg)))))"

definition newClient :: "'w wglib \<Rightarrow> osworld \<Rightarrow> (string \<Rightarrow> addr list result) \<Rightarrow> ClientConfig \<Rightarrow> 'w \<Rightarrow> Client result \<times> 'w" where
  "newClient lib osw lookup cfg w =
     (case client_checks cfg of
       Inl err \<Rightarrow> (Inl err, w)
     | Inr (host, port, tunnelIP, dialTimeout) \<Rightarrow>
     (case resolveEndpoint lookup host port of
       Inl err \<Rightarrow> (Inl err, w)
     | Inr (endpoint, literal) \<Rightarrow>
     (case secret_Resolve (cc_Resolver cfg) osw (cc_PrivateKey cfg) of
       Inl err \<Rightarrow> (Inl (errorf_w ''gocloak: client: private key: '' (the (scrubRef (Some err) (cc_PrivateKey cfg))) ''''), w)
     | Inr privateKey \<Rightarrow>
     (case secret_Resolve (cc_Resolver cfg) osw (cc_PresharedKey cfg) of
       Inl err \<Rightarrow> (Inl (errorf_w ''gocloak: client: preshared key: '' (the (scrubRef (Some err) (cc_PresharedKey cfg))) ''''), w)
     | Inr psk \<Rightarrow>
     (case newTunnelDevice lib \<lparr>do_TunnelIP = tunnelIP, do_MTU = cc_MTU cfg, do_PrivateKey = privateKey,
           do_ListenPort = 0, do_LogLevel = 1\<rparr> w of
       (Inl err, w1) \<Rightarrow> (Inl err, w1)
     | (Inr dev, w1) \<Rightarrow>
     (case AddPeer lib dev \<lparr>dp_PublicKey = cc_ServerPubKey cfg, dp_PresharedKey = psk, dp_AllowedIP = serverTunnelIP,
           dp_Endpoint = endpoint\<rparr> w1 of
       (Some err, w2) \<Rightarrow> (Inl err, snd (snd (dev_Close lib dev w2)))
     | (None, w2) \<Rightarrow>
         (Inr \<lparr>cl_endpoint = \<lparr>ep_configured = cc_Endpoint cfg, ep_host = host, ep_port = port, ep_literal = literal,
                 ep_addr = endpoint, ep_generation = 0\<rparr>,
               cl_serverPubKey = cc_ServerPubKey cfg, cl_serverAddr = AddrPort serverTunnelIP tunnelServicePort,
               cl_dialTimeout = dialTimeout, cl_dev = dev, cl_closed = False, cl_closeOnce = False,
               cl_closeErr = None\<rparr>, w2)))))))"

definition client_Close :: "'w wglib \<Rightarrow> Client \<times> 'w \<Rightarrow> goerror option \<times> Client \<times> 'w" where
  "client_Close lib = (\<lambda>(c, w).
     let c1 = c\<lparr>cl_closed := True\<rparr> in
     if cl_closeOnce c1 then (cl_closeErr c1, c1, w)
     else (case dev_Close lib (cl_dev c1) w of (err, dev, w1) \<Rightarrow>
        (err, c1\<lparr>cl_closeOnce := True, cl_closeErr := err, cl_dev := dev\<rparr>, w1)))"

subsection \<open>Contexts and the environment of a dial\<close>

text \<open>
  The caller's context: its deadline and the instant it is cancelled, where there is one. What
  the dialer, the name resolution and the semaphore do is given by the instant of the call, with
  the time it takes; \<open>de_slot\<close> is how long it takes until the semaphore could be had.
\<close>

record dialenv =
  de_start :: time
  de_deadline :: "time option"
  de_cancel :: "time option"
  de_attempt :: "nat \<Rightarrow> time \<Rightarrow> conn result \<times> duration"
  de_slot :: "time \<Rightarrow> duration"
  de_lookup :: "time \<Rightarrow> string \<Rightarrow> addr list result \<times> duration"

definition context_Canceled :: goerror where
  "context_Canceled = GoError ''context canceled'' [CtxCanceled]"
definition context_DeadlineExceeded :: goerror where
  "context_DeadlineExceeded = GoError ''context deadline exceeded'' [CtxDeadlineExceeded]"

definition before :: "time option \<Rightarrow> time \<Rightarrow> bool" where
  "before x t = (case x of None \<Rightarrow> False | Some y \<Rightarrow> y \<le> t)"

text \<open>\<^verbatim>\<open>ctx.Err()\<close> at an instant, for a cancellation and a deadline that may be missing: whichever came first.\<close>

definition ctx_Err :: "time option \<Rightarrow> time option \<Rightarrow> time \<Rightarrow> goerror option" where
  "ctx_Err cancel deadline t =
     (case cancel of
        Some x \<Rightarrow> if x \<le> t \<and> (case deadline of None \<Rightarrow> True | Some d \<Rightarrow> x < d) then Some context_Canceled
                  else if before deadline t then Some context_DeadlineExceeded else None
      | None \<Rightarrow> if before deadline t then Some context_DeadlineExceeded else None)"

text \<open>\<^verbatim>\<open>context.WithTimeout(ctx, c.dialTimeout)\<close>: the deadline of the budget and the instant it is done.\<close>

definition budget_deadline :: "dialenv \<Rightarrow> Client \<Rightarrow> time" where
  "budget_deadline env c = (case de_deadline env of
      None \<Rightarrow> de_start env + cl_dialTimeout c
    | Some d \<Rightarrow> min d (de_start env + cl_dialTimeout c))"

definition budget_end :: "dialenv \<Rightarrow> Client \<Rightarrow> time" where
  "budget_end env c = (case de_cancel env of
      None \<Rightarrow> budget_deadline env c
    | Some x \<Rightarrow> min x (budget_deadline env c))"

definition handshakeBound :: "time \<Rightarrow> time \<Rightarrow> duration" where
  "handshakeBound deadline start = Duration_Round (time_Sub deadline start) (100 * millisecond)"

definition handshakeTimeoutError :: "Client \<Rightarrow> duration \<Rightarrow> goerror" where
  "handshakeTimeoutError c waited =
     errorf_w '''' errHandshakeTimeout ('': no response from '' @ ep_describe (cl_endpoint c) @ '' after ''
       @ Duration_String waited @ ''. The endpoint does not answer unauthenticated traffic, so this means one of: ''
       @ ''wrong server public key, wrong client key, revoked peer, wrong PSK, UDP blocked on this network, or the endpoint is down. ''
       @ ''The server cannot tell you which. Check the server log for a peer entry'')"

subsection \<open>Dialling\<close>

text \<open>
  \<^verbatim>\<open>refreshEndpoint\<close>, with the instant at which it returns: its budget is over at \<open>stop\<close>. This is
  the function as one dial runs it; several dials at once are the machine of \<^verbatim>\<open>Dialing\<close>.
\<close>

definition set_endpoint :: "'w wglib \<Rightarrow> addrport \<Rightarrow> Client \<times> 'w \<Rightarrow> goerror option \<times> 'w" where
  "set_endpoint lib addr = (\<lambda>(c, w).
     if addr \<noteq> fst (ep_current (cl_endpoint c)) then SetPeerEndpoint lib (cl_dev c) (cl_serverPubKey c) addr w
     else (None, w))"

definition refreshEndpoint :: "'w wglib \<Rightarrow> dialenv \<Rightarrow> time \<Rightarrow> 64 word \<Rightarrow> time \<Rightarrow> Client \<times> 'w
    \<Rightarrow> goerror option \<times> (Client \<times> 'w) \<times> time" where
  "refreshEndpoint lib env stop generation t = (\<lambda>(c, w).
     let e = cl_endpoint c; ts = t + max 0 (de_slot env t) in
     if ep_literal e then (None, (c, w), t)
     else if stop \<le> ts then (None, (c, w), max t stop)
     else if snd (ep_current e) \<noteq> generation then (None, (c, w), ts)
     else
       let t' = ts + max 0 (snd (de_lookup env ts (ep_host e))) in
       (case resolveEndpoint (\<lambda>host. fst (de_lookup env ts host)) (ep_host e) (ep_port e) of
          Inl err \<Rightarrow> (Some err, (c, w), t')
        | Inr (addr, _) \<Rightarrow>
            (case set_endpoint lib addr (c, w) of
               (Some err, w') \<Rightarrow> (Some err, (c, w'), t')
             | (None, w') \<Rightarrow> (None, (c\<lparr>cl_endpoint := ep_applied addr e\<rparr>, w'), t'))))"

text \<open>
  The loop of \<^verbatim>\<open>dialControl\<close>: the number of attempts made, whether the endpoint was refreshed,
  the instant. After a failed attempt the select waits for the end of the budget or for the retry
  interval, whichever comes first. The instant \<^verbatim>\<open>start\<close> of the function is that of the call: the
  rounding of \<^verbatim>\<open>handshakeBound\<close> absorbs the difference. The result is the connection or the error, the client and the
  device, the instant.
\<close>

function dial_loop :: "'w wglib \<Rightarrow> dialenv \<Rightarrow> time \<Rightarrow> 64 word \<Rightarrow> nat \<Rightarrow> bool \<Rightarrow> time \<Rightarrow> Client \<times> 'w
    \<Rightarrow> conn result \<times> (Client \<times> 'w) \<times> time" where
  "dial_loop lib env stop generation k again t st =
     (case de_attempt env k t of
        (Inr conn, el) \<Rightarrow> (Inr conn, st, t + max 0 el)
      | (Inl err, el) \<Rightarrow>
          let t1 = t + max 0 el in
          if stop \<le> t1 + clientDialRetryInterval then
            let t2 = max t1 stop; c = fst st in
            (case ctx_Err (de_cancel env) (de_deadline env) t2 of
               Some ce \<Rightarrow>
                 if errors_Is ce CtxCanceled
                 then (Inl (errorf_w (''gocloak: client: dial '' @ ep_describe (cl_endpoint c) @ '': '') ce ''''), st, t2)
                 else (Inl (handshakeTimeoutError c (handshakeBound (budget_deadline env c) (de_start env))), st, t2)
             | None \<Rightarrow> (Inl (handshakeTimeoutError c (handshakeBound (budget_deadline env c) (de_start env))), st, t2))
          else
            let t2 = t1 + clientDialRetryInterval in
            if again then dial_loop lib env stop generation (Suc k) True t2 st
            else (case refreshEndpoint lib env stop generation t2 st of
                (Some err, st', t3) \<Rightarrow> (Inl err, st', t3)
              | (None, st', t3) \<Rightarrow> dial_loop lib env stop generation (Suc k) True (max t2 t3) st'))"
  by pat_completeness auto

termination dial_loop
  by (relation "measure (\<lambda>(lib, env, stop, g, k, r, t, st). nat (stop - t))")
    (auto simp: clientDialRetryInterval_def millisecond_def)

declare dial_loop.simps [simp del]

definition dialControl :: "'w wglib \<Rightarrow> dialenv \<Rightarrow> Client \<times> 'w \<Rightarrow> conn result \<times> (Client \<times> 'w) \<times> time" where
  "dialControl lib env st =
     dial_loop lib env (budget_end env (fst st)) (snd (ep_current (cl_endpoint (fst st)))) 0 False (de_start env) st"

subsection \<open>The hello exchange\<close>

text \<open>
  When the context is done and when the watchdog's \<^verbatim>\<open>conn.Close\<close> runs, by the number of the
  piece of \<^verbatim>\<open>hello\<close> it comes before: 0 the write deadline, 1 the write, 2 the read deadline, 3 the
  read, 4 the status, 5 the stop and what follows. The watchdog runs only after the context is
  done; a stop that finds the context done reports that the watchdog has started.
\<close>

record helloenv =
  he_now :: "nat \<Rightarrow> time"
  he_deadline :: "time option"
  he_done :: "nat option"
  he_err :: goerror
  he_close :: "nat option"

definition helloDeadline :: "time \<Rightarrow> time option \<Rightarrow> time" where
  "helloDeadline now deadline =
     (let dl = now + helloReadDeadline in
      case deadline of Some d \<Rightarrow> if d < dl then d else dl | None \<Rightarrow> dl)"

definition reached :: "nat option \<Rightarrow> nat \<Rightarrow> bool" where
  "reached x k = (case x of None \<Rightarrow> False | Some j \<Rightarrow> j \<le> k)"

definition watchdog :: "helloenv \<Rightarrow> nat \<Rightarrow> conn \<Rightarrow> conn" where
  "watchdog env k conn = (if reached (he_done env) k \<and> reached (he_close env) k then conn_close conn else conn)"

definition helloError :: "helloenv \<Rightarrow> nat \<Rightarrow> Client \<Rightarrow> goerror \<Rightarrow> goerror" where
  "helloError env k c err =
     errorf_w (''gocloak: client: hello exchange with '' @ ep_describe (cl_endpoint c) @ '': '')
       (if reached (he_done env) k then he_err env else err) ''''"

definition finishHello :: "helloenv \<Rightarrow> Client \<Rightarrow> conn \<Rightarrow> goerror option \<times> conn" where
  "finishHello env c conn =
     (if reached (he_done env) 5 then (Some (helloError env 5 c (he_err env)), watchdog env 5 conn)
      else case SetDeadline None conn of
        (Some err, c1) \<Rightarrow> (Some (errorf_w ''gocloak: client: '' err ''''), c1)
      | (None, c1) \<Rightarrow> (None, c1))"

definition hello :: "helloenv \<Rightarrow> Client \<Rightarrow> conn \<Rightarrow> string \<Rightarrow> goerror option \<times> conn" where
  "hello env c conn service =
     (case SetWriteDeadline (Some (helloDeadline (he_now env 0) (he_deadline env))) (watchdog env 0 conn) of
       (Some err, c1) \<Rightarrow> (Some (errorf_w ''gocloak: client: '' err ''''), c1)
     | (None, c1) \<Rightarrow>
     (case writeHelloRequest service (watchdog env 1 c1) of
       (Some err, c2) \<Rightarrow> (Some (helloError env 1 c err), c2)
     | (None, c2) \<Rightarrow>
     (case SetReadDeadline (Some (helloDeadline (he_now env 2) (he_deadline env))) (watchdog env 2 c2) of
       (Some err, c3) \<Rightarrow> (Some (errorf_w ''gocloak: client: '' err ''''), c3)
     | (None, c3) \<Rightarrow>
     (case readHelloResponse (watchdog env 3 c3) of
       (Inl err, c4) \<Rightarrow> (Some (helloError env 3 c err), c4)
     | (Inr st, c4) \<Rightarrow>
     (case statusError st service of
       Some err \<Rightarrow> (Some err, watchdog env 4 c4)
     | None \<Rightarrow> finishHello env c c4)))))"

text \<open>
  \<^verbatim>\<open>Dial\<close>: the result, the connection that was opened on the way in its last state, the client and the device.
\<close>

definition Dial :: "'w wglib \<Rightarrow> dialenv \<Rightarrow> (time \<Rightarrow> helloenv) \<Rightarrow> string \<Rightarrow> Client \<times> 'w
    \<Rightarrow> conn result \<times> conn option \<times> Client \<times> 'w" where
  "Dial lib env henv service st =
     (if \<not> ValidServiceName service then (Inl errInvalidServiceName, None, st)
      else if cl_closed (fst st) then (Inl errClientClosed, None, st)
      else case dialControl lib env st of
        (Inl err, st', t) \<Rightarrow> (Inl err, None, st')
      | (Inr conn, st', t) \<Rightarrow>
          (case hello (henv t) (fst st') conn service of
             (Some err, c1) \<Rightarrow> (Inl err, Some (conn_close c1), st')
           | (None, c1) \<Rightarrow> (Inr c1, Some c1, st')))"

definition DialContext :: "'w wglib \<Rightarrow> dialenv \<Rightarrow> (time \<Rightarrow> helloenv) \<Rightarrow> string \<Rightarrow> string \<Rightarrow> Client \<times> 'w
    \<Rightarrow> conn result \<times> conn option \<times> Client \<times> 'w" where
  "DialContext lib env henv network addr st = Dial lib env henv (serviceFromAddr addr) st"

section \<open>Specification\<close>

text \<open>What the contexts promise: an attempt and a lookup return before the budget they run under is over.\<close>

definition timely :: "dialenv \<Rightarrow> time \<Rightarrow> bool" where
  "timely env stop = ((\<forall>k t. t \<le> stop \<longrightarrow> t + max 0 (snd (de_attempt env k t)) \<le> stop)
     \<and> (\<forall>t h. t \<le> stop \<longrightarrow> t + max 0 (snd (de_lookup env t h)) \<le> stop))"

text \<open>An address whose text is one line: its zone, if it has one, holds no newline.\<close>

definition zone_ok :: "addr \<Rightarrow> bool" where
  "zone_ok a = (case a of Addr6 _ z \<Rightarrow> CHR 0x0A \<notin> set z | _ \<Rightarrow> True)"

definition names_ok :: "(string \<Rightarrow> addr list result) \<Rightarrow> bool" where
  "names_ok lookup = (\<forall>h ips. lookup h = Inr ips \<longrightarrow> list_all zone_ok ips)"

text \<open>
  The device agrees with the client: the pinned server is on it, the tunnel address of the server
  is routed to it, and its endpoint is the address the client believes to be in force.
\<close>

definition client_sync :: "(nat \<Rightarrow> 'w \<Rightarrow> wg_table) \<Rightarrow> Client \<Rightarrow> 'w \<Rightarrow> bool" where
  "client_sync tbl c w = (\<exists>pub p. keyToHex (cl_serverPubKey c) = Inr pub
     \<and> wt_wf (tbl (the (td_dev (cl_dev c))) w)
     \<and> wt_peers (tbl (the (td_dev (cl_dev c))) w) = [pub \<mapsto> p]
     \<and> wt_routes (tbl (the (td_dev (cl_dev c))) w) = [allowed_text serverTunnelIP \<mapsto> pub]
     \<and> wp_endpoint p = AddrPort_String (ep_addr (cl_endpoint c)))"

section \<open>Lemmas\<close>

subsection \<open>Texts of addresses\<close>

lemma show_hex_nat_no_newline: "CHR 0x0A \<notin> set (show_hex_nat n)"
proof (induction n rule: show_hex_nat.induct)
  case (1 n)
  then show ?case
    using hex_char_plain [of n] hex_char_plain [of "n mod 16"]
    by (cases "n < 16") (auto simp: show_hex_nat.simps [of n])
qed

lemma str_join_no_newline:
  "CHR 0x0A \<notin> set sep \<Longrightarrow> (\<And>x. x \<in> set xs \<Longrightarrow> CHR 0x0A \<notin> set x) \<Longrightarrow> CHR 0x0A \<notin> set (str_join xs sep)"
  by (induction xs sep rule: str_join.induct) auto

lemma string6_no_newline: "CHR 0x0A \<notin> set (string6 w)"
proof -
  have j: "CHR 0x0A \<notin> set (str_join (map show_hex_nat gs) '':'')" for gs
    by (rule str_join_no_newline) (auto simp: show_hex_nat_no_newline)
  show ?thesis using j by (auto simp: string6_def Let_def simp del: map_map split: prod.splits)
qed

lemma AddrPort_String_no_newline: "zone_ok a \<Longrightarrow> CHR 0x0A \<notin> set (AddrPort_String (AddrPort a p))"
  by (cases a) (auto simp: AddrPort_String_def Addr_String_def zone_ok_def string4_no_newline string6_no_newline show_nat_no_newline)

lemma zone_ok_Unmap: "zone_ok a \<Longrightarrow> zone_ok (Unmap a)"
  by (cases a) (auto simp: zone_ok_def Unmap_def)

lemma resolveEndpoint_Inr:
  assumes "resolveEndpoint lookup host port = Inr (a, lit)"
  shows "ap_port a = port \<and> (if lit then \<exists>ip. ParseAddr host = Some ip \<and> a = AddrPort (Unmap ip) port
     else ParseAddr host = None \<and> (\<exists>ip ips. lookup host = Inr (ip # ips) \<and> a = AddrPort (Unmap ip) port))"
  using assms by (auto simp: resolveEndpoint_def split: option.splits sum.splits list.splits)

lemma client_checks_Inr:
  assumes "client_checks cfg = Inr (host, port, ip, dt)"
  shows "\<exists>p. SplitHostPort (cc_Endpoint cfg) = Some (host, p)" "port \<noteq> 0" "Unmap (cc_TunnelIP cfg) \<in> tunnel_hosts" "0 < dt"
proof -
  have sp: "splitEndpoint (cc_Endpoint cfg) = Inr (host, port)" and ti: "clientTunnelIP (cc_TunnelIP cfg) = Inr ip"
    and dt: "dt = (if cc_DialTimeout cfg = 0 then DefaultDialTimeout else cc_DialTimeout cfg)" "0 \<le> cc_DialTimeout cfg"
    using assms by (auto simp: client_checks_def andThen_eq_Inr split: option.splits if_splits)
  show "\<exists>p. SplitHostPort (cc_Endpoint cfg) = Some (host, p)"
    using sp by (auto simp: splitEndpoint_def split: if_splits option.splits)
  obtain n where n: "port = of_nat n" "0 < n" "n \<le> 65535"
    using sp by (auto simp: splitEndpoint_def parse_uint16_def split: if_splits option.splits)
  then show "port \<noteq> 0" by (auto simp: word_of_nat_eq_0_iff dest: dvd_imp_le)
  show "Unmap (cc_TunnelIP cfg) \<in> tunnel_hosts"
    using ti by (auto simp: clientTunnelIP_def Let_def tunnel_host_iff split: if_splits)
  show "0 < dt" using dt by (auto simp: DefaultDialTimeout_def second_def)
qed

subsection \<open>The device side\<close>

lemma SetPeerEndpoint_table:
  assumes "follows_uapi lib tbl" "SetPeerEndpoint lib d key a w = (None, w')" "wt_wf (tbl (the (td_dev d)) w)"
    and "zone_ok (ap_addr a)"
  obtains pub where "keyToHex key = Inr pub"
    "tbl (the (td_dev d)) w' = (tbl (the (td_dev d)) w)\<lparr>wt_peers := (wt_peers (tbl (the (td_dev d)) w))
        (pub := map_option (\<lambda>p. p\<lparr>wp_endpoint := AddrPort_String a\<rparr>) (wt_peers (tbl (the (td_dev d)) w) pub))\<rparr>"
proof -
  from assms(2) obtain pub where k: "keyToHex key = Inr pub"
    and i: "dev_ipc lib d ''gocloak: device: set peer endpoint: ''
        (uline ''public_key'' pub @ uline ''update_only'' ''true'' @ uline ''endpoint'' (AddrPort_String a)) w = (None, w')"
    by (auto simp: SetPeerEndpoint_def split: sum.splits if_splits)
  have "CHR 0x0A \<notin> set (AddrPort_String a)" using AddrPort_String_no_newline assms(4) by (cases a) simp
  then show thesis
    using that [OF k] follows_uapiD [OF assms(1) i] uapi_set_endpoint [OF keyToHex_hex_key [OF k] assms(3)] by simp
qed

lemma client_sync_move:
  assumes "client_sync tbl c w" "keyToHex (cl_serverPubKey c) = Inr pub"
    and "tbl (the (td_dev (cl_dev c))) w' = (tbl (the (td_dev (cl_dev c))) w)\<lparr>wt_peers := (wt_peers (tbl (the (td_dev (cl_dev c))) w))
        (pub := map_option (\<lambda>p. p\<lparr>wp_endpoint := AddrPort_String a\<rparr>) (wt_peers (tbl (the (td_dev (cl_dev c))) w) pub))\<rparr>"
  shows "client_sync tbl (c\<lparr>cl_endpoint := ep_applied a e\<rparr>) w'"
  using assms by (auto simp: client_sync_def ep_applied_def wt_wf_def)

lemma client_sync_same: "client_sync tbl c w \<Longrightarrow> client_sync tbl (c\<lparr>cl_endpoint := ep_applied (ep_addr (cl_endpoint c)) e\<rparr>) w"
  by (simp add: client_sync_def ep_applied_def)

lemma set_endpoint_sync:
  assumes "follows_uapi lib tbl" "client_sync tbl c w" "zone_ok (ap_addr a)" "set_endpoint lib a (c, w) = (None, w')"
  shows "client_sync tbl (c\<lparr>cl_endpoint := ep_applied a (cl_endpoint c)\<rparr>) w'"
proof (cases "a = ep_addr (cl_endpoint c)")
  case True
  then show ?thesis using assms(4) client_sync_same [OF assms(2), of "cl_endpoint c"] by (simp add: set_endpoint_def ep_current_def)
next
  case False
  have wf: "wt_wf (tbl (the (td_dev (cl_dev c))) w)" using assms(2) by (auto simp: client_sync_def)
  have st: "SetPeerEndpoint lib (cl_dev c) (cl_serverPubKey c) a w = (None, w')"
    using assms(4) False by (simp add: set_endpoint_def ep_current_def)
  show ?thesis
    by (rule SetPeerEndpoint_table [OF assms(1) st wf assms(3)]) (simp add: client_sync_move [OF assms(2)])
qed

subsection \<open>The retry loop\<close>

lemma refresh_time:
  assumes "refreshEndpoint lib env stop g t st = (e, st', t')" "timely env stop" "t \<le> stop"
  shows "t \<le> t'" "t' \<le> stop"
proof -
  let ?ts = "t + max 0 (de_slot env t)"
  have "t' = t \<or> t' = max t stop \<or> ?ts < stop \<and> (t' = ?ts \<or> t' = ?ts + max 0 (snd (de_lookup env ?ts (ep_host (cl_endpoint (fst st))))))"
    using assms(1)
    by (cases st) (auto simp: refreshEndpoint_def Let_def not_le split: if_splits sum.splits prod.splits option.splits)
  moreover have "?ts + max 0 (snd (de_lookup env ?ts h)) \<le> stop" if "?ts < stop" for h
    using that assms(2) by (simp add: timely_def)
  ultimately show "t \<le> t'" "t' \<le> stop" using assms(3) by auto
qed

lemma interval_pos: "0 < clientDialRetryInterval"
  by (simp add: clientDialRetryInterval_def millisecond_def)

definition dial_bounds :: "'w wglib \<Rightarrow> dialenv \<Rightarrow> time \<Rightarrow> 64 word \<Rightarrow> nat \<Rightarrow> time \<Rightarrow> conn result \<Rightarrow> time \<Rightarrow> bool" where
  "dial_bounds lib env stop g k u r t = (t \<le> stop
    \<and> (case r of
         Inr conn \<Rightarrow> \<exists>j v. fst (de_attempt env j v) = Inr conn \<and> u + (int j - int k) * clientDialRetryInterval \<le> v \<and> v \<le> stop
       | Inl e \<Rightarrow> errors_Is e ErrHandshakeTimeout \<or> errors_Is e CtxCanceled
           \<or> (\<exists>u s. fst (refreshEndpoint lib env stop g u s) = Some e)))"

lemma dial_bounds_later:
  assumes "dial_bounds lib env stop g (Suc k) v r t" "u + clientDialRetryInterval \<le> v"
  shows "dial_bounds lib env stop g k u r t"
proof -
  have "u + (int j - int k) * clientDialRetryInterval \<le> v + (int j - int (Suc k)) * clientDialRetryInterval" for j
    using assms(2) by (simp add: left_diff_distrib distrib_right)
  then have "v + (int j - int (Suc k)) * clientDialRetryInterval \<le> x \<Longrightarrow> u + (int j - int k) * clientDialRetryInterval \<le> x" for j x
    by (rule order_trans)
  then show ?thesis using assms(1) unfolding dial_bounds_def by (cases r) (simp_all, blast)
qed

lemma timeout_Is [simp]: "errors_Is (handshakeTimeoutError c d) ErrHandshakeTimeout"
  by (simp add: handshakeTimeoutError_def errHandshakeTimeout_def)

text \<open>The first attempt of a loop: it connects, it runs out of time, or the loop goes on later.\<close>

lemma dial_loop_cases:
  assumes "dial_loop lib env stop g k b u st = (r, st', t)" "timely env stop" "u \<le> stop"
  obtains (connects) conn where "fst (de_attempt env k u) = Inr conn" "r = Inr conn" "u \<le> t" "t \<le> stop"
  | (times_out) e where "r = Inl e" "errors_Is e ErrHandshakeTimeout \<or> errors_Is e CtxCanceled" "t = stop"
  | (refresh_fails) e u' where "r = Inl e" "fst (refreshEndpoint lib env stop g u' st) = Some e" "t \<le> stop"
  | (goes_on) t2 st2 where "u + clientDialRetryInterval \<le> t2" "t2 \<le> stop" "dial_loop lib env stop g (Suc k) True t2 st2 = (r, st', t)"
proof -
  obtain a el where a: "de_attempt env k u = (a, el)" by fastforce
  let ?t1 = "u + max 0 el" let ?t2 = "?t1 + clientDialRetryInterval"
  have t1: "?t1 \<le> stop" using assms(2,3) a by (metis snd_conv timely_def)
  show thesis
  proof (cases a)
    case (Inr conn)
    then have "r = Inr conn" "t = ?t1" using assms(1) a by (simp_all add: dial_loop.simps [of lib])
    then show thesis using connects t1 a Inr by simp
  next
    case (Inl e)
    show thesis
    proof (cases "stop \<le> ?t2")
      case True
      then have "t = max ?t1 stop" "\<exists>e. r = Inl e \<and> (errors_Is e ErrHandshakeTimeout \<or> errors_Is e CtxCanceled)"
        using assms(1) a Inl by (auto simp: dial_loop.simps [of lib] Let_def split: option.splits if_splits)
      then show thesis using times_out t1 by auto
    next
      case False
      obtain x st2 t3 where x: "refreshEndpoint lib env stop g ?t2 st = (x, st2, t3)" by (metis prod.collapse)
      have t3: "?t2 \<le> t3" "t3 \<le> stop" using refresh_time [OF x assms(2)] False by simp_all
      note l = assms(1) [unfolded dial_loop.simps [of lib env stop g k] a Inl]
      show thesis
        using l False x t3 goes_on [of ?t2 st] goes_on [of t3 st2] refresh_fails [of _ ?t2]
        by (auto simp: Let_def max_def split: if_splits option.splits)
    qed
  qed
qed

lemma dial_loop_bounds:
  "dial_loop lib env stop g k b u st = (r, st', t) \<Longrightarrow> timely env stop \<Longrightarrow> u \<le> stop \<Longrightarrow> dial_bounds lib env stop g k u r t"
proof (induction "nat (stop - u)" arbitrary: k b u st rule: less_induct)
  case less
  from less.prems show ?case
  proof (cases rule: dial_loop_cases)
    case (connects conn)
    then show ?thesis using less.prems(3) by (auto simp: dial_bounds_def intro!: exI [of _ k] exI [of _ u])
  next
    case (goes_on t2 st2)
    have "dial_bounds lib env stop g (Suc k) t2 r t"
      using goes_on interval_pos less.prems(2) by (intro less.hyps [OF _ goes_on(3)]) simp_all
    then show ?thesis by (rule dial_bounds_later [OF _ goes_on(1)])
  qed (auto simp: dial_bounds_def simp del: split_paired_All split_paired_Ex)
qed

subsection \<open>The exchange\<close>

lemma deadline_None:
  "SetReadDeadline t c = (None, c') \<Longrightarrow> \<not> conn.closed c \<and> rx c' = rx c \<and> tx c' = tx c \<and> \<not> conn.closed c'"
  "SetWriteDeadline t c = (None, c') \<Longrightarrow> \<not> conn.closed c \<and> rx c' = rx c \<and> tx c' = tx c \<and> \<not> conn.closed c'"
  "SetDeadline t c = (None, c') \<Longrightarrow> \<not> conn.closed c \<and> rx c' = rx c \<and> tx c' = tx c \<and> \<not> conn.closed c'
     \<and> rdeadline c' = t \<and> wdeadline c' = t"
  by (auto simp: SetReadDeadline_def SetWriteDeadline_def SetDeadline_def deadline_call_def split: if_splits list.splits option.splits)

lemma conn_write_None:
  "conn_write bs c = (None, c') \<Longrightarrow> rx c' = rx c \<and> tx c' = tx c @ bs \<and> conn.closed c' = conn.closed c"
  using conn_write_ok_tx [of bs c c'] conn_write_rx [of bs c] conn_write_closed [of bs c] by simp

lemma watchdog_same: "rx (watchdog env k c) = rx c" "tx (watchdog env k c) = tx c"
  by (simp_all add: watchdog_def conn_close_def)

lemma statusError_None: "statusError st service = None \<longleftrightarrow> st = statusOK"
  by (simp add: statusError_def)

lemma statusError_kinds:
  "statusError statusOK service = None"
  "statusError statusDenied service = Some (errorf_w [] errDenied ('': '' @ service))"
  "statusError statusBackendUnavailable service = Some (errorf_w [] errBackendUnavailable ('': '' @ service))"
  "statusError statusRateLimited service = Some (errorf_w [] errRateLimited ('': '' @ service))"
  "errors_Is errDenied k \<longleftrightarrow> k = ErrDenied" "errors_Is errBackendUnavailable k \<longleftrightarrow> k = ErrBackendUnavailable"
  "errors_Is errRateLimited k \<longleftrightarrow> k = ErrRateLimited"
  by (simp_all add: statusError_def status_defs errDenied_def errBackendUnavailable_def errRateLimited_def)

lemma hello_frame_reads:
  "ValidServiceName service \<Longrightarrow> \<not> conn.closed sc \<Longrightarrow> rx sc = hello_frame service @ rest \<Longrightarrow> fst (readHelloRequest sc) = Inr service"
  using hello_request.get_frame [of sc service rest] by simp

lemma hello_None:
  assumes "hello env c conn service = (None, conn')"
  shows "tx conn' = tx conn @ hello_frame service \<and> rx conn = [frameVersion, statusOK] @ rx conn'
    \<and> \<not> conn.closed conn' \<and> rdeadline conn' = None \<and> wdeadline conn' = None \<and> \<not> reached (he_done env) 5"
proof -
  obtain c1 c2 c3 c4 where s: "SetWriteDeadline (Some (helloDeadline (he_now env 0) (he_deadline env))) (watchdog env 0 conn) = (None, c1)"
      "conn_write (hello_frame service) (watchdog env 1 c1) = (None, c2)"
      "SetReadDeadline (Some (helloDeadline (he_now env 2) (he_deadline env))) (watchdog env 2 c2) = (None, c3)"
      "readHelloResponse (watchdog env 3 c3) = (Inr statusOK, c4)" "SetDeadline None c4 = (None, conn')" "\<not> reached (he_done env) 5"
    using assms
    by (auto simp: hello_def finishHello_def writeHelloRequest_def statusError_None
        split: prod.splits option.splits sum.splits if_splits)
  have r: "rx c3 = [frameVersion, statusOK] @ rx c4" "c4 = (watchdog env 3 c3)\<lparr>rx := rx c4\<rparr>"
    using s(4) by (auto simp: readHelloResponse_Inr watchdog_same)
  have "tx c4 = tx ((watchdog env 3 c3)\<lparr>rx := rx c4\<rparr>)" by (rule arg_cong [OF r(2)])
  then have "rx c3 = [frameVersion, statusOK] @ rx c4 \<and> tx c4 = tx c3" by (simp add: watchdog_same r(1))
  then show ?thesis
    using deadline_None(2) [OF s(1)] conn_write_None [OF s(2)] deadline_None(1) [OF s(3)] deadline_None(3) [OF s(5)] s(6)
    by (simp add: watchdog_same)
qed

lemma hello_sound:
  assumes "sound_conn cc" "ValidServiceName service" "he_done env = None" "\<not> waiting (rxend cc) \<or> 2 \<le> length (rx cc)"
  shows "fst (hello env c cc service) = (case fst (readHelloResponse cc) of
      Inl err \<Rightarrow> Some (helloError env 3 c err) | Inr st \<Rightarrow> statusError st service)"
proof -
  have w: "watchdog env k x = x" for k x using assms(3) by (simp add: watchdog_def reached_def)
  have r: "reached (he_done env) k = False" for k using assms(3) by (simp add: reached_def)
  let ?c = "cc\<lparr>wdeadline := Some (helloDeadline (he_now env 0) (he_deadline env)), tx := tx cc @ hello_frame service,
      rdeadline := Some (helloDeadline (he_now env 2) (he_deadline env))\<rparr>"
  have f: "fst (readHelloResponse ?c) = fst (readHelloResponse cc)"
    using assms(4) by (auto simp: readHelloResponse_def read_full_def)
  obtain x c4 where x: "readHelloResponse ?c = (x, c4)" by fastforce
  have s4: "sound_conn c4 \<or> (\<exists>e. x = Inl e)"
    using x assms(1) by (auto simp: readHelloResponse_def read_full_def sound_conn_def split: if_splits)
  have "hello env c cc service = (case x of Inl err \<Rightarrow> (Some (helloError env 3 c err), c4)
      | Inr st \<Rightarrow> (case statusError st service of Some err \<Rightarrow> (Some err, c4) | None \<Rightarrow> finishHello env c c4))"
    using assms(1,2) x by (simp add: hello_def w deadline_sound writeHelloRequest_def conn_write_def sound_conn_def
        SetWriteDeadline_def SetReadDeadline_def deadline_call_def split: sum.splits option.splits)
  moreover have "fst (finishHello env c c4) = None" if "sound_conn c4"
    using that by (simp add: finishHello_def r deadline_sound)
  ultimately show ?thesis
    using f x s4 by (auto split: sum.splits option.splits)
qed

lemma readHelloResponse_verdict:
  "sound_conn cc \<Longrightarrow> rx cc = [frameVersion, st] \<Longrightarrow> validStatus st \<Longrightarrow> fst (readHelloResponse cc) = Inr st"
  "sound_conn cc \<Longrightarrow> rx cc = [] \<Longrightarrow> \<not> waiting (rxend cc) \<Longrightarrow> \<exists>pre. fst (readHelloResponse cc) = Inl (errorf_w pre (rxend cc) [])"
  using hello_response.get_frame [of cc st "[]"] by (simp_all add: sound_conn_def readHelloResponse_def read_full_def) auto

text \<open>
  The exchange always returns, whatever the server does with the connection: each of its reads and
  writes is made under a deadline. (\<open>he_err\<close> is the error of the context, which no call waits for.)
\<close>

lemma hello_frame_write_returns:
  "wdeadline c \<noteq> None \<Longrightarrow> writeHelloRequest service c = (Some e, c') \<Longrightarrow> \<not> waiting e"
  by (cases "conn_write (hello_frame service) c")
    (auto simp: writeHelloRequest_def errInvalidServiceName_def waiting_def [of "GoError _ _"] dest: deadline_write
      split: if_splits option.splits)

lemma deadline_None_sets:
  "SetWriteDeadline (Some t) c = (None, c') \<Longrightarrow> wdeadline c' \<noteq> None"
  "SetReadDeadline (Some t) c = (None, c') \<Longrightarrow> rdeadline c' \<noteq> None"
  by (auto simp: SetWriteDeadline_def SetReadDeadline_def deadline_call_def split: if_splits list.splits option.splits)

lemma deadline_Some_returns:
  "SetWriteDeadline t c = (Some e, c') \<Longrightarrow> \<not> waiting e"
  "SetReadDeadline t c = (Some e, c') \<Longrightarrow> \<not> waiting e"
  "SetDeadline t c = (Some e, c') \<Longrightarrow> \<not> waiting e"
  by (auto simp: SetWriteDeadline_def SetReadDeadline_def SetDeadline_def deadline_call_def split: if_splits list.splits option.splits)

lemma response_read_returns: "rdeadline c \<noteq> None \<Longrightarrow> readHelloResponse c = (Inl e, c') \<Longrightarrow> \<not> waiting e"
  by (auto simp: readHelloResponse_def split: prod.splits sum.splits if_splits dest: deadline_read)

lemma exchange_returns:
  assumes "hello env c conn service = (Some e, conn')" "\<not> waiting (he_err env)"
  shows "\<not> waiting e"
proof -
  have w: "wdeadline (watchdog env k x) = wdeadline x" "rdeadline (watchdog env k x) = rdeadline x" for k x
    by (simp_all add: watchdog_def conn_close_def)
  have he: "waiting (helloError env k c x) = (waiting (if reached (he_done env) k then he_err env else x))" for k x
    by (simp add: helloError_def)
  have st: "statusError st service = Some x \<Longrightarrow> \<not> waiting x" for st x
    by (auto simp: statusError_def errDenied_def errBackendUnavailable_def errRateLimited_def errMalformedRequest_def waiting_def
        split: if_splits)
  have fin: "finishHello env c x = (Some y, x') \<Longrightarrow> \<not> waiting y" for x y x'
    using assms(2) by (auto simp: finishHello_def he dest: deadline_Some_returns split: if_splits prod.splits option.splits)
  have wr: "SetWriteDeadline (Some t) x = (None, x1) \<Longrightarrow> writeHelloRequest service (watchdog env k x1) = (Some y, x2) \<Longrightarrow> \<not> waiting y"
    for t x x1 k y x2
    using hello_frame_write_returns deadline_None_sets(1) w(1) by metis
  have rd: "SetReadDeadline (Some t) x = (None, x1) \<Longrightarrow> readHelloResponse (watchdog env k x1) = (Inl y, x2) \<Longrightarrow> \<not> waiting y"
    for t x x1 k y x2
    using response_read_returns deadline_None_sets(2) w(2) by metis
  show ?thesis
    using assms
    by (auto simp: hello_def he dest: deadline_Some_returns wr rd st fin split: prod.splits option.splits sum.splits if_splits)
qed

section \<open>Properties\<close>

text \<open>
  The endpoint stays in step with the device and is looked up once. A re-resolution that
  reports no error leaves the device's peer at exactly the address the client then holds. It does
  nothing for a literal address, when its budget ended while it waited, and when another dial has
  resolved the name since this one started; otherwise it takes the first address the name has
  now, and advances the generation, so that every other dial that started before it does nothing.
\<close>

theorem endpoint_in_step:
  assumes "follows_uapi lib tbl" "client_sync tbl c w" "names_ok (\<lambda>h. fst (de_lookup env ts h))"
    and "\<not> ep_literal (cl_endpoint c) \<Longrightarrow> ParseAddr (ep_host (cl_endpoint c)) = None"
    and "refreshEndpoint lib env stop generation t (c, w) = (None, (c', w'), t')"
    and ts_def: "ts = t + max 0 (de_slot env t)"
  shows "client_sync tbl c' w'
    \<and> (if ep_literal (cl_endpoint c) \<or> stop \<le> ts \<or> ep_generation (cl_endpoint c) \<noteq> generation
       then c' = c \<and> w' = w
       else ep_generation (cl_endpoint c') = generation + 1
         \<and> (\<exists>ip ips. fst (de_lookup env ts (ep_host (cl_endpoint c))) = Inr (ip # ips)
              \<and> ep_addr (cl_endpoint c') = AddrPort (Unmap ip) (ep_port (cl_endpoint c)))
         \<and> fst (refreshEndpoint lib env2 stop2 generation t2 (c', w')) = None
         \<and> fst (snd (refreshEndpoint lib env2 stop2 generation t2 (c', w'))) = (c', w'))"
proof (cases "ep_literal (cl_endpoint c) \<or> stop \<le> ts \<or> ep_generation (cl_endpoint c) \<noteq> generation")
  case True
  then have "c' = c" "w' = w"
    using assms(5) unfolding ts_def by (auto simp: refreshEndpoint_def Let_def ep_current_def split: if_splits)
  then show ?thesis using True assms(2) by simp
next
  case False
  let ?e = "cl_endpoint c"
  obtain a lit where r: "resolveEndpoint (\<lambda>h. fst (de_lookup env ts h)) (ep_host ?e) (ep_port ?e) = Inr (a, lit)"
    using assms(5) False unfolding ts_def by (auto simp: refreshEndpoint_def Let_def ep_current_def split: sum.splits)
  from resolveEndpoint_Inr [OF r] obtain ip ips where
      ip: "fst (de_lookup env ts (ep_host ?e)) = Inr (ip # ips)" "a = AddrPort (Unmap ip) (ep_port ?e)"
    using assms(4) False by (auto split: if_splits)
  have z: "zone_ok (ap_addr a)" using assms(3) ip zone_ok_Unmap unfolding names_ok_def by fastforce
  have c': "c' = c\<lparr>cl_endpoint := ep_applied a ?e\<rparr>"
    and s: "set_endpoint lib a (c, w) = (None, w')"
    using assms(5) False r unfolding ts_def
    by (auto simp: refreshEndpoint_def Let_def ep_current_def split: prod.splits option.splits if_splits)
  have "client_sync tbl c' w'" unfolding c' by (rule set_endpoint_sync [OF assms(1,2) z s])
  moreover have "ep_generation (cl_endpoint c') = generation + 1" "ep_generation (cl_endpoint c') \<noteq> generation"
    using False by (simp_all add: c' ep_applied_def)
  moreover have "ep_addr (cl_endpoint c') = a" by (simp add: c' ep_applied_def)
  ultimately show ?thesis
    using False ip by (auto simp: refreshEndpoint_def Let_def ep_current_def)
qed

definition example_client :: "addrport \<Rightarrow> Client" where
  "example_client a = \<lparr>cl_endpoint = \<lparr>ep_configured = ''h:7'', ep_host = ''h'', ep_port = 7, ep_literal = False, ep_addr = a,
       ep_generation = 0\<rparr>,
     cl_serverPubKey = example_key, cl_serverAddr = AddrPort serverTunnelIP tunnelServicePort, cl_dialTimeout = 10 * second,
     cl_dev = ref_dev, cl_closed = False, cl_closeOnce = False, cl_closeErr = None\<rparr>"

definition example_pinned :: "addrport \<Rightarrow> wg_table" where
  "example_pinned a = \<lparr>wt_peers = [example_hex \<mapsto> \<lparr>wp_psk = [], wp_endpoint = AddrPort_String a, wp_keepalive = ''25''\<rparr>],
     wt_routes = [allowed_text serverTunnelIP \<mapsto> example_hex]\<rparr>"

lemma example_client_sync: "client_sync (\<lambda>_ w. w) (example_client a) (example_pinned a)"
  by (auto simp: client_sync_def example_client_def example_pinned_def example_keyToHex wt_wf_def)

definition example_dialenv :: dialenv where
  "example_dialenv = \<lparr>de_start = 0, de_deadline = None, de_cancel = None,
     de_attempt = (\<lambda>k _. (if k = 0 then Inl io_EOF else Inr (fresh_conn [1, 0, 9]), 0)), de_slot = (\<lambda>_. 0),
     de_lookup = (\<lambda>_ _. (Inr [Addr4 5], 0))\<rparr>"

lemma example_refresh:
  assumes "t < stop"
  shows "\<exists>c' w'. refreshEndpoint ref_lib example_dialenv stop 0 t (example_client (AddrPort (Addr4 4) 7), example_pinned (AddrPort (Addr4 4) 7))
     = (None, (c', w'), t) \<and> c' = (example_client (AddrPort (Addr4 4) 7))\<lparr>cl_endpoint :=
         ep_applied (AddrPort (Addr4 5) 7) (cl_endpoint (example_client (AddrPort (Addr4 4) 7)))\<rparr>"
proof -
  have "ParseAddr ''h'' = None" by code_simp
  then show ?thesis using assms
    by (auto simp: refreshEndpoint_def example_client_def example_dialenv_def Let_def ep_current_def resolveEndpoint_def
        set_endpoint_def SetPeerEndpoint_def example_keyToHex ap_IsValid_def dev_ipc_def ref_lib_def)
qed

theorem endpoint_in_step_witness:
  "\<exists>c' w'. refreshEndpoint ref_lib example_dialenv second 0 0 (example_client (AddrPort (Addr4 4) 7), example_pinned (AddrPort (Addr4 4) 7))
     = (None, (c', w'), 0) \<and> ep_addr (cl_endpoint c') = AddrPort (Addr4 5) 7 \<and> client_sync (\<lambda>_ w. w) c' w'"
proof -
  obtain c' w' where r: "refreshEndpoint ref_lib example_dialenv second 0 0
      (example_client (AddrPort (Addr4 4) 7), example_pinned (AddrPort (Addr4 4) 7)) = (None, (c', w'), 0)"
    using example_refresh [of 0 second] by (auto simp: second_def)
  have n: "names_ok (\<lambda>h. fst (de_lookup example_dialenv t h))" for t by (simp add: names_ok_def example_dialenv_def zone_ok_def)
  have h: "ParseAddr (ep_host (cl_endpoint (example_client a))) = None" for a
    by (simp add: example_client_def) code_simp
  show ?thesis
    using endpoint_in_step [OF ref_follows example_client_sync n h r refl] r
    by (auto simp: example_client_def example_dialenv_def second_def)
qed

text \<open>
  Claim C23. A dial ends within its budget. The loop is total; when attempts and lookups respect the
  contexts they are given, it returns before the sooner of the caller's deadline, the dial timeout
  and the cancellation; a connection it returns is that of an attempt it made, after a quarter of a
  second at least between attempts; and an error is the handshake timeout, the caller's own
  cancellation, or the failure of the one re-resolution.
\<close>

theorem dial_within_budget:
  assumes "timely env (budget_end env c)" "de_start env \<le> budget_end env c" "dialControl lib env (c, w) = (r, st', t)"
  shows "t \<le> budget_end env c
    \<and> (case r of
         Inr conn \<Rightarrow> \<exists>k u. fst (de_attempt env k u) = Inr conn \<and> de_start env + int k * clientDialRetryInterval \<le> u
           \<and> u \<le> budget_end env c
       | Inl e \<Rightarrow> errors_Is e ErrHandshakeTimeout \<or> errors_Is e CtxCanceled
           \<or> (\<exists>u s. fst (refreshEndpoint lib env (budget_end env c) (ep_generation (cl_endpoint c)) u s) = Some e))"
proof -
  have "dial_loop lib env (budget_end env c) (ep_generation (cl_endpoint c)) 0 False (de_start env) (c, w) = (r, st', t)"
    using assms(3) by (simp add: dialControl_def ep_current_def)
  from dial_loop_bounds [OF this assms(1,2)] show ?thesis by (auto simp: dial_bounds_def split: sum.splits)
qed

lemma example_timely: "timely example_dialenv stop"
  by (simp add: timely_def example_dialenv_def)

theorem dial_within_budget_witness:
  "\<exists>r st' t. dialControl ref_lib example_dialenv (example_client (AddrPort (Addr4 4) 7), example_pinned (AddrPort (Addr4 4) 7))
     = (r, st', t) \<and> t \<le> 10 * second"
proof -
  let ?c = "example_client (AddrPort (Addr4 4) 7)" and ?w = "example_pinned (AddrPort (Addr4 4) 7)"
  obtain r st' t where d: "dialControl ref_lib example_dialenv (?c, ?w) = (r, st', t)" by (metis prod.collapse)
  have b: "budget_end example_dialenv ?c = 10 * second"
    by (simp add: budget_end_def budget_deadline_def example_dialenv_def example_client_def)
  have "de_start example_dialenv \<le> budget_end example_dialenv ?c"
    unfolding b by (simp add: example_dialenv_def second_def)
  then show ?thesis using dial_within_budget [OF example_timely _ d] d b by auto
qed

text \<open>
  Claim C22. A dial that succeeds hands out exactly a pipe. The service name was valid and the
  client open; the connection carries the one request frame of that service, the acceptance of the
  server has been taken off it and nothing after it, it is open, it has no deadline left, and the
  context was not done when the watchdog was stopped, so nothing is about to close it. A dial that
  fails leaves every connection it opened closed.
\<close>

theorem dial_hands_out_a_pipe:
  assumes "Dial lib env henv service st = (r, opened, st')"
  shows "case r of
      Inr conn \<Rightarrow> ValidServiceName service \<and> \<not> cl_closed (fst st) \<and> opened = Some conn
        \<and> (\<exists>c0 t rest. dialControl lib env st = (Inr c0, st', t) \<and> tx conn = tx c0 @ hello_frame service
             \<and> rx c0 = [frameVersion, statusOK] @ rest \<and> rx conn = rest
             \<and> \<not> conn.closed conn \<and> rdeadline conn = None \<and> wdeadline conn = None \<and> \<not> reached (he_done (henv t)) 5)
    | Inl err \<Rightarrow> (case opened of None \<Rightarrow> True | Some c \<Rightarrow> conn.closed c)"
proof (cases r)
  case (Inl err)
  then show ?thesis
    using assms by (auto simp: Dial_def split: if_splits prod.splits sum.splits option.splits)
next
  case (Inr conn)
  then obtain c0 t where d: "ValidServiceName service" "\<not> cl_closed (fst st)" "opened = Some conn"
      "dialControl lib env st = (Inr c0, st', t)" "hello (henv t) (fst st') c0 service = (None, conn)"
    using assms by (auto simp: Dial_def split: if_splits prod.splits sum.splits option.splits)
  then show ?thesis using Inr hello_None [OF d(5)] by auto
qed

definition quiet_hello :: helloenv where
  "quiet_hello = \<lparr>he_now = (\<lambda>_. 0), he_deadline = None, he_done = None, he_err = context_Canceled, he_close = None\<rparr>"

lemma example_dial:
  "\<exists>conn st'. Dial ref_lib (example_dialenv\<lparr>de_attempt := \<lambda>_ _. (Inr (fresh_conn [1, 0, 9]), 0)\<rparr>) (\<lambda>_. quiet_hello) ''db''
     (example_client a, w) = (Inr conn, Some conn, st')"
  using example_names(3)
  by (simp add: Dial_def example_client_def dialControl_def dial_loop.simps hello_def quiet_hello_def watchdog_def reached_def
      SetWriteDeadline_def SetReadDeadline_def SetDeadline_def deadline_call_def writeHelloRequest_def conn_write_def
      readHelloResponse_def read_full_def frameVersion_def validStatus_def statusOK_def statusError_def finishHello_def example_dialenv_def)

theorem dial_hands_out_a_pipe_witness:
  "\<exists>conn st'. Dial ref_lib (example_dialenv\<lparr>de_attempt := \<lambda>_ _. (Inr (fresh_conn [1, 0, 9]), 0)\<rparr>) (\<lambda>_. quiet_hello) ''db''
     (example_client (AddrPort (Addr4 4) 7), empty_table) = (Inr conn, Some conn, st') \<and> \<not> conn.closed conn \<and> rdeadline conn = None"
proof -
  obtain conn st' where d: "Dial ref_lib (example_dialenv\<lparr>de_attempt := \<lambda>_ _. (Inr (fresh_conn [1, 0, 9]), 0)\<rparr>) (\<lambda>_. quiet_hello) ''db''
     (example_client (AddrPort (Addr4 4) 7), empty_table) = (Inr conn, Some conn, st')"
    using example_dial by blast
  from dial_hands_out_a_pipe [OF d] show ?thesis using d by (intro exI [of _ conn] exI [of _ st']) auto
qed

text \<open>What the client makes of the server's answer.\<close>

lemma hello_of_verdict:
  assumes "ValidServiceName service" "sound_conn cc" "rxend cc = io_EOF" "he_done env = None" "rx cc = verdict_bytes v"
  shows "v = Silent \<Longrightarrow> \<exists>e. fst (hello env c cc service) = Some e \<and> echain e = [IoEOF]"
    and "v = Reply st \<Longrightarrow> validStatus st \<Longrightarrow> fst (hello env c cc service) = statusError st service"
proof -
  have q: "\<not> waiting (rxend cc)" using assms(3) by simp
  note h = hello_sound [OF assms(2,1,4) disjI1 [OF q], of c]
  show "v = Silent \<Longrightarrow> \<exists>e. fst (hello env c cc service) = Some e \<and> echain e = [IoEOF]"
    using h readHelloResponse_verdict(2) [OF assms(2) _ q] assms(3-5)
    by (auto simp: verdict_bytes_def helloError_def reached_def errorf_w_def io_EOF_def)
  show "v = Reply st \<Longrightarrow> validStatus st \<Longrightarrow> fst (hello env c cc service) = statusError st service"
    using h readHelloResponse_verdict(1) [OF assms(2)] assms(5) by (simp add: verdict_bytes_def)
qed

text \<open>What the client makes of the server's decision, outcome by outcome.\<close>

lemma verdict_agrees:
  fixes s :: Server and c :: Client
  assumes "ValidServiceName service" "sound_conn cc" "rxend cc = io_EOF" "he_done env = None"
    and "rx cc = verdict_bytes (decide s remote now (Inr service) answers)"
    and admits_def: "\<And>ip. admits ip = (case limiterFor s ip of None \<Rightarrow> None | Some l \<Rightarrow> Some (snd (fst (acquire now (sv_heap s l)))))"
    and reports_def: "\<And>k. reports k \<longleftrightarrow> (\<exists>e. fst (hello env c cc service) = Some e \<and> errors_Is e k)"
  shows "(fst (hello env c cc service) = None \<longleftrightarrow> (\<exists>ip b. remoteTunnelIP remote = Some ip \<and> admits ip = Some True
        \<and> Resolve (h_policy s) ip service = Some b \<and> answers b))
    \<and> (reports ErrDenied \<longleftrightarrow> (\<exists>ip. remoteTunnelIP remote = Some ip \<and> admits ip = Some True
        \<and> Resolve (h_policy s) ip service = None))
    \<and> (reports ErrBackendUnavailable \<longleftrightarrow> (\<exists>ip b. remoteTunnelIP remote = Some ip \<and> admits ip = Some True
        \<and> Resolve (h_policy s) ip service = Some b \<and> \<not> answers b))
    \<and> (reports ErrRateLimited \<longleftrightarrow> (\<exists>ip. remoteTunnelIP remote = Some ip \<and> admits ip = Some False))
    \<and> \<not> reports ErrMalformedRequest"
proof -
  note h = hello_of_verdict [OF assms(1-5), where c = c]
  note sil = h(1) and rep = h(2)
  show ?thesis
  proof (cases "remoteTunnelIP remote")
    case None
    then obtain e where "fst (hello env c cc service) = Some e" "echain e = [IoEOF]" using sil by (auto simp: decide_def)
    then show ?thesis using None by (auto simp: reports_def errors_Is_def)
  next
    case ip: (Some ip)
    show ?thesis
    proof (cases "limiterFor s ip")
      case None
      then obtain e where "fst (hello env c cc service) = Some e" "echain e = [IoEOF]" using sil ip by (auto simp: decide_def)
      then show ?thesis using None ip by (auto simp: reports_def errors_Is_def admits_def)
    next
      case l: (Some l)
      show ?thesis
      proof (cases "snd (fst (acquire now (sv_heap s l)))")
        case False
        then have "fst (hello env c cc service) = statusError statusRateLimited service"
          using ip l by (intro rep) (simp_all add: decide_def)
        then show ?thesis using ip l False by (simp add: reports_def admits_def statusError_kinds)
      next
        case True
        then have d: "decide s remote now (Inr service) answers = (case Resolve (h_policy s) ip service of
            None \<Rightarrow> Reply statusDenied | Some b \<Rightarrow> if answers b then Reply statusOK else Reply statusBackendUnavailable)"
          using ip l by (simp add: decide_def)
        show ?thesis
          using ip l True d rep [of statusDenied] rep [of statusOK] rep [of statusBackendUnavailable]
          by (cases "Resolve (h_policy s) ip service") (auto simp: reports_def admits_def statusError_kinds split: if_splits)
      qed
    qed
  qed
qed

text \<open>
  Claim C2. Both ends agree, end to end. Let the server's handler run on a connection over which
  the client's request arrives and let its reply travel back. The client's exchange succeeds exactly when
  the peer has an entry, its limits admit it, the policy grants the service to its address and the
  backend answers; it reports \<^verbatim>\<open>ErrDenied\<close> exactly when the policy does not grant it,
  \<^verbatim>\<open>ErrBackendUnavailable\<close> exactly when the granted backend did not answer, and
  \<^verbatim>\<open>ErrRateLimited\<close> exactly when the limits refused; and it never sees \<^verbatim>\<open>ErrMalformedRequest\<close>.
\<close>

theorem client_and_server_agree:
  fixes s :: Server and c :: Client
  assumes "ValidServiceName service" "sound_conn sc" "tx sc = []" "rx sc = hello_frame service @ rest"
    and "sound_conn cc" "rx cc = tx (h_conn (snd (handleConn [x1, x2, x3, x4, x5, x6, x7, x8, x9] (s, new_handler i remote sc))))"
    and "rxend cc = io_EOF" "he_done env = None"
  defines "admits \<equiv> \<lambda>ip. case limiterFor s ip of None \<Rightarrow> None | Some l \<Rightarrow> Some (snd (fst (acquire (in_now x3) (sv_heap s l))))"
    and "answers \<equiv> \<lambda>b. isOk (in_dial x6 (Some (in_now x6 + backendDialTimeout)) (AddrPort_String b))"
    and "reports \<equiv> \<lambda>k. \<exists>e. fst (hello env c cc service) = Some e \<and> errors_Is e k"
  shows "(fst (hello env c cc service) = None \<longleftrightarrow> (\<exists>ip b. remoteTunnelIP remote = Some ip \<and> admits ip = Some True
        \<and> Resolve (h_policy s) ip service = Some b \<and> answers b))
    \<and> (reports ErrDenied \<longleftrightarrow> (\<exists>ip. remoteTunnelIP remote = Some ip \<and> admits ip = Some True
        \<and> Resolve (h_policy s) ip service = None))
    \<and> (reports ErrBackendUnavailable \<longleftrightarrow> (\<exists>ip b. remoteTunnelIP remote = Some ip \<and> admits ip = Some True
        \<and> Resolve (h_policy s) ip service = Some b \<and> \<not> answers b))
    \<and> (reports ErrRateLimited \<longleftrightarrow> (\<exists>ip. remoteTunnelIP remote = Some ip \<and> admits ip = Some False))
    \<and> \<not> reports ErrMalformedRequest"
proof -
  have "fst (readHelloRequest (sc\<lparr>rdeadline := Some (in_now x4 + helloReadDeadline)\<rparr>)) = Inr service"
    using assms(1-4) hello_frame_reads [of service "sc\<lparr>rdeadline := Some (in_now x4 + helloReadDeadline)\<rparr>" rest]
    by (simp add: sound_conn_def)
  then have rx: "rx cc = verdict_bytes (decide s remote (in_now x3) (Inr service) answers)"
    using handler_run [of sc x1 x2 x3 x4 x5 x6 x7 x8 x9 s i remote] assms(2,3,6) by (simp add: sound_conn_def answers_def)
  show ?thesis
    by (rule verdict_agrees [OF assms(1,5,7,8) rx]) (simp_all add: admits_def reports_def)
qed

theorem client_and_server_agree_witness:
  "fst (hello quiet_hello (example_client (AddrPort (Addr4 4) 7)) (fresh_conn [0x01, 0x00]) ''db'') = None"
proof -
  let ?sc = "fresh_conn [1, 2, 100, 98]" and ?r = "Some (TCPAddr [10, 99, 0, 7])" and ?x = example_input
  have f: "hello_frame ''db'' = [1, 2, 100, 98]" by code_simp
  have s: "sound_conn (fresh_conn bs)" for bs by (simp add: sound_conn_def)
  have l: "limiterFor example_granting (Addr4 0x0A630007) = Some 0"
    by (simp add: limiterFor_def example_granting_def example_server_def)
  obtain p where p: "acquire 0 (sv_heap example_granting 0) = (([], True), p)"
    using example_acquire [of 0] by (auto simp: example_granting_def)
  have g: "Resolve (h_policy example_granting) (Addr4 0x0A630007) ''db'' = Some (AddrPort (Addr4 0xC000020A) 22)"
    by (simp add: Resolve_def h_policy_def pw_policy_def example_granting_def)
  have n: "in_now ?x = 0" "\<And>b. isOk (in_dial ?x (Some (0 + backendDialTimeout)) (AddrPort_String b))"
    by (simp_all add: example_input_def isOk_def)
  have "decide example_granting ?r 0 (fst (readHelloRequest (?sc\<lparr>rdeadline := Some (0 + helloReadDeadline)\<rparr>)))
      (\<lambda>b. isOk (in_dial ?x (Some (0 + backendDialTimeout)) (AddrPort_String b))) = Reply statusOK"
    using n(2) unfolding decide_def by (simp add: example_remote l p example_hello [simplified] g)
  then have "rx (fresh_conn [0x01, 0x00]) = tx (h_conn (snd (handleConn [?x, ?x, ?x, ?x, ?x, ?x, ?x, ?x, ?x]
      (example_granting, new_handler 0 ?r ?sc))))"
    using handler_run [of ?sc ?x ?x ?x ?x ?x ?x ?x ?x ?x example_granting 0 ?r] n(1)
    by (simp add: verdict_bytes_def frameVersion_def statusOK_def)
  from client_and_server_agree [OF example_names(3) s _ _ s this, of "[]" quiet_hello "example_client (AddrPort (Addr4 4) 7)"]
  show ?thesis
    using n f by (simp add: quiet_hello_def example_remote l p g)
qed

text \<open>
  The client refuses exactly the addresses the server refuses: an address is accepted
  for a client if and only if its text is accepted for a peer in the server's file, and both keep
  the same IPv4 form.
\<close>

theorem tunnel_addresses_agree:
  assumes "ParseAddr s = Some x"
  shows "clientTunnelIP x = Inr a \<longleftrightarrow> validateTunnelAddr name s = Inr a"
proof -
  have "clientTunnelIP x = Inr a \<longleftrightarrow> Unmap x = a \<and> a \<in> tunnel_hosts"
  proof -
    have "Unmap x \<in> tunnel_hosts \<Longrightarrow> IsValid x" using tunnel_hosts_valid IsValid_Unmap by blast
    then show ?thesis by (auto simp: clientTunnelIP_def Let_def tunnel_host_iff)
  qed
  then show ?thesis using assms by (auto simp: validateTunnelAddr_iff)
qed

theorem tunnel_addresses_agree_witness:
  "clientTunnelIP (Addr4 0x0A630007) = Inr (Addr4 0x0A630007)"
  using tunnel_addresses_agree [OF example_addrs(1)] example_host(1) by simp

text \<open>
  Claim C25. Construction is all or nothing and pins one server. A client that was built holds a
  device whose only peer is the configured key, whose only route is the server's tunnel address,
  and whose endpoint is the address the client holds; its tunnel address is a host address and its
  dial timeout is positive. A construction that fails before the device exists has touched nothing,
  and one that fails later has closed the device. The hypotheses say that a new device has no peers
  and that the endpoint's zone, when it has one, is one line of text.
\<close>

theorem new_client_pins_server:
  assumes "follows_uapi lib tbl"
    and "\<And>opts w d w'. newTunnelDevice lib opts w = (Inr d, w') \<Longrightarrow> tbl (the (td_dev d)) w' = empty_table"
    and "names_ok lookup" "\<And>h p ip. SplitHostPort (cc_Endpoint cfg) = Some (h, p) \<Longrightarrow> ParseAddr h = Some ip \<Longrightarrow> zone_ok ip"
    and "newClient lib osw lookup cfg w = (r, w')"
  shows "case r of
      Inr c \<Rightarrow> client_sync tbl c w' \<and> \<not> cl_closed c \<and> 0 < cl_dialTimeout c \<and> ep_generation (cl_endpoint c) = 0
        \<and> Unmap (cc_TunnelIP cfg) \<in> tunnel_hosts
    | Inl e \<Rightarrow> w' = w \<or> (\<exists>opts. newTunnelDevice lib opts w = (Inl e, w'))
        \<or> (\<exists>opts d w1 p w2. newTunnelDevice lib opts w = (Inr d, w1) \<and> AddPeer lib d p w1 = (Some e, w2)
             \<and> w' = snd (snd (dev_Close lib d w2)))"
proof (cases r)
  case (Inl e)
  show ?thesis
    using assms(5) unfolding Inl sum.case
    by (auto simp: newClient_def split: sum.splits prod.splits option.splits, blast)
next
  case (Inr c)
  from assms(5) [unfolded Inr] obtain host port ip dt ep lit psk opts d w1 where
      n: "client_checks cfg = Inr (host, port, ip, dt)" "resolveEndpoint lookup host port = Inr (ep, lit)"
        "newTunnelDevice lib opts w = (Inr d, w1)"
        "AddPeer lib d \<lparr>dp_PublicKey = cc_ServerPubKey cfg, dp_PresharedKey = psk, dp_AllowedIP = serverTunnelIP,
           dp_Endpoint = ep\<rparr> w1 = (None, w')"
      and c: "cl_serverPubKey c = cc_ServerPubKey cfg" "cl_dev c = d" "ep_addr (cl_endpoint c) = ep" "\<not> cl_closed c"
        "cl_dialTimeout c = dt" "ep_generation (cl_endpoint c) = 0"
    by (auto simp: newClient_def split: sum.splits prod.splits option.splits)
  note ck = client_checks_Inr [OF n(1)]
  have z: "zone_ok (ap_addr ep)" "ep \<noteq> addrport_zero"
  proof -
    obtain p where sp: "SplitHostPort (cc_Endpoint cfg) = Some (host, p)" using ck(1) by blast
    have l: "lookup host = Inr (a # as) \<Longrightarrow> zone_ok a" for a as
      using assms(3) unfolding names_ok_def by fastforce
    show "zone_ok (ap_addr ep)"
      using resolveEndpoint_Inr [OF n(2)] assms(4) [OF sp] l by (metis addrport.sel(1) zone_ok_Unmap)
    show "ep \<noteq> addrport_zero"
      using resolveEndpoint_Inr [OF n(2)] ck(2) by (auto simp: addrport_zero_def)
  qed
  let ?p = "\<lparr>dp_PublicKey = cc_ServerPubKey cfg, dp_PresharedKey = psk, dp_AllowedIP = serverTunnelIP, dp_Endpoint = ep\<rparr>"
  have pe: "peer_endpoint ?p = Some (AddrPort_String ep)" using z(2) by (simp add: peer_endpoint_def)
  have ol: "one_line (peer_endpoint ?p)"
    using AddrPort_String_no_newline [OF z(1), of "ap_port ep"] by (simp add: pe one_line_def)
  have t: "tbl (the (td_dev d)) w1 = empty_table" by (rule assms(2) [OF n(3)])
  have ap: "applyPeer lib d ?p False w1 = (None, w')" using n(4) by (simp add: AddPeer_def)
  obtain pub ps where "keyToHex (cc_ServerPubKey cfg) = Inr pub"
      "tbl (the (td_dev d)) w' = put_peer pub ps (Some (AddrPort_String ep)) (allowed_text serverTunnelIP) empty_table"
    by (rule applyPeer_table [OF assms(1) ap ol]) (simp_all add: t pe)
  then have "client_sync tbl c w'"
    by (auto simp: client_sync_def c put_peer_def drop_routes_def empty_table_def Let_def wt_wf_def)
  then show ?thesis using Inr c ck by simp
qed

definition example_clientcfg :: ClientConfig where
  "example_clientcfg = \<lparr>cc_Endpoint = ''h:7'', cc_ServerPubKey = example_key, cc_PrivateKey = ''env:PSK'',
     cc_PresharedKey = ''env:PSK'', cc_TunnelIP = Addr4 0x0A630007, cc_MTU = 0, cc_DialTimeout = 0, cc_Resolver = None\<rparr>"

lemma example_newClient_timeout:
  assumes "0 \<le> d"
  shows "\<exists>c w'. newClient fresh_lib example_keyworld (\<lambda>_. Inr [Addr4 5]) (example_clientcfg\<lparr>cc_DialTimeout := d\<rparr>) w = (Inr c, w')"
proof -
  let ?cfg = "example_clientcfg\<lparr>cc_DialTimeout := d\<rparr>"
  have "SplitHostPort ''h:7'' = Some (''h'', ''7'')" by code_simp
  then have sp: "splitEndpoint ''h:7'' = Inr (''h'', 7)"
    by (simp add: splitEndpoint_def parse_uint16_def decimal_value_def is_digit_char_def)
  have pa: "ParseAddr ''h'' = None" by code_simp
  have ti: "clientTunnelIP (Addr4 0x0A630007) = Inr (Addr4 0x0A630007)" by code_simp
  have c: "client_checks ?cfg = Inr (''h'', 7, Addr4 0x0A630007, if d = 0 then DefaultDialTimeout else d)"
    using assms by (simp add: client_checks_def example_clientcfg_def sp example_parse example_names ti)
  have st: "Contains tunnelSubnet (Addr4 0x0A630007)" "Contains tunnelSubnet serverTunnelIP" "IsValid serverTunnelIP" by code_simp+
  have f: "cc_ServerPubKey ?cfg = example_key" "cc_PrivateKey ?cfg = ''env:PSK''"
      "cc_PresharedKey ?cfg = ''env:PSK''" "cc_MTU ?cfg = 0" "cc_Resolver ?cfg = None"
    by (simp_all add: example_clientcfg_def)
  show ?thesis
    by (simp add: newClient_def c f resolveEndpoint_def pa example_psk newTunnelDevice_def device_checks_def st
        DefaultMTU_def minMTU_def maxMTU_def example_keyToHex fresh_lib_def ref_lib_def AddPeer_def applyPeer_def ipcConfig_def
        addrport_zero_def ap_IsValid_def dev_ipc_def Let_def)
qed

lemma example_newClient:
  "\<exists>c w'. newClient fresh_lib example_keyworld (\<lambda>_. Inr [Addr4 5]) example_clientcfg w = (Inr c, w')"
  using example_newClient_timeout [of 0 w] by (simp add: example_clientcfg_def)

theorem new_client_pins_server_witness:
  "\<exists>c w'. newClient fresh_lib example_keyworld (\<lambda>_. Inr [Addr4 5]) example_clientcfg empty_table = (Inr c, w')
     \<and> client_sync (\<lambda>_ w. w) c w'"
proof -
  obtain c w' where n: "newClient fresh_lib example_keyworld (\<lambda>_. Inr [Addr4 5]) example_clientcfg empty_table = (Inr c, w')"
    using example_newClient by blast
  have l: "names_ok (\<lambda>_. Inr [Addr4 5])" by (simp add: names_ok_def zone_ok_def)
  have z: "zone_ok ip" if "SplitHostPort (cc_Endpoint example_clientcfg) = Some (h, p)" "ParseAddr h = Some ip" for h p ip
  proof -
    have "SplitHostPort ''h:7'' = Some (''h'', ''7'')" "ParseAddr ''h'' = None" by code_simp+
    then show ?thesis using that by (simp add: example_clientcfg_def)
  qed
  from new_client_pins_server [OF fresh_follows fresh_lib_new l z n] show ?thesis using n by auto
qed

text \<open>
  Closing is final and happens once: after a close every dial is refused without touching
  the network, and a second close returns what the first did and leaves the device alone.
\<close>

theorem close_is_final:
  assumes "client_Close lib (c, w) = (e, c', w')"
  shows "cl_closed c' \<and> client_Close lib (c', w1) = (e, c', w1)
    \<and> (ValidServiceName service \<longrightarrow> Dial lib env henv service (c', w1) = (Inl errClientClosed, None, (c', w1)))"
  using assms by (auto simp: client_Close_def Let_def Dial_def split: if_splits prod.splits)

theorem close_is_final_witness:
  "\<exists>e c' w'. client_Close ref_lib (example_client (AddrPort (Addr4 4) 7), empty_table) = (e, c', w')
     \<and> client_Close ref_lib (c', w') = (e, c', w')"
proof -
  obtain e c' w' where c: "client_Close ref_lib (example_client (AddrPort (Addr4 4) 7), empty_table) = (e, c', w')"
    by (metis prod.collapse)
  then show ?thesis using close_is_final [OF c] by blast
qed

end
