(* ===== verification/Msg.thy ===== *)
theory Msg
  imports Netio
begin

text \<open>
  \<^verbatim>\<open>src/internal/msg/msg.go\<close>: newline-delimited messages, each acknowledged with its length. A
  \<^verbatim>\<open>bufio.Reader\<close> over a connection delivers the bytes that arrive one by one and then the error
  the stream ends with, which is what reading from the connection record does. What such a reader has
  read ahead and not yet handed out still counts as to arrive, so after a call of \<^verbatim>\<open>Send\<close>, which has a
  reader of its own, the record holds bytes that the program can no longer read. The elapsed time that
  \<^verbatim>\<open>Send\<close> also returns is the caller's clock and left to it. Neither end sets a deadline here, so a read
  or write that waits (\<^const>\<open>waiting\<close>) makes the function wait: \<^verbatim>\<open>ServeConn\<close> is then \<open>StillOpen\<close>, and the
  error of \<^verbatim>\<open>Send\<close> carries the mark.
\<close>

section \<open>Definitions\<close>

definition MaxMessageLen :: nat where "MaxMessageLen = 64 * 1024"

definition msg_ErrMessageTooLarge :: goerror where
  "msg_ErrMessageTooLarge = GoError (''msg: message exceeds the '' @ show_nat MaxMessageLen @ '' byte limit'') [ErrMessageTooLarge]"

definition errIncompleteMessage :: goerror where
  "errIncompleteMessage = GoError ''msg: connection ended before a newline'' [ErrIncompleteMessage]"

text \<open>
  The loop of \<^verbatim>\<open>readMessage\<close>: the buffer, the bytes still to arrive, the error after them. A read that
  waits is no error the code sees: the loop has not returned.
\<close>

fun read_loop :: "byte list \<Rightarrow> byte list \<Rightarrow> goerror \<Rightarrow> byte list result \<times> byte list" where
  "read_loop buf [] err =
     (if waiting err then (Inl err, [])
      else if errors_Is err IoEOF then (if buf = [] then (Inl io_EOF, []) else (Inl errIncompleteMessage, []))
      else if buf = [] then (Inl err, []) else (Inl errIncompleteMessage, []))"
| "read_loop buf (b # bs) err =
     (if b = 10 then (Inr buf, bs)
      else if length buf \<ge> MaxMessageLen then (Inl msg_ErrMessageTooLarge, bs)
      else read_loop (buf @ [b]) bs err)"

definition readMessage :: "conn \<Rightarrow> byte list result \<times> conn" where
  "readMessage c =
     (if closed c then (Inl net_ErrClosed, c)
      else case read_loop [] (rx c) (stream_end c) of (r, bs) \<Rightarrow> (r, c\<lparr>rx := bs\<rparr>))"

definition ack_line :: "nat \<Rightarrow> byte list" where
  "ack_line n = str_bytes (''ACK '' @ show_nat n @ [CHR 0x0A])"

text \<open>How \<^verbatim>\<open>ServeConn\<close> ended: the line it logs, if any; or that it has not ended.\<close>

datatype serveEnd = CleanClose | MidMessage | Oversized | ReadFailed goerror | AckFailed goerror | StillOpen

definition serve_end :: "goerror \<Rightarrow> serveEnd" where
  "serve_end err =
     (if waiting err then StillOpen
      else if errors_Is err IoEOF then CleanClose
      else if errors_Is err ErrIncompleteMessage then MidMessage
      else if errors_Is err ErrMessageTooLarge then Oversized
      else ReadFailed err)"

lemma read_loop_shorter: "read_loop buf bs err = (Inr m, bs') \<Longrightarrow> length bs' < length bs"
  by (induction buf bs err rule: read_loop.induct) (auto split: if_splits)

text \<open>The loop of \<^verbatim>\<open>ServeConn\<close>: the messages given to the handler, how it ended, the connection.\<close>

function serve_loop :: "conn \<Rightarrow> byte list list \<Rightarrow> byte list list \<times> serveEnd \<times> conn" where
  "serve_loop c handled =
     (case readMessage c of
        (Inl err, c1) \<Rightarrow> (handled, serve_end err, c1)
      | (Inr message, c1) \<Rightarrow>
          (case conn_write (ack_line (length message)) c1 of
             (Some err, c2) \<Rightarrow> (handled @ [message], if waiting err then StillOpen else AckFailed err, c2)
           | (None, c2) \<Rightarrow> serve_loop c2 (handled @ [message])))"
  by pat_completeness auto

termination serve_loop
proof (relation "measure (\<lambda>(c, _). length (rx c))", simp)
  fix c and handled :: "byte list list" and r c1 message e c2
  assume a: "(r, c1) = readMessage c" "r = Inr message" "(e, c2) = conn_write (ack_line (length message)) c1"
  obtain bs where "read_loop [] (rx c) (stream_end c) = (Inr message, bs)" "c1 = c\<lparr>rx := bs\<rparr>"
    using a(1,2) by (auto simp: readMessage_def split: if_splits prod.splits)
  then have "length (rx c1) < length (rx c)" using read_loop_shorter by simp
  moreover have "rx c2 = rx c1" using a(3) conn_write_rx [of "ack_line (length message)" c1] by (metis snd_conv)
  ultimately show "((c2, handled @ [message]), (c, handled)) \<in> measure (\<lambda>(c, _). length (rx c))" by simp
qed

declare serve_loop.simps [simp del]

definition ServeConn :: "conn \<Rightarrow> byte list list \<times> serveEnd \<times> conn" where
  "ServeConn c = (case serve_loop c [] of (handled, e, c') \<Rightarrow> (handled, e, if e = StillOpen then c' else conn_close c'))"

definition Send :: "string \<Rightarrow> conn \<Rightarrow> string result \<times> conn" where
  "Send message c =
     (if length message > MaxMessageLen then (Inl msg_ErrMessageTooLarge, c)
      else case conn_write (str_bytes (message @ [CHR 0x0A])) c of
        (Some err, c1) \<Rightarrow> (Inl (errorf_w ''msg: write message: '' err ''''), c1)
      | (None, c1) \<Rightarrow>
          (case readMessage c1 of
             (Inl err, c2) \<Rightarrow> (Inl (errorf_w ''msg: read ack: '' err ''''), c2)
           | (Inr line, c2) \<Rightarrow> (Inr (bytes_str line), c2)))"

text \<open>
  \<^verbatim>\<open>Serve\<close> when the accept loop ends: it stops its watcher, waits for every handler, and returns
  the context's error when the context is done and the accept error otherwise.
\<close>

definition serve_return :: "goerror option \<Rightarrow> goerror \<Rightarrow> goerror" where
  "serve_return ctxErr acceptErr = (case ctxErr of Some e \<Rightarrow> e | None \<Rightarrow> acceptErr)"

section \<open>Specification\<close>

text \<open>The stream of a list of messages.\<close>

definition frame :: "byte list list \<Rightarrow> byte list" where
  "frame ms = concat (map (\<lambda>m. m @ [10]) ms)"

definition acks :: "byte list list \<Rightarrow> byte list" where
  "acks ms = concat (map (\<lambda>m. ack_line (length m)) ms)"

definition message_ok :: "byte list \<Rightarrow> bool" where
  "message_ok m = (10 \<notin> set m \<and> length m \<le> MaxMessageLen)"

text \<open>
  What the sink makes of a stream, without its buffer and its loops: the stream is cut at its newlines;
  the messages are the complete lines before the first one that is too long; what comes after the last
  newline is too long, or the stream ends in it, or right after it.
\<close>

fun cut_lines :: "byte list \<Rightarrow> byte list list \<times> byte list" where
  "cut_lines [] = ([], [])"
| "cut_lines (b # bs) = (case cut_lines bs of (ls, rest) \<Rightarrow>
     if b = 10 then ([] # ls, rest)
     else case ls of [] \<Rightarrow> ([], b # rest) | l # ls' \<Rightarrow> ((b # l) # ls', rest))"

definition served_messages :: "byte list \<Rightarrow> byte list list" where
  "served_messages bs = takeWhile (\<lambda>l. length l \<le> MaxMessageLen) (fst (cut_lines bs))"

definition served_end :: "byte list \<Rightarrow> goerror \<Rightarrow> serveEnd" where
  "served_end bs err = (case cut_lines bs of (ls, rest) \<Rightarrow>
     if (\<exists>l \<in> set ls. MaxMessageLen < length l) \<or> MaxMessageLen < length rest then Oversized
     else if waiting err then StillOpen
     else if rest \<noteq> [] then MidMessage
     else serve_end err)"

section \<open>Lemmas\<close>

lemma read_loop_line:
  assumes "10 \<notin> set m" "length buf + length m \<le> MaxMessageLen"
  shows "read_loop buf (m @ 10 # rest) err = (Inr (buf @ m), rest)"
  using assms by (induction m arbitrary: buf) auto

lemma read_loop_large:
  assumes "10 \<notin> set m" "length buf \<le> MaxMessageLen" "length buf + length m = MaxMessageLen + 1"
  shows "read_loop buf (m @ rest) err = (Inl msg_ErrMessageTooLarge, rest)"
  using assms
proof (induction m arbitrary: buf)
  case (Cons b m)
  then show ?case by (cases "length buf = MaxMessageLen") auto
qed simp

lemma read_loop_end:
  assumes "10 \<notin> set m" "length buf + length m \<le> MaxMessageLen"
  shows "read_loop buf m err = (Inl (if waiting err then err
     else if buf = [] \<and> m = [] then (if errors_Is err IoEOF then io_EOF else err)
     else errIncompleteMessage), [])"
  using assms by (induction m arbitrary: buf) auto

lemma readMessage_line:
  "\<not> closed c \<Longrightarrow> message_ok m \<Longrightarrow> rx c = m @ 10 # rest \<Longrightarrow> readMessage c = (Inr m, c\<lparr>rx := rest\<rparr>)"
  by (simp add: readMessage_def message_ok_def read_loop_line)

definition willing :: "conn \<Rightarrow> bool" where
  "willing c = (\<not> closed c \<and> wres c = [])"

lemma conn_write_willing: "willing c \<Longrightarrow> conn_write bs c = (None, c\<lparr>tx := tx c @ bs\<rparr>)"
  by (simp add: willing_def conn_write_def)

lemma serve_loop_frame:
  assumes "list_all message_ok ms" "willing c" "rx c = frame ms @ rest"
  shows "serve_loop c handled = serve_loop (c\<lparr>rx := rest, tx := tx c @ acks ms\<rparr>) (handled @ ms)"
  using assms
proof (induction ms arbitrary: c handled)
  case Nil
  then have "c\<lparr>rx := rest, tx := tx c @ acks []\<rparr> = c" by (cases c) (simp add: frame_def acks_def)
  then show ?case by simp
next
  case (Cons m ms)
  let ?c = "c\<lparr>rx := frame ms @ rest\<rparr>" and ?a = "ack_line (length m)"
  have r: "readMessage c = (Inr m, ?c)"
    using Cons.prems by (intro readMessage_line) (simp_all add: willing_def frame_def)
  have w: "conn_write ?a ?c = (None, ?c\<lparr>tx := tx c @ ?a\<rparr>)"
    using Cons.prems(2) by (subst conn_write_willing) (simp_all add: willing_def)
  have "serve_loop c handled = serve_loop (?c\<lparr>tx := tx c @ ?a\<rparr>) (handled @ [m])"
    by (subst serve_loop.simps) (simp add: r w)
  also have "\<dots> = serve_loop ((?c\<lparr>tx := tx c @ ?a\<rparr>)\<lparr>rx := rest, tx := tx (?c\<lparr>tx := tx c @ ?a\<rparr>) @ acks ms\<rparr>) ((handled @ [m]) @ ms)"
    using Cons.prems by (intro Cons.IH) (simp_all add: willing_def)
  finally show ?case by (simp add: acks_def)
qed

lemma serve_frame:
  assumes "list_all message_ok ms" "willing c" "rx c = frame ms @ part" "10 \<notin> set part"
    and "length part \<le> MaxMessageLen" "rxend c = io_EOF"
  shows "\<exists>c'. ServeConn c = (ms, if part = [] then CleanClose else MidMessage, c') \<and> tx c' = tx c @ acks ms \<and> closed c'"
proof -
  let ?c = "c\<lparr>rx := part, tx := tx c @ acks ms\<rparr>"
  have l: "serve_loop c [] = serve_loop ?c ms" using serve_loop_frame [OF assms(1-3), of "[]"] by simp
  have "readMessage ?c = (Inl (if part = [] then io_EOF else errIncompleteMessage), ?c\<lparr>rx := []\<rparr>)"
    using assms(2,4-6) by (simp add: readMessage_def read_loop_end willing_def)
  then have "serve_loop ?c ms = (ms, if part = [] then CleanClose else MidMessage, ?c\<lparr>rx := []\<rparr>)"
    by (subst serve_loop.simps) (simp add: serve_end_def io_EOF_def errIncompleteMessage_def waiting_def)
  then show ?thesis by (simp add: ServeConn_def l conn_close_def)
qed

text \<open>Under deadlines \<^verbatim>\<open>Send\<close> returns, whatever the other end does.\<close>

lemma conn_write_rdeadline: "conn_write bs c = (e, c') \<Longrightarrow> rdeadline c' = rdeadline c"
  by (auto simp: conn_write_def split: if_splits list.splits option.splits prod.splits)

lemma read_loop_returns: "\<not> waiting err \<Longrightarrow> read_loop buf bs err = (Inl e, bs') \<Longrightarrow> \<not> waiting e"
  by (induction buf bs err rule: read_loop.induct)
    (auto simp: errIncompleteMessage_def msg_ErrMessageTooLarge_def waiting_def [of "GoError _ _"] split: if_splits)

lemma Send_returns:
  assumes "Send message c = (Inl e, c')" "wdeadline c \<noteq> None" "rdeadline c \<noteq> None"
  shows "\<not> waiting e"
proof -
  have "readMessage x = (Inl y, x') \<Longrightarrow> rdeadline x \<noteq> None \<Longrightarrow> \<not> waiting y" for x y x'
    using read_loop_returns [OF deadline_stream_end, of x "[]" "rx x" y] by (auto simp: readMessage_def split: if_splits prod.splits)
  then show ?thesis
    using assms conn_write_rdeadline [of "str_bytes (message @ [CHR 0x0A])" c]
    by (auto simp: Send_def msg_ErrMessageTooLarge_def waiting_def [of "GoError _ _"] dest: deadline_write
        split: if_splits prod.splits option.splits sum.splits)
qed

text \<open>The stream cut at its newlines, and the loop on what comes after the messages.\<close>

lemma cut_lines_frame:
  "cut_lines bs = (ls, rest) \<Longrightarrow> bs = frame ls @ rest \<and> 10 \<notin> set rest \<and> (\<forall>l \<in> set ls. 10 \<notin> set l)"
  by (induction bs arbitrary: ls rest) (auto simp: frame_def split: prod.splits list.splits if_splits)

lemma serve_loop_oversized:
  assumes "\<not> closed c" "rx c = m @ rest" "10 \<notin> set m" "MaxMessageLen < length m"
  shows "\<exists>c'. serve_loop c handled = (handled, Oversized, c') \<and> tx c' = tx c \<and> closed c' = closed c"
proof -
  have "rx c = take (MaxMessageLen + 1) m @ drop (MaxMessageLen + 1) m @ rest" using assms(2) by simp
  moreover have "10 \<notin> set (take (MaxMessageLen + 1) m)" using assms(3) by (meson in_set_takeD)
  ultimately have "read_loop [] (rx c) (stream_end c) = (Inl msg_ErrMessageTooLarge, drop (MaxMessageLen + 1) m @ rest)"
    using assms(4) read_loop_large [of "take (MaxMessageLen + 1) m" "[]"] by simp
  then show ?thesis
    using assms(1) by (subst serve_loop.simps)
      (simp add: readMessage_def serve_end_def msg_ErrMessageTooLarge_def waiting_def)
qed

lemma serve_loop_end:
  assumes "\<not> closed c" "10 \<notin> set (rx c)" "length (rx c) \<le> MaxMessageLen"
  shows "\<exists>c'. serve_loop c handled = (handled, if waiting (stream_end c) then StillOpen else if rx c \<noteq> [] then MidMessage
      else serve_end (stream_end c), c') \<and> tx c' = tx c \<and> closed c' = closed c"
  using assms by (subst serve_loop.simps)
    (auto simp: readMessage_def read_loop_end serve_end_def errIncompleteMessage_def io_EOF_def waiting_def [of "GoError _ _"])

lemma serve_loop_rest:
  assumes "\<not> closed c" "rx c = frame (dropWhile (\<lambda>l. length l \<le> MaxMessageLen) ls) @ rest"
    and "10 \<notin> set rest" "\<forall>l \<in> set ls. 10 \<notin> set l"
  shows "\<exists>c'. serve_loop c handled = (handled, if (\<exists>l \<in> set ls. MaxMessageLen < length l) \<or> MaxMessageLen < length rest then Oversized
      else if waiting (stream_end c) then StillOpen else if rest \<noteq> [] then MidMessage else serve_end (stream_end c), c') \<and> tx c' = tx c \<and> closed c' = closed c"
proof (cases "dropWhile (\<lambda>l. length l \<le> MaxMessageLen) ls")
  case Nil
  then have ls: "(\<exists>l \<in> set ls. MaxMessageLen < length l) = False" and rx: "rx c = rest"
    using assms(2) by (auto simp: dropWhile_eq_Nil_conv frame_def)
  show ?thesis
    using serve_loop_oversized [of c rest "[]" handled] serve_loop_end [of c handled] assms(1,3)
    unfolding ls rx by (cases "MaxMessageLen < length rest") (simp_all add: rx)
next
  case (Cons l ls')
  then have l: "MaxMessageLen < length l" "l \<in> set ls"
    using hd_dropWhile [of "\<lambda>l. length l \<le> MaxMessageLen" ls] set_dropWhileD [of l "\<lambda>l. length l \<le> MaxMessageLen" ls] by auto
  then show ?thesis
    using serve_loop_oversized [of c l "10 # frame ls' @ rest" handled] assms(1,2,4) Cons by (auto simp: frame_def)
qed

lemma byte_of_newline: "byte_of_char (CHR 0x0A) = 10"
  by (simp add: byte_of_char_def)

lemma digit_byte: "d < 10 \<Longrightarrow> byte_of_char (digit_char d) \<noteq> 10"
proof -
  have "\<forall>d \<in> set [0..<10]. byte_of_char (digit_char d) \<noteq> 10" by code_simp
  then show "d < 10 \<Longrightarrow> ?thesis" by simp
qed

lemma show_nat_bytes: "10 \<notin> set (str_bytes (show_nat n))"
proof (induction n rule: show_nat.induct)
  case (1 n)
  then show ?case
    using digit_byte [of n] digit_byte [of "n mod 10"]
    by (cases "n < 10") (auto simp: show_nat.simps [of n] str_bytes_def)
qed

lemma ack_line_eq: "ack_line n = str_bytes (''ACK '' @ show_nat n) @ [10]"
  by (simp add: ack_line_def str_bytes_def byte_of_newline)

lemma ack_plain: "10 \<notin> set (str_bytes (''ACK '' @ show_nat n))"
proof -
  have "10 \<notin> set (str_bytes ''ACK '')" by code_simp
  then show ?thesis using show_nat_bytes [of n] by (auto simp: str_bytes_def)
qed

lemma length_show_nat: "n \<le> 65536 \<Longrightarrow> length (show_nat n) \<le> 5"
  by (simp add: show_nat.simps [of n] show_nat.simps [of "n div 10"] show_nat.simps [of "n div 10 div 10"]
      show_nat.simps [of "n div 10 div 10 div 10"] show_nat.simps [of "n div 10 div 10 div 10 div 10"])

section \<open>Properties\<close>

text \<open>
  Reading one message, on every stream. A line of at most the limit is returned exactly,
  with the rest of the stream untouched; a line that is longer is refused after one byte more than
  the limit and never returned in part; a stream that ends inside a message is incomplete, and one
  that ends before it gives its own error; and on a stream that stays open without a newline it waits.
\<close>

theorem readMessage_exact:
  assumes "\<not> closed c" "10 \<notin> set m"
  shows "(rx c = m @ 10 # rest \<and> length m \<le> MaxMessageLen \<longrightarrow> readMessage c = (Inr m, c\<lparr>rx := rest\<rparr>))
    \<and> (rx c = m @ rest \<and> length m = MaxMessageLen + 1 \<longrightarrow> readMessage c = (Inl msg_ErrMessageTooLarge, c\<lparr>rx := rest\<rparr>))
    \<and> (rx c = m \<and> length m \<le> MaxMessageLen \<longrightarrow> fst (readMessage c) =
        Inl (if waiting (stream_end c) then stream_end c
          else if m \<noteq> [] then errIncompleteMessage else if errors_Is (stream_end c) IoEOF then io_EOF else stream_end c))"
  using assms by (simp add: readMessage_def read_loop_line read_loop_large read_loop_end)

theorem readMessage_exact_witness:
  "readMessage (fresh_conn [104, 105, 10, 7]) = (Inr [104, 105], (fresh_conn [104, 105, 10, 7])\<lparr>rx := [7]\<rparr>)"
  using readMessage_exact [of "fresh_conn [104, 105, 10, 7]" "[104, 105]" "[7]"] by (simp add: MaxMessageLen_def)

text \<open>
  The sink handles each message exactly once, in order, and acknowledges each with its
  own length before the next: on a connection that takes the replies, a stream of messages
  followed by a part of one gives the handler exactly the messages, the peer exactly their
  acknowledgements, and a closed connection; the unfinished part is never handled.
\<close>

theorem ServeConn_handles_each:
  assumes "list_all message_ok ms" "\<not> closed c" "wres c = []" "rx c = frame ms @ part" "10 \<notin> set part"
    and "length part \<le> MaxMessageLen" "rxend c = io_EOF"
  shows "\<exists>c'. ServeConn c = (ms, if part = [] then CleanClose else MidMessage, c') \<and> tx c' = tx c @ acks ms \<and> closed c'"
  using serve_frame [OF assms(1) _ assms(4-7)] assms(2,3) by (simp add: willing_def)

theorem ServeConn_handles_each_witness:
  "fst (ServeConn (fresh_conn [104, 105, 10, 10, 7])) = [[104, 105], []]"
proof -
  have "\<exists>c'. ServeConn (fresh_conn [104, 105, 10, 10, 7]) = ([[104, 105], []], if [7] = ([] :: byte list) then CleanClose else MidMessage, c')
      \<and> tx c' = tx (fresh_conn [104, 105, 10, 10, 7]) @ acks [[104, 105], []] \<and> closed c'"
    by (rule ServeConn_handles_each) (simp_all add: message_ok_def frame_def MaxMessageLen_def)
  then show ?thesis by auto
qed

text \<open>
  Claim C24. \<^verbatim>\<open>ServeConn\<close> is equivalent to its specification on every stream of bytes, well formed or not
  and however it ends, over a connection that takes the replies: it handles exactly the complete lines
  before the first one over the limit, acknowledges each with its own length in the same order, and ends
  the way the stream does after them, refusing a line or an unfinished tail over the limit and handling
  no part of either; and it closes the connection, unless the stream stays open and it waits for more.
\<close>

theorem ServeConn_is_its_specification:
  assumes "\<not> closed c" "wres c = []"
  shows "\<exists>c'. ServeConn c = (served_messages (rx c), served_end (rx c) (stream_end c), c')
    \<and> tx c' = tx c @ acks (served_messages (rx c)) \<and> (closed c' \<longleftrightarrow> served_end (rx c) (stream_end c) \<noteq> StillOpen)"
proof -
  obtain ls rest where cut: "cut_lines (rx c) = (ls, rest)" by fastforce
  note f = cut_lines_frame [OF cut]
  let ?ok = "\<lambda>l. length l \<le> MaxMessageLen"
  let ?c = "c\<lparr>rx := frame (dropWhile ?ok ls) @ rest, tx := tx c @ acks (takeWhile ?ok ls)\<rparr>"
  have se: "stream_end ?c = stream_end c" by simp
  have "frame (takeWhile ?ok ls) @ frame (dropWhile ?ok ls) = frame (takeWhile ?ok ls @ dropWhile ?ok ls)"
    by (simp only: frame_def map_append concat_append)
  then have rx: "rx c = frame (takeWhile ?ok ls) @ frame (dropWhile ?ok ls) @ rest" using f by simp
  have "list_all message_ok (takeWhile ?ok ls)"
    using f by (auto simp: list_all_iff message_ok_def dest: set_takeWhileD)
  then have l: "serve_loop c [] = serve_loop ?c (takeWhile ?ok ls)"
    using serve_loop_frame [OF _ _ rx, of "[]"] assms by (simp add: willing_def)
  have e: "served_end (rx c) x = (if (\<exists>l \<in> set ls. MaxMessageLen < length l) \<or> MaxMessageLen < length rest then Oversized
      else if waiting x then StillOpen else if rest \<noteq> [] then MidMessage else serve_end x)" for x
    by (simp add: served_end_def cut)
  obtain c' where c': "serve_loop ?c (takeWhile ?ok ls) = (takeWhile ?ok ls, served_end (rx c) (stream_end c), c')"
      "tx c' = tx ?c" "\<not> closed c'"
    using serve_loop_rest [of ?c ls rest "takeWhile ?ok ls", unfolded se] conjunct2 [OF f] assms(1) by (auto simp: e)
  then show ?thesis by (auto simp: ServeConn_def l served_messages_def cut conn_close_def)
qed

text \<open>Two messages, a third one unfinished, and a peer that keeps the connection open.\<close>

theorem ServeConn_is_its_specification_witness:
  "\<exists>c'. ServeConn ((fresh_conn [104, 105, 10, 10, 7])\<lparr>rxend := silence\<rparr>) = ([[104, 105], []], StillOpen, c')
     \<and> tx c' = acks [[104, 105], []] \<and> \<not> closed c'"
proof -
  let ?c = "(fresh_conn [104, 105, 10, 10, 7])\<lparr>rxend := silence\<rparr>"
  have "cut_lines (rx ?c) = ([[104, 105], []], [7])" by code_simp
  moreover have "waiting (stream_end ?c)" by (simp add: stream_end_def fresh_conn_def)
  ultimately have s: "served_messages (rx ?c) = [[104, 105], []]" "served_end (rx ?c) (stream_end ?c) = StillOpen"
    by (simp_all add: served_messages_def served_end_def MaxMessageLen_def)
  have "\<not> closed ?c" "wres ?c = []" "tx ?c = []" by simp_all
  from ServeConn_is_its_specification [OF this(1,2)] this(3) show ?thesis unfolding s by simp
qed

text \<open>
  Claim C27. Sending and serving, end to end. When the bytes \<^verbatim>\<open>Send\<close> writes reach the sink and the
  sink's replies come back, the sink handles exactly the lines of the message and \<^verbatim>\<open>Send\<close> returns
  the acknowledgement of the first of them. For a message without a newline that is the message
  itself and its whole length.
\<close>

theorem send_is_acknowledged:
  assumes "str_bytes message @ [10] = frame ms" "list_all message_ok ms" "length message \<le> MaxMessageLen"
    and "\<not> closed cc" "wres cc = []" "\<not> closed sc" "wres sc = []" "rx sc = str_bytes message @ [10]" "tx sc = []" "rxend sc = io_EOF"
    and "rx cc = tx (snd (snd (ServeConn sc)))"
  shows "fst (ServeConn sc) = ms \<and> fst (Send message cc) = Inr (''ACK '' @ show_nat (length (hd ms)))
    \<and> tx (snd (Send message cc)) = tx cc @ rx sc
    \<and> (CHR 0x0A \<notin> set message \<longrightarrow> ms = [str_bytes message])"
proof -
  obtain c' where c': "ServeConn sc = (ms, CleanClose, c')" "tx c' = acks ms"
    using serve_frame [OF assms(2), of sc "[]"] assms(1,6-10) by (auto simp: willing_def)
  obtain m ms' where ms: "ms = m # ms'" using assms(1) by (cases ms) (auto simp: frame_def)
  have len: "length (''ACK '' @ show_nat (length m)) \<le> MaxMessageLen"
    using assms(2) length_show_nat [of "length m"] by (simp add: ms message_ok_def MaxMessageLen_def)
  have rx: "rx cc = str_bytes (''ACK '' @ show_nat (length m)) @ 10 # acks ms'"
    using assms(11) by (simp add: c' acks_def ms ack_line_eq)
  let ?c1 = "cc\<lparr>tx := tx cc @ str_bytes (message @ [CHR 0x0A])\<rparr>"
  have w: "conn_write (str_bytes (message @ [CHR 0x0A])) cc = (None, ?c1)"
    using assms(4,5) by (intro conn_write_willing) (simp add: willing_def)
  have r: "readMessage ?c1 = (Inr (str_bytes (''ACK '' @ show_nat (length m))), ?c1\<lparr>rx := acks ms'\<rparr>)"
    using assms(4) rx len ack_plain by (intro readMessage_line) (simp_all add: message_ok_def)
  have "Send message cc = (Inr (''ACK '' @ show_nat (length m)), ?c1\<lparr>rx := acks ms'\<rparr>)"
    using assms(3) by (simp add: Send_def w r)
  moreover have "ms = [str_bytes message]" if n: "CHR 0x0A \<notin> set message"
  proof -
    have "10 \<notin> set (str_bytes message)"
    proof
      assume "10 \<in> set (str_bytes message)"
      then obtain ch where "ch \<in> set message" "byte_of_char ch = byte_of_char (CHR 0x0A)"
        by (auto simp: str_bytes_def byte_of_newline)
      then have "CHR 0x0A \<in> set message" by (metis char_of_byte_of_char)
      then show False using n by contradiction
    qed
    moreover have "10 \<notin> set m" using assms(2) by (simp add: ms message_ok_def)
    moreover have "str_bytes message @ [10] = m @ 10 # frame ms'" using assms(1) by (simp add: ms frame_def)
    ultimately have "str_bytes message = m" "frame ms' = []"
      using append_Cons_eq_iff [of 10 "str_bytes message" "[]" m "frame ms'"] by auto
    then show ?thesis by (cases ms') (auto simp: ms frame_def)
  qed
  ultimately show ?thesis by (simp add: c' ms assms(8) str_bytes_def byte_of_newline)
qed

lemma example_sink:
  "ServeConn (fresh_conn [104, 105, 10]) = ([[104, 105]], CleanClose, (fresh_conn [])\<lparr>tx := str_bytes ''ACK 2'' @ [10], closed := True\<rparr>)"
proof -
  have a: "ack_line 2 = str_bytes ''ACK 2'' @ [10]" by code_simp
  have r: "readMessage (fresh_conn [104, 105, 10]) = (Inr [104, 105], fresh_conn [])"
    by (simp add: readMessage_def MaxMessageLen_def fresh_conn_def)
  show ?thesis
    by (simp add: ServeConn_def, subst serve_loop.simps, simp add: r conn_write_def a, subst serve_loop.simps)
      (simp add: readMessage_def serve_end_def conn_close_def numeral_2_eq_2 a [unfolded numeral_2_eq_2] io_EOF_def waiting_def)
qed

theorem send_is_acknowledged_witness:
  "fst (Send ''hi'' (fresh_conn (str_bytes ''ACK 2'' @ [10]))) = Inr ''ACK 2''"
proof -
  have f: "str_bytes ''hi'' = [104, 105]" "show_nat 2 = ''2''" by code_simp+
  have "fst (Send ''hi'' (fresh_conn (str_bytes ''ACK 2'' @ [10]))) = Inr (''ACK '' @ show_nat (length (hd [[104 :: byte, 105]])))"
    using send_is_acknowledged [of "''hi''" "[[104, 105]]" "fresh_conn (str_bytes ''ACK 2'' @ [10])" "fresh_conn [104, 105, 10]"]
    by (simp add: f frame_def message_ok_def MaxMessageLen_def example_sink)
  then show ?thesis using f(2) by (simp add: numeral_2_eq_2)
qed

text \<open>
  A message with a newline in it is more than one message. \<^verbatim>\<open>Send\<close> accepts it and reports
  success with the acknowledgement of its first line, while the sink handles two messages and
  sends two acknowledgements, the second of which nobody reads.
\<close>

theorem newline_splits_a_message:
  "\<exists>sc cc. fst (Send [CHR ''a'', CHR 0x0A, CHR ''b''] cc) = Inr ''ACK 1'' \<and> fst (ServeConn sc) = [[97], [98]]
     \<and> rx sc = tx (snd (Send [CHR ''a'', CHR 0x0A, CHR ''b''] cc)) \<and> rx cc = tx (snd (snd (ServeConn sc)))
     \<and> rx (snd (Send [CHR ''a'', CHR 0x0A, CHR ''b''] cc)) = str_bytes ''ACK 1'' @ [10]"
proof -
  let ?m = "[CHR ''a'', CHR 0x0A, CHR ''b'']" and ?a = "str_bytes ''ACK 1'' @ [10]"
  let ?sc = "fresh_conn [97, 10, 98, 10]"
  define cc where "cc = fresh_conn (?a @ ?a)"
  have cc: "rx cc = str_bytes ''ACK 1'' @ 10 # ?a" "\<not> closed cc" "wres cc = []" "tx cc = []" by (simp_all add: cc_def)
  have a: "ack_line (Suc 0) = ?a" and m: "str_bytes (?m @ [CHR 0x0A]) = [97, 10, 98, 10]" and n: "10 \<notin> set (str_bytes ''ACK 1'')"
    by code_simp+
  obtain c' where c': "ServeConn ?sc = ([[97], [98]], CleanClose, c')" "tx c' = ?a @ ?a"
    using serve_frame [of "[[97], [98]]" ?sc "[]"]
    by (auto simp: message_ok_def MaxMessageLen_def willing_def frame_def acks_def a)
  have w: "conn_write (str_bytes (?m @ [CHR 0x0A])) cc = (None, cc\<lparr>tx := [97, 10, 98, 10]\<rparr>)"
    unfolding m by (simp add: conn_write_def cc)
  have r: "readMessage (cc\<lparr>tx := [97, 10, 98, 10]\<rparr>) = (Inr (str_bytes ''ACK 1''), cc\<lparr>tx := [97, 10, 98, 10], rx := ?a\<rparr>)"
    using n by (intro readMessage_line) (simp_all add: message_ok_def MaxMessageLen_def cc)
  have s: "Send ?m cc = (Inr ''ACK 1'', cc\<lparr>tx := [97, 10, 98, 10], rx := ?a\<rparr>)"
    unfolding Send_def w by (simp add: r MaxMessageLen_def)
  show ?thesis by (intro exI [of _ ?sc] exI [of _ cc]) (simp add: s c' cc)
qed

end
