(* ===== verification/SendCmd.thy ===== *)
theory SendCmd
  imports Flags Client Msg
begin

text \<open>
  \<^verbatim>\<open>src/cmd/gocloak-send/main.go\<close>: the arguments, the exit codes, and the one message it
  sends, over the client and the message protocol. What the network and the clock do is the
  environment of a run, a record.
\<close>

section \<open>Definitions\<close>

definition exitOK :: int where "exitOK = 0"
definition exitError :: int where "exitError = 1"
definition exitUsage :: int where "exitUsage = 2"
definition exitDenied :: int where "exitDenied = 10"
definition exitBackendUnavailable :: int where "exitBackendUnavailable = 11"
definition exitRateLimited :: int where "exitRateLimited = 12"
definition exitHandshakeTimeout :: int where "exitHandshakeTimeout = 13"
definition exitInvalidServiceName :: int where "exitInvalidServiceName = 14"

definition send_wgKeyLen :: nat where "send_wgKeyLen = 32"

record sendConfig =
  sg_endpoint :: string
  sg_serverKey :: string
  sg_keyRef :: SecretRef
  sg_pskRef :: SecretRef
  sg_tunnelIP :: addr
  sg_service :: string
  sg_timeout :: duration
  sg_message :: string

subsection \<open>Arguments\<close>

definition string_flag :: "string \<Rightarrow> string \<Rightarrow> goflag" where
  "string_flag name usage = \<lparr>fl_name = name, fl_type = ''string'', fl_usage = usage, fl_default = [], fl_check = (\<lambda>_. True)\<rparr>"

definition send_flags :: "goflag list" where
  "send_flags =
     [string_flag ''endpoint'' ''host:port of the tunnel server, UDP'',
      string_flag ''key'' ''SecretRef for this peer's private key, for example file:./app-01.key'',
      string_flag ''psk'' ''SecretRef for this peer's preshared key'',
      string_flag ''server-key'' ''base64 server public key, pinned'',
      string_flag ''service'' ''the service name to dial'',
      \<lparr>fl_name = ''timeout'', fl_type = ''duration'', fl_usage = ''dial timeout'',
       fl_default = Duration_String DefaultDialTimeout, fl_check = (\<lambda>v. ParseDuration v \<noteq> None)\<rparr>,
      string_flag ''tunnel-ip'' ''this peer's address inside the tunnel, for example 10.99.0.7'']"

definition send_usage :: string where
  "send_usage = ''usage: gocloak-send [flags] <message>'' @ nl @ nl @ PrintDefaults send_flags @ nl
     @ ''exit codes:'' @ nl
     @ ''  0   sent, ack received'' @ nl
     @ ''  1   an error other than the ones below'' @ nl
     @ ''  2   usage error: a required flag is missing, empty, or malformed'' @ nl
     @ ''  10  denied: the service is not in this peer's allow map'' @ nl
     @ ''  11  backend unavailable: granted, but the server could not reach it'' @ nl
     @ ''  12  rate limited: this peer exceeded its configured dial limits'' @ nl
     @ ''  13  handshake timeout: see the printed message for what that can mean'' @ nl
     @ ''  14  invalid service name: rejected locally, no packet was sent'' @ nl"

definition missing_flags :: "(string \<rightharpoonup> string) \<Rightarrow> string list \<Rightarrow> string list" where
  "missing_flags vals rest =
     concat (map (\<lambda>f. if flag_value vals f [] = [] then [''--'' @ f] else [])
       [''endpoint'', ''server-key'', ''key'', ''psk'', ''tunnel-ip'', ''service''])
     @ (if rest = [] then [''message (positional argument)''] else [])"

text \<open>
  \<^verbatim>\<open>parseArgs\<close>: the configuration, or the exit code and what is printed. The text of a
  \<^verbatim>\<open>netip\<close> parse error is the argument \<open>addrErr\<close>.
\<close>

definition parseArgs :: "(string \<Rightarrow> string) \<Rightarrow> string list \<Rightarrow> (int \<times> string) + sendConfig" where
  "parseArgs addrErr args =
     (case flag_Parse send_flags args (\<lambda>_. None) of
        Inl err \<Rightarrow> Inl (if errors_Is err FlagErrHelp then exitOK else exitUsage, parse_output err send_usage)
      | Inr (vals, rest) \<Rightarrow>
          let missing = missing_flags vals rest; val = (\<lambda>f. flag_value vals f []) in
          if missing \<noteq> [] then Inl (exitUsage, ''gocloak-send: missing required: '' @ str_join missing '', '' @ nl)
          else (case DecodeString (val ''server-key'') of
              None \<Rightarrow> Inl (exitUsage, ''gocloak-send: --server-key is not valid base64'' @ nl)
            | Some keyBytes \<Rightarrow>
                if length keyBytes \<noteq> send_wgKeyLen
                then Inl (exitUsage, ''gocloak-send: --server-key decodes to '' @ show_nat (length keyBytes) @ '' bytes, want ''
                       @ show_nat send_wgKeyLen @ nl)
                else (case ParseAddr (val ''tunnel-ip'') of
                    None \<Rightarrow> Inl (exitUsage, ''gocloak-send: --tunnel-ip is not a valid address: '' @ addrErr (val ''tunnel-ip'') @ nl)
                  | Some ip \<Rightarrow>
                      Inr \<lparr>sg_endpoint = val ''endpoint'', sg_serverKey = val ''server-key'', sg_keyRef = val ''key'',
                        sg_pskRef = val ''psk'', sg_tunnelIP = ip, sg_service = val ''service'',
                        sg_timeout = (case vals ''timeout'' of None \<Rightarrow> DefaultDialTimeout | Some v \<Rightarrow> the (ParseDuration v)),
                        sg_message = hd rest\<rparr>)))"

subsection \<open>Sending\<close>

definition send_failed :: "int \<Rightarrow> string \<Rightarrow> int \<times> string" where
  "send_failed code text' = (code, ''gocloak-send: '' @ text' @ nl)"

definition reportError :: "goerror \<Rightarrow> int \<times> string" where
  "reportError err =
     (if errors_Is err ErrHandshakeTimeout then send_failed exitHandshakeTimeout (emsg err)
      else if errors_Is err ErrDenied
      then send_failed exitDenied ''denied: this peer's allow map does not grant this service''
      else if errors_Is err ErrBackendUnavailable
      then send_failed exitBackendUnavailable ''backend unavailable: the service is granted, but the server could not reach it''
      else if errors_Is err ErrRateLimited
      then send_failed exitRateLimited ''rate limited: this peer exceeded its configured dial limits''
      else if errors_Is err ErrInvalidServiceName
      then send_failed exitInvalidServiceName (''invalid service name: '' @ emsg err)
      else send_failed exitError (emsg err))"

text \<open>
  The connection at an instant: once a deadline is reached, every operation it covers fails at once.
\<close>

definition conn_at :: "time \<Rightarrow> conn \<Rightarrow> conn" where
  "conn_at t c =
     (let c1 = (if before (wdeadline c) t then c\<lparr>wres := Some (0, net_ErrTimeout) # wres c\<rparr> else c) in
      if before (rdeadline c) t then c1\<lparr>rx := [], rxend := net_ErrTimeout\<rparr> else c1)"

record 'w sendenv =
  sd_lib :: "'w wglib"
  sd_osw :: osworld
  sd_lookup :: "string \<Rightarrow> addr list result"
  sd_dial :: dialenv
  sd_hello :: "time \<Rightarrow> helloenv"
  sd_now :: time                 \<comment> \<open>when the deadline of the message is set\<close>
  sd_send :: time                \<comment> \<open>when the message is written\<close>
  sd_elapsed :: duration

text \<open>The context of the dial: the timeout and five seconds, never cancelled.\<close>

definition send_deadline :: "'w sendenv \<Rightarrow> sendConfig \<Rightarrow> time" where
  "send_deadline env cfg = de_start (sd_dial env) + (sg_timeout cfg + 5 * second)"

definition send_client :: "sendConfig \<Rightarrow> ClientConfig" where
  "send_client cfg = \<lparr>cc_Endpoint = sg_endpoint cfg, cc_ServerPubKey = sg_serverKey cfg, cc_PrivateKey = sg_keyRef cfg,
     cc_PresharedKey = sg_pskRef cfg, cc_TunnelIP = sg_tunnelIP cfg, cc_MTU = 0, cc_DialTimeout = sg_timeout cfg,
     cc_Resolver = None\<rparr>"

definition send_dial :: "'w sendenv \<Rightarrow> sendConfig \<Rightarrow> Client \<times> 'w \<Rightarrow> conn result \<times> conn option \<times> Client \<times> 'w" where
  "send_dial env cfg = Dial (sd_lib env)
     ((sd_dial env)\<lparr>de_deadline := Some (send_deadline env cfg), de_cancel := None\<rparr>)
     (\<lambda>t. (sd_hello env t)\<lparr>he_deadline := Some (send_deadline env cfg)\<rparr>) (sg_service cfg)"

text \<open>From the open connection on: exit code, output and error output, and the connection.\<close>

definition send_on :: "'w sendenv \<Rightarrow> sendConfig \<Rightarrow> conn \<Rightarrow> (int \<times> string \<times> string) \<times> conn" where
  "send_on env cfg conn =
     (case SetDeadline (Some (sd_now env + sg_timeout cfg)) conn of
        (Some err, c1) \<Rightarrow> ((exitError, [], ''gocloak-send: '' @ emsg err @ nl), c1)
      | (None, c1) \<Rightarrow>
          (case Send (sg_message cfg) (conn_at (sd_send env) c1) of
             (Inl err, c2) \<Rightarrow> ((exitError, [], ''gocloak-send: '' @ emsg err @ nl), c2)
           | (Inr ack, c2) \<Rightarrow>
               ((exitOK, ''sent '' @ show_nat (length (sg_message cfg)) @ '' bytes, ack in ''
                    @ show_int (sd_elapsed env div millisecond) @ ''ms'' @ nl, []), c2)))"

text \<open>
  \<^verbatim>\<open>sendMessage\<close> with its deferred closes: the exit code, the output and the error output, the
  connection it opened, the client it built, the libraries.
\<close>

definition sendMessage :: "'w sendenv \<Rightarrow> sendConfig \<Rightarrow> 'w
    \<Rightarrow> (int \<times> string \<times> string) \<times> conn option \<times> Client option \<times> 'w" where
  "sendMessage env cfg w =
     (case newClient (sd_lib env) (sd_osw env) (sd_lookup env) (send_client cfg) w of
        (Inl err, w1) \<Rightarrow> (case reportError err of (code, text') \<Rightarrow> ((code, [], text'), None, None, w1))
      | (Inr client, w1) \<Rightarrow>
          (case send_dial env cfg (client, w1) of
             (Inl err, opened, st) \<Rightarrow>
               (case client_Close (sd_lib env) st of (_, client', w2) \<Rightarrow>
                (case reportError err of (code, text') \<Rightarrow> ((code, [], text'), opened, Some client', w2)))
           | (Inr conn, _, st) \<Rightarrow>
               (case send_on env cfg conn of (r, c1) \<Rightarrow>
                (case client_Close (sd_lib env) st of (_, client', w2) \<Rightarrow>
                   (r, Some (conn_close c1), Some client', w2)))))"

definition send_run :: "(string \<Rightarrow> string) \<Rightarrow> 'w sendenv \<Rightarrow> string list \<Rightarrow> 'w \<Rightarrow> (int \<times> string \<times> string) \<times> 'w" where
  "send_run addrErr env args w =
     (case parseArgs addrErr args of
        Inl (code, text') \<Rightarrow> ((code, [], text'), w)
      | Inr cfg \<Rightarrow> (case sendMessage env cfg w of (r, _, _, w') \<Rightarrow> (r, w')))"

section \<open>Lemmas\<close>

definition send_names :: "string list" where
  "send_names = [''endpoint'', ''key'', ''psk'', ''server-key'', ''service'', ''timeout'', ''tunnel-ip'']"

lemma send_flag_found:
  assumes "k \<in> set send_names" "k = ''timeout'' \<longrightarrow> ParseDuration v \<noteq> None"
  shows "plain_name k \<and> (\<exists>f. find_flag send_flags k = Some f \<and> fl_check f v)"
proof -
  have "plain_name k" using assms(1) by (auto simp: send_names_def plain_name_def)
  moreover have "\<exists>f. find_flag send_flags k = Some f \<and> (k \<noteq> ''timeout'' \<longrightarrow> fl_check f v)
      \<and> (k = ''timeout'' \<longrightarrow> fl_check f v = (ParseDuration v \<noteq> None))"
    using assms(1) by (auto simp: send_names_def find_flag_def send_flags_def string_flag_def)
  ultimately show ?thesis using assms(2) by auto
qed

lemma send_line_parses:
  assumes "\<forall>(k, v) \<in> set kvs. k \<in> set send_names \<and> (k = ''timeout'' \<longrightarrow> ParseDuration v \<noteq> None)"
    and "message = [] \<or> hd message \<noteq> CHR ''-''"
  shows "flag_Parse send_flags (flag_args kvs @ message # extra) (\<lambda>_. None) = Inr (map_of (rev kvs), message # extra)"
proof -
  have "flag_Parse send_flags (flag_args kvs @ message # extra) Map.empty = Inr (Map.empty ++ map_of (rev kvs), message # extra)"
  proof (rule flag_Parse_args)
    show "\<forall>(k, v) \<in> set kvs. plain_name k \<and> (\<exists>f. find_flag send_flags k = Some f \<and> fl_check f v)"
    proof
      fix p assume p: "p \<in> set kvs"
      obtain k v where kv: "p = (k, v)" by (cases p)
      then have "k \<in> set send_names" "k = ''timeout'' \<longrightarrow> ParseDuration v \<noteq> None" using assms(1) p by auto
      from send_flag_found [OF this]
      show "case p of (k, v) \<Rightarrow> plain_name k \<and> (\<exists>f. find_flag send_flags k = Some f \<and> fl_check f v)" by (simp add: kv)
    qed
  qed (use assms(2) in simp)
  then show ?thesis by simp
qed

lemma newClient_open:
  assumes "newClient lib osw lookup cfg w = (Inr c, w1)"
  shows "\<not> cl_closed c" "\<not> cl_closeOnce c" "cl_dialTimeout c = (if cc_DialTimeout cfg = 0 then DefaultDialTimeout else cc_DialTimeout cfg)"
  using assms
  by (auto simp: newClient_def client_checks_def andThen_def split: sum.splits prod.splits option.splits if_splits)

lemma client_Close_closed: "client_Close lib st = (e, c, w) \<Longrightarrow> cl_closed c"
  by (cases st) (auto simp: client_Close_def Let_def split: if_splits prod.splits)

lemma Dial_failed_closed: "Dial lib env henv service st = (Inl err, Some c, st') \<Longrightarrow> conn.closed c"
  by (auto simp: Dial_def conn_close_def split: if_splits prod.splits sum.splits option.splits)



lemma send_on_code: "fst (fst (send_on env cfg conn)) \<in> {exitOK, exitError}"
  by (auto simp: send_on_def split: prod.splits option.splits sum.splits)

text \<open>A deadline call on an open connection that succeeds has set the deadline and nothing else.\<close>

lemma SetDeadline_None: "SetDeadline d c = (None, c1) \<Longrightarrow> \<not> conn.closed c1 \<and> wdeadline c1 = d \<and> rx c1 = rx c \<and> tx c1 = tx c"
  by (auto simp: SetDeadline_def deadline_call_def split: if_splits list.splits option.splits)


lemma read_loop_Inr:
  "read_loop buf bs err = (Inr m, bs') \<Longrightarrow> \<exists>m'. m = buf @ m' \<and> bs = m' @ 10 # bs' \<and> 10 \<notin> set m'"
  by (induction buf bs err rule: read_loop.induct) (auto split: if_splits)

text \<open>A message that was acknowledged: what went out, what came back, and that the deadline was kept.\<close>

lemma Send_Inr:
  assumes "Send message c = (Inr ack, c2)"
  shows "tx c2 = tx c @ str_bytes (message @ [CHR 0x0A]) \<and> rx c = str_bytes ack @ 10 # rx c2 \<and> 10 \<notin> set (str_bytes ack)
    \<and> length message \<le> MaxMessageLen"
proof -
  obtain c1 line where s: "conn_write (str_bytes (message @ [CHR 0x0A])) c = (None, c1)" "readMessage c1 = (Inr line, c2)"
      "ack = bytes_str line" "length message \<le> MaxMessageLen"
    using assms by (auto simp: Send_def split: if_splits prod.splits option.splits sum.splits)
  have "rx c1 = rx c" using s(1) conn_write_rx by (metis snd_conv)
  moreover obtain bs where "read_loop [] (rx c1) (stream_end c1) = (Inr line, bs)" "c2 = c1\<lparr>rx := bs\<rparr>"
    using s(2) by (auto simp: readMessage_def split: if_splits prod.splits)
  ultimately show ?thesis using conn_write_ok_tx [OF s(1)] read_loop_Inr s(3,4) by fastforce
qed

lemma conn_at_kept: "rx (conn_at t c) \<noteq> [] \<Longrightarrow> rx (conn_at t c) = rx c \<and> tx (conn_at t c) = tx c \<and> \<not> before (rdeadline c) t"
  by (auto simp: conn_at_def Let_def split: if_splits)

lemma send_on_acked:
  assumes "send_on env cfg conn = (q, c2)" "fst q = 0"
  shows "snd (snd q) = [] \<and> length (sg_message cfg) \<le> MaxMessageLen \<and> tx c2 = tx conn @ str_bytes (sg_message cfg @ [CHR 0x0A])
    \<and> (\<exists>ack. rx conn = ack @ 10 # rx c2 \<and> 10 \<notin> set ack) \<and> sd_send env < sd_now env + sg_timeout cfg"
proof -
  obtain c1 ack where d: "SetDeadline (Some (sd_now env + sg_timeout cfg)) conn = (None, c1)"
      and s: "Send (sg_message cfg) (conn_at (sd_send env) c1) = (Inr ack, c2)" and e: "snd (snd q) = []"
    using assms by (auto simp: send_on_def exitError_def split: prod.splits option.splits sum.splits)
  note a = Send_Inr [OF s]
  have k: "rx (conn_at (sd_send env) c1) = rx conn" "tx (conn_at (sd_send env) c1) = tx conn" "\<not> before (rdeadline c1) (sd_send env)"
    using a conn_at_kept [of "sd_send env" c1] SetDeadline_None [OF d] by auto
  moreover have "rdeadline c1 = Some (sd_now env + sg_timeout cfg)" using deadline_None(3) [OF d] by simp
  ultimately show ?thesis using a e by (intro conjI exI [of _ "str_bytes ack"]) (auto simp: before_def)
qed

text \<open>The refusal codes are the statuses of the server.\<close>

definition status_exit :: "status \<Rightarrow> int" where
  "status_exit st = (if st = statusDenied then 10 else if st = statusBackendUnavailable then 11
     else if st = statusRateLimited then 12 else 1)"

lemma reportError_status: "statusError st service = Some err \<Longrightarrow> fst (reportError err) = status_exit st"
  by (auto simp: reportError_def status_exit_def statusError_def send_failed_def errDenied_def errBackendUnavailable_def
      errRateLimited_def errMalformedRequest_def exitDenied_def exitBackendUnavailable_def exitRateLimited_def exitError_def
      status_defs split: if_splits)

definition example_send :: sendConfig where
  "example_send = \<lparr>sg_endpoint = ''h:7'', sg_serverKey = example_key, sg_keyRef = ''env:PSK'', sg_pskRef = ''env:PSK'',
     sg_tunnelIP = Addr4 0x0A630007, sg_service = ''db'', sg_timeout = 0, sg_message = ''hi''\<rparr>"

text \<open>A network on which the server answers with the given status.\<close>

definition example_sendenv :: "byte \<Rightarrow> wg_table sendenv" where
  "example_sendenv st = \<lparr>sd_lib = fresh_lib, sd_osw = example_keyworld, sd_lookup = (\<lambda>_. Inr [Addr4 5]),
     sd_dial = example_dialenv\<lparr>de_attempt := \<lambda>_ _. (Inr (fresh_conn [1, st]), 0)\<rparr>, sd_hello = (\<lambda>_. quiet_hello),
     sd_now = 0, sd_send = 0, sd_elapsed = 0\<rparr>"

lemma example_send_client: "send_client example_send = example_clientcfg"
  by (simp add: send_client_def example_send_def example_clientcfg_def)

section \<open>Properties\<close>

text \<open>
  Which command lines are accepted, and as what. On a line of flag and value pairs, in
  any order and with repetitions, followed by the message, the last value of each flag counts; the
  line is accepted if and only if the six required flags are not empty, the server key is base64 of 32 bytes and the tunnel
  address parses, and the configuration holds exactly these values; every other line ends with
  the usage code before anything is dialled.
\<close>

theorem parseArgs_exact:
  fixes kvs :: "(string \<times> string) list"
  assumes "\<forall>(k, v) \<in> set kvs. k \<in> set send_names \<and> (k = ''timeout'' \<longrightarrow> ParseDuration v \<noteq> None)"
    and "message = [] \<or> hd message \<noteq> CHR ''-''"
  defines "val \<equiv> \<lambda>k. case map_of (rev kvs) k of None \<Rightarrow> [] | Some v \<Rightarrow> v"
  shows "(case parseArgs addrErr (flag_args kvs @ message # extra) of
      Inr cfg \<Rightarrow> (\<forall>k \<in> set send_names. k \<noteq> ''timeout'' \<longrightarrow> val k \<noteq> [])
        \<and> (\<exists>raw. DecodeString (val ''server-key'') = Some raw \<and> length raw = 32)
        \<and> ParseAddr (val ''tunnel-ip'') = Some (sg_tunnelIP cfg)
        \<and> cfg = \<lparr>sg_endpoint = val ''endpoint'', sg_serverKey = val ''server-key'', sg_keyRef = val ''key'', sg_pskRef = val ''psk'',
             sg_tunnelIP = sg_tunnelIP cfg, sg_service = val ''service'',
             sg_timeout = (case map_of (rev kvs) ''timeout'' of None \<Rightarrow> DefaultDialTimeout | Some v \<Rightarrow> the (ParseDuration v)),
             sg_message = message\<rparr>
    | Inl (code, _) \<Rightarrow> code = exitUsage \<and> \<not> ((\<forall>k \<in> set send_names. k \<noteq> ''timeout'' \<longrightarrow> val k \<noteq> [])
        \<and> (\<exists>raw. DecodeString (val ''server-key'') = Some raw \<and> length raw = 32) \<and> ParseAddr (val ''tunnel-ip'') \<noteq> None))"
proof -
  have v: "flag_value (map_of (rev kvs)) k [] = val k" for k by (simp add: flag_value_def val_def)
  have m: "missing_flags (map_of (rev kvs)) (message # extra) = [] \<longleftrightarrow> (\<forall>k \<in> set send_names. k \<noteq> ''timeout'' \<longrightarrow> val k \<noteq> [])"
    by (auto simp: missing_flags_def send_names_def v)
  show ?thesis
    unfolding parseArgs_def send_line_parses [OF assms(1,2)]
    by (auto simp: v m Let_def send_wgKeyLen_def split: option.splits)
qed

theorem parseArgs_exact_witness:
  "\<exists>cfg. parseArgs (\<lambda>_. []) (flag_args [(''endpoint'', ''h:7''), (''server-key'', example_key), (''key'', ''env:K''), (''psk'', ''env:P''),
     (''tunnel-ip'', ''10.99.0.7''), (''service'', ''web''), (''service'', ''db'')] @ ''hi'' # []) = Inr cfg
     \<and> sg_service cfg = ''db'' \<and> sg_message cfg = ''hi'' \<and> sg_timeout cfg = DefaultDialTimeout"
proof -
  let ?kvs = "[(''endpoint'', ''h:7''), (''server-key'', example_key), (''key'', ''env:K''), (''psk'', ''env:P''),
     (''tunnel-ip'', ''10.99.0.7''), (''service'', ''web''), (''service'', ''db'')]"
  have k: "\<forall>(k, v) \<in> set ?kvs. k \<in> set send_names \<and> (k = ''timeout'' \<longrightarrow> ParseDuration v \<noteq> None)"
    by (simp add: send_names_def)
  obtain raw where raw: "DecodeString example_key = Some raw" "length raw = 32"
    using validPublicKey_decodes [OF example_parse(1)] by (auto simp: wgKeyLen_def)
  have n: "example_key \<noteq> []" by (simp add: example_key_def)
  from parseArgs_exact [OF k, of "''hi''" "\<lambda>_. []" "[]"]
  show ?thesis
    using raw n example_addrs(1)
    by (cases "parseArgs (\<lambda>_. []) (flag_args ?kvs @ ''hi'' # [])") (auto simp: send_names_def split: prod.splits, (metis sendConfig.select_convs)+)
qed

text \<open>
  Claim C34. The exit code is the server's verdict. When the tunnel comes up and the server's
  answer to the hello is a status, a script sees that status: 10 for a denied service, 11 for a
  backend that did not answer, 12 for the limits, 1 for a request the server calls malformed; and
  for an accepted service the code is 0 exactly when the message then was written and acknowledged.
\<close>

theorem exit_code_is_the_verdict:
  fixes env :: "'w sendenv"
  assumes "newClient (sd_lib env) (sd_osw env) (sd_lookup env) (send_client cfg) w = (Inr client, w1)"
    and "ValidServiceName (sg_service cfg)"
    and "dialControl (sd_lib env) ((sd_dial env)\<lparr>de_deadline := Some (send_deadline env cfg), de_cancel := None\<rparr>) (client, w1)
      = (Inr conn, st', t)"
    and "sound_conn conn" "rx conn = frameVersion # verdict # rest" "validStatus verdict" "he_done (sd_hello env t) = None"
  shows "if verdict = statusOK
    then \<exists>c. fst (send_dial env cfg (client, w1)) = Inr c \<and> rx c = rest
      \<and> (fst (fst (sendMessage env cfg w)) = 0 \<longleftrightarrow>
          (\<exists>c1 ack. SetDeadline (Some (sd_now env + sg_timeout cfg)) c = (None, c1)
             \<and> fst (Send (sg_message cfg) (conn_at (sd_send env) c1)) = Inr ack))
    else fst (fst (sendMessage env cfg w)) = status_exit verdict"
proof -
  let ?h = "(sd_hello env t)\<lparr>he_deadline := Some (send_deadline env cfg)\<rparr>"
  have r: "fst (readHelloResponse conn) = Inr verdict"
    using assms(4-6) by (simp add: readHelloResponse_def read_full_def sound_conn_def)
  have hd: "he_done ?h = None" using assms(7) by simp
  obtain e c1 where h: "hello ?h (fst st') conn (sg_service cfg) = (e, c1)" by fastforce
  have "\<not> waiting (rxend conn) \<or> 2 \<le> length (rx conn)" using assms(5) by simp
  from hello_sound [OF assms(4,2) hd this, of "fst st'"]
  have e: "e = statusError verdict (sg_service cfg)" using r h by simp
  have d: "send_dial env cfg (client, w1) = (case e of Some err \<Rightarrow> (Inl err, Some (conn_close c1), st') | None \<Rightarrow> (Inr c1, Some c1, st'))"
    using newClient_open(1) [OF assms(1)] assms(2,3) h by (simp add: send_dial_def Dial_def)
  obtain x cl w2 where cc: "client_Close (sd_lib env) st' = (x, cl, w2)" by (metis prod_cases3)
  show ?thesis
  proof (cases "verdict = statusOK")
    case True
    then have n: "e = None" using e by (simp add: statusError_None)
    have "rx c1 = rest" using hello_None [OF h [unfolded n]] assms(5) by simp
    moreover have "fst (fst (send_on env cfg c1)) = 0 \<longleftrightarrow>
        (\<exists>c2 ack. SetDeadline (Some (sd_now env + sg_timeout cfg)) c1 = (None, c2)
           \<and> fst (Send (sg_message cfg) (conn_at (sd_send env) c2)) = Inr ack)"
      by (auto simp: send_on_def exitOK_def exitError_def split: prod.splits option.splits sum.splits)
    ultimately show ?thesis
      using True d n assms(1) cc by (auto simp: sendMessage_def split: prod.splits)
  next
    case False
    then obtain err where n: "e = Some err" using e statusError_None [of verdict "sg_service cfg"] by (metis not_None_eq)
    have "fst (reportError err) = status_exit verdict" using reportError_status e n by metis
    then show ?thesis using False d n assms(1) cc by (auto simp: sendMessage_def split: prod.splits)
  qed
qed

theorem exit_code_is_the_verdict_witness:
  "fst (fst (sendMessage (example_sendenv 1) example_send empty_table)) = 10
   \<and> fst (fst (sendMessage (example_sendenv 2) example_send empty_table)) = 11"
proof -
  obtain c w1 where c: "newClient fresh_lib example_keyworld (\<lambda>_. Inr [Addr4 5]) example_clientcfg empty_table = (Inr c, w1)"
    using example_newClient by blast
  have x: "fst (fst (sendMessage (example_sendenv st) example_send empty_table)) = status_exit st"
    if st: "st = 1 \<or> st = 2" for st
  proof -
    have n: "newClient (sd_lib (example_sendenv st)) (sd_osw (example_sendenv st)) (sd_lookup (example_sendenv st))
        (send_client example_send) empty_table = (Inr c, w1)"
      using c by (simp add: example_send_client, simp add: example_sendenv_def)
    have d: "dialControl (sd_lib (example_sendenv st)) ((sd_dial (example_sendenv st))
        \<lparr>de_deadline := Some (send_deadline (example_sendenv st) example_send), de_cancel := None\<rparr>) (c, w1)
        = (Inr (fresh_conn [1, st]), (c, w1), 0)"
      by (simp add: dialControl_def dial_loop.simps example_sendenv_def example_dialenv_def)
    have v: "ValidServiceName (sg_service example_send)" using example_names(3) by (simp add: example_send_def)
    have "sound_conn (fresh_conn [1, st])" by (simp add: sound_conn_def)
    from exit_code_is_the_verdict [OF n v d this, of st "[]"]
    show ?thesis using st by (auto simp: frameVersion_def validStatus_def example_sendenv_def quiet_hello_def status_defs)
  qed
  show ?thesis
    using x [of 1] x [of 2] by (simp add: status_exit_def statusDenied_def statusBackendUnavailable_def)
qed

text \<open>
  Claim C35. Nothing is left open, and success means an acknowledgement. On every path, the connection
  the command opened is closed and the client it built is closed. Exit code 0 means that the client was
  built and its dial of the service gave a connection; that the message, within the limit, and its
  newline are what was written to that very connection, before its deadline; and that what arrived on it
  began with a complete line, which has been read: only what follows the line is left.
\<close>

theorem send_cleans_up:
  assumes "sendMessage env cfg w = ((code, out, err), opened, client, w')"
  shows "(\<forall>c. opened = Some c \<longrightarrow> conn.closed c) \<and> (\<forall>c. client = Some c \<longrightarrow> cl_closed c)
    \<and> (code = 0 \<longrightarrow> (\<exists>cl w1 c0 st c ack.
          newClient (sd_lib env) (sd_osw env) (sd_lookup env) (send_client cfg) w = (Inr cl, w1)
        \<and> send_dial env cfg (cl, w1) = (Inr c0, Some c0, st) \<and> opened = Some c \<and> err = []
        \<and> length (sg_message cfg) \<le> MaxMessageLen \<and> sd_send env < sd_now env + sg_timeout cfg
        \<and> tx c = tx c0 @ str_bytes (sg_message cfg @ [CHR 0x0A]) \<and> rx c0 = ack @ 10 # rx c \<and> 10 \<notin> set ack))"
proof -
  have nz: "fst (reportError e) \<noteq> 0" for e
    by (simp add: reportError_def send_failed_def exitHandshakeTimeout_def exitDenied_def exitBackendUnavailable_def
        exitRateLimited_def exitInvalidServiceName_def exitError_def)
  show ?thesis
  proof (cases "fst (newClient (sd_lib env) (sd_osw env) (sd_lookup env) (send_client cfg) w)")
    case (Inl e)
    then show ?thesis using assms nz [of e] by (auto simp: sendMessage_def split: prod.splits)
  next
    case (Inr cl)
    then obtain w1 where n: "newClient (sd_lib env) (sd_osw env) (sd_lookup env) (send_client cfg) w = (Inr cl, w1)"
      by (metis prod.collapse)
    obtain r op st where d: "send_dial env cfg (cl, w1) = (r, op, st)" by (metis prod_cases3)
    obtain x cl' w2 where cc: "client_Close (sd_lib env) st = (x, cl', w2)" by (metis prod_cases3)
    have closed: "cl_closed cl'" by (rule client_Close_closed [OF cc])
    show ?thesis
    proof (cases r)
      case (Inl e)
      have "op = Some c \<Longrightarrow> conn.closed c" for c
        using Dial_failed_closed d Inl unfolding send_dial_def by metis
      then show ?thesis
        using assms n d Inl cc closed nz [of e] by (auto simp: sendMessage_def split: prod.splits)
    next
      case (Inr conn)
      obtain q c1 where q: "send_on env cfg conn = (q, c1)" by fastforce
      have "op = Some conn"
        using d Inr by (auto simp: send_dial_def Dial_def split: if_splits prod.splits sum.splits option.splits)
      then show ?thesis
        using assms n d Inr cc closed q send_on_acked [OF q]
        by (auto simp: sendMessage_def conn_close_def split: prod.splits)
    qed
  qed
qed

text \<open>A server that accepts the service, with a sink behind it that acknowledges the two bytes of the message.\<close>

definition example_acked :: "wg_table sendenv" where
  "example_acked = (example_sendenv 0)\<lparr>sd_dial := example_dialenv\<lparr>de_attempt :=
     \<lambda>_ _. (Inr (fresh_conn (1 # 0 # str_bytes ''ACK 2'' @ [10])), 0)\<rparr>\<rparr>"

definition example_patient :: sendConfig where
  "example_patient = example_send\<lparr>sg_timeout := second\<rparr>"

lemma example_acked_dial:
  "\<not> cl_closed c \<Longrightarrow> send_dial example_acked example_patient (c, w1) =
     (let k = (fresh_conn (str_bytes ''ACK 2'' @ [10]))\<lparr>tx := hello_frame ''db''\<rparr> in (Inr k, Some k, (c, w1)))"
  using example_names(3)
  by (simp add: send_dial_def Dial_def example_patient_def example_send_def example_acked_def example_sendenv_def dialControl_def
      dial_loop.simps hello_def quiet_hello_def watchdog_def reached_def
      SetWriteDeadline_def SetReadDeadline_def SetDeadline_def deadline_call_def writeHelloRequest_def conn_write_def
      readHelloResponse_def read_full_def frameVersion_def validStatus_def statusOK_def statusError_def finishHello_def
      example_dialenv_def fresh_conn_def Let_def)

lemma example_acked_code: "fst (fst (sendMessage example_acked example_patient empty_table)) = 0"
proof -
  let ?k = "(fresh_conn (str_bytes ''ACK 2'' @ [10]))\<lparr>tx := hello_frame ''db''\<rparr>"
  have sc: "send_client example_patient = example_clientcfg\<lparr>cc_DialTimeout := second\<rparr>"
    by (simp add: send_client_def example_patient_def example_send_def example_clientcfg_def)
  obtain c w1 where n: "newClient fresh_lib example_keyworld (\<lambda>_. Inr [Addr4 5]) (send_client example_patient) empty_table = (Inr c, w1)"
    using example_newClient_timeout [of second empty_table] by (auto simp: sc second_def)
  have e: "sd_lib example_acked = fresh_lib" "sd_osw example_acked = example_keyworld" "sd_lookup example_acked = (\<lambda>_. Inr [Addr4 5])"
      "sd_now example_acked = 0" "sd_send example_acked = 0" "sg_timeout example_patient = second" "sg_message example_patient = ''hi''"
    by (simp_all add: example_acked_def example_sendenv_def example_patient_def example_send_def)
  have m: "10 \<notin> set (str_bytes ''ACK 2'')" by code_simp
  have "fst (fst (send_on example_acked example_patient ?k)) = 0"
    using m by (simp add: send_on_def e SetDeadline_def deadline_call_def conn_at_def before_def second_def Send_def MaxMessageLen_def
        conn_write_def readMessage_line [of _ "str_bytes ''ACK 2''" "[]"] message_ok_def exitOK_def Let_def)
  moreover obtain x cl w2 where "client_Close fresh_lib (c, w1) = (x, cl, w2)" by (metis prod_cases3)
  ultimately show ?thesis
    using n newClient_open(1) [OF n] by (simp add: sendMessage_def e example_acked_dial Let_def case_prod_unfold)
qed

theorem send_cleans_up_witness:
  "\<exists>c. fst (snd (sendMessage example_acked example_patient empty_table)) = Some c \<and> conn.closed c
     \<and> tx c = hello_frame ''db'' @ str_bytes [CHR ''h'', CHR ''i'', CHR 0x0A] \<and> rx c = []"
proof -
  obtain code out err opened client w' where
      r: "sendMessage example_acked example_patient empty_table = ((code, out, err), opened, client, w')"
    by (metis prod.collapse)
  then have "code = 0" using example_acked_code by simp
  then obtain cl w1 c0 st c ack where
      c: "newClient (sd_lib example_acked) (sd_osw example_acked) (sd_lookup example_acked) (send_client example_patient) empty_table = (Inr cl, w1)"
        "send_dial example_acked example_patient (cl, w1) = (Inr c0, Some c0, st)" "opened = Some c" "conn.closed c"
        "tx c = tx c0 @ str_bytes (sg_message example_patient @ [CHR 0x0A])" "rx c0 = ack @ 10 # rx c" "10 \<notin> set ack"
    using send_cleans_up [OF r] by blast
  have "c0 = (fresh_conn (str_bytes ''ACK 2'' @ [10]))\<lparr>tx := hello_frame ''db''\<rparr>"
    using c(2) newClient_open(1) [OF c(1)] by (simp add: example_acked_dial Let_def)
  moreover have "10 \<notin> set (str_bytes ''ACK 2'')" by code_simp
  then have "rx c = []" if "str_bytes ''ACK 2'' @ [10] = ack @ 10 # rx c"
    using that c(7) append_Cons_eq_iff [of 10 "str_bytes ''ACK 2''" "[]" ack "rx c"] by simp
  ultimately show ?thesis using c r by (simp add: example_patient_def example_send_def)
qed



end
