(* ===== verification/AwsSecrets.thy ===== *)
theory AwsSecrets
  imports Secret Scrub Gofmt
begin

text \<open>
  \<^verbatim>\<open>src/awssecrets/awssecrets.go\<close>: the resolver for references to AWS. The two AWS clients
  are parameters: functions from the request to the response or an error, or none when the resolver
  was not built with \<^verbatim>\<open>New\<close>. Pointers of a response that may be nil are options.
\<close>

section \<open>Definitions\<close>

record smOutput =
  so_SecretString :: "string option"
  so_SecretBinary :: "string option"

record ssmInput =
  si_Name :: string
  si_WithDecryption :: bool

record ssmParam =
  sp_Value :: "string option"

record ssmOutput =
  so_Parameter :: "ssmParam option"

type_synonym secretsManagerAPI = "string \<Rightarrow> smOutput option result"
type_synonym ssmAPI = "ssmInput \<Rightarrow> ssmOutput option result"

record awsResolver =
  rs_sm :: "secretsManagerAPI option"
  rs_ssm :: "ssmAPI option"

text \<open>\<^verbatim>\<open>New\<close>: both clients from the ambient configuration, or its error.\<close>

definition aws_New :: "'c result \<Rightarrow> ('c \<Rightarrow> secretsManagerAPI) \<Rightarrow> ('c \<Rightarrow> ssmAPI) \<Rightarrow> awsResolver result" where
  "aws_New loaded newSM newSSM =
     (case loaded of
        Inl err \<Rightarrow> Inl (errorf_w ''awssecrets: load AWS config: '' err '''')
      | Inr cfg \<Rightarrow> Inr \<lparr>rs_sm = Some (newSM cfg), rs_ssm = Some (newSSM cfg)\<rparr>)"

definition parseRef :: "SecretRef \<Rightarrow> (string \<times> string) result" where
  "parseRef s =
     (if s = [] then Inl (errors_New ''awssecrets: empty reference'')
      else case str_cut s (CHR '':'') of (head, rest, ok) \<Rightarrow>
        if \<not> ok \<or> head \<noteq> ''aws''
        then Inl (errors_New (''awssecrets: reference '' @ quote s @ '' is not an aws: reference''))
        else (case str_cut rest (CHR '':'') of (sub, payload, ok) \<Rightarrow>
          if \<not> ok \<or> sub = []
          then Inl (errors_New (''awssecrets: reference '' @ quote s
                 @ '' has no aws sub-scheme, want aws:sm:<secret-id> or aws:ssm:<parameter>''))
          else if payload = [] then Inl (errors_New (''awssecrets: empty payload in reference '' @ quote s))
          else Inr (''aws:'' @ sub, payload)))"

definition secretsManager :: "awsResolver \<Rightarrow> string \<Rightarrow> string result" where
  "secretsManager r sid =
     (case rs_sm r of
        None \<Rightarrow> Inl (errors_New ''awssecrets: no Secrets Manager client; build the Resolver with New'')
      | Some GetSecretValue \<Rightarrow>
          (case GetSecretValue sid of
             Inl err \<Rightarrow> Inl (errorf_w (''awssecrets: aws:sm:'' @ sid @ '': '') err '''')
           | Inr None \<Rightarrow> Inl (errors_New (''awssecrets: aws:sm:'' @ sid @ '': no secret value returned''))
           | Inr (Some out) \<Rightarrow>
               (case so_SecretString out of
                  Some v \<Rightarrow> Inr v
                | None \<Rightarrow>
                    (case so_SecretBinary out of
                       Some v \<Rightarrow> Inr v
                     | None \<Rightarrow> Inl (errors_New (''awssecrets: aws:sm:'' @ sid @ '': no secret value returned''))))))"

definition ssmParameter :: "awsResolver \<Rightarrow> string \<Rightarrow> string result" where
  "ssmParameter r name =
     (case rs_ssm r of
        None \<Rightarrow> Inl (errors_New ''awssecrets: no SSM client; build the Resolver with New'')
      | Some GetParameter \<Rightarrow>
          (case GetParameter \<lparr>si_Name = name, si_WithDecryption = True\<rparr> of
             Inl err \<Rightarrow> Inl (errorf_w (''awssecrets: aws:ssm:'' @ name @ '': '') err '''')
           | Inr out \<Rightarrow>
               (case Option.bind (Option.bind out so_Parameter) sp_Value of
                  None \<Rightarrow> Inl (errors_New (''awssecrets: aws:ssm:'' @ name @ '': no parameter value returned''))
                | Some v \<Rightarrow> Inr v)))"

definition ResolveSecret :: "awsResolver \<Rightarrow> SecretRef \<Rightarrow> string result" where
  "ResolveSecret r ref =
     (case parseRef ref of
        Inl err \<Rightarrow> Inl err
      | Inr (scheme, payload) \<Rightarrow>
          if scheme = ''aws:sm'' then secretsManager r payload
          else if scheme = ''aws:ssm'' then ssmParameter r payload
          else Inl (errors_New (''awssecrets: unknown scheme '' @ quote scheme @ '', want aws:sm or aws:ssm'')))"

section \<open>Lemmas\<close>

lemma str_cut_True: "str_cut s c = (a, b, True) \<longleftrightarrow> s = a @ c # b \<and> c \<notin> set a"
proof
  assume "str_cut s c = (a, b, True)"
  then obtain i where i: "index_byte s c = Some i" "a = take i s" "b = drop (Suc i) s"
    by (auto simp: str_cut_def split: option.splits)
  then show "s = a @ c # b \<and> c \<notin> set a" using index_byte_split [OF i(1)] index_byte_Some [OF i(1)] by simp
qed (auto simp: str_cut_def)

text \<open>Parsing is the inverse of writing a reference: nothing else parses.\<close>

lemma parseRef_Inr:
  "parseRef ref = Inr (scheme, payload) \<longleftrightarrow>
     (\<exists>sub. scheme = ''aws:'' @ sub \<and> ref = scheme @ '':'' @ payload \<and> sub \<noteq> [] \<and> CHR '':'' \<notin> set sub \<and> payload \<noteq> [])"
proof
  assume a: "parseRef ref = Inr (scheme, payload)"
  obtain hd1 rest ok where c1: "str_cut ref (CHR '':'') = (hd1, rest, ok)" by (metis prod_cases3)
  obtain sub p ok2 where c2: "str_cut rest (CHR '':'') = (sub, p, ok2)" by (metis prod_cases3)
  have "ok" "hd1 = ''aws''" "ok2" "sub \<noteq> []" "p \<noteq> []" "scheme = ''aws:'' @ sub" "payload = p"
    using a by (auto simp: parseRef_def c1 c2 split: if_splits)
  moreover from this have "ref = ''aws'' @ CHR '':'' # rest" "rest = sub @ CHR '':'' # p" "CHR '':'' \<notin> set sub"
    using c1 c2 by (simp_all add: str_cut_True)
  ultimately show "\<exists>sub. scheme = ''aws:'' @ sub \<and> ref = scheme @ '':'' @ payload \<and> sub \<noteq> [] \<and> CHR '':'' \<notin> set sub \<and> payload \<noteq> []"
    by auto
next
  assume "\<exists>sub. scheme = ''aws:'' @ sub \<and> ref = scheme @ '':'' @ payload \<and> sub \<noteq> [] \<and> CHR '':'' \<notin> set sub \<and> payload \<noteq> []"
  then obtain sub where s: "scheme = ''aws:'' @ sub" "ref = scheme @ '':'' @ payload" "sub \<noteq> []" "CHR '':'' \<notin> set sub" "payload \<noteq> []"
    by blast
  have "str_cut ref (CHR '':'') = (''aws'', sub @ CHR '':'' # payload, True)"
    "str_cut (sub @ CHR '':'' # payload) (CHR '':'') = (sub, payload, True)"
    using s by (simp_all add: str_cut_True)
  then show "parseRef ref = Inr (scheme, payload)" using s by (simp add: parseRef_def)
qed

lemma secretsManager_Inr:
  "secretsManager r sid = Inr v \<longleftrightarrow> (\<exists>get out. rs_sm r = Some get \<and> get sid = Inr (Some out)
     \<and> (so_SecretString out = Some v \<or> so_SecretString out = None \<and> so_SecretBinary out = Some v))"
  by (auto simp: secretsManager_def split: option.splits sum.splits)

lemma ssmParameter_Inr:
  "ssmParameter r name = Inr v \<longleftrightarrow> (\<exists>get out p. rs_ssm r = Some get
     \<and> get \<lparr>si_Name = name, si_WithDecryption = True\<rparr> = Inr (Some out) \<and> so_Parameter out = Some p \<and> sp_Value p = Some v)"
  by (auto simp: ssmParameter_def bind_eq_Some_conv split: option.splits sum.splits)

text \<open>The value of a secret in AWS, by the reference.\<close>

definition aws_value :: "awsResolver \<Rightarrow> SecretRef \<Rightarrow> string \<Rightarrow> bool" where
  "aws_value r ref v =
     ((\<exists>sid get out. ref = ''aws:sm:'' @ sid \<and> sid \<noteq> [] \<and> rs_sm r = Some get \<and> get sid = Inr (Some out)
         \<and> (so_SecretString out = Some v \<or> so_SecretString out = None \<and> so_SecretBinary out = Some v))
      \<or> (\<exists>name get out p. ref = ''aws:ssm:'' @ name \<and> name \<noteq> [] \<and> rs_ssm r = Some get
         \<and> get \<lparr>si_Name = name, si_WithDecryption = True\<rparr> = Inr (Some out) \<and> so_Parameter out = Some p \<and> sp_Value p = Some v))"

lemma ResolveSecret_Inr: "ResolveSecret r ref = Inr v \<longleftrightarrow> aws_value r ref v"
proof -
  have sm: "parseRef (''aws:sm:'' @ p) = Inr (''aws:sm'', p)" if "p \<noteq> []" for p
    using that by (subst parseRef_Inr) (auto intro: exI [of _ "''sm''"])
  have ssm: "parseRef (''aws:ssm:'' @ p) = Inr (''aws:ssm'', p)" if "p \<noteq> []" for p
    using that by (subst parseRef_Inr) (auto intro: exI [of _ "''ssm''"])
  show ?thesis
  proof
    assume a: "ResolveSecret r ref = Inr v"
    then obtain scheme payload where p: "parseRef ref = Inr (scheme, payload)"
      by (auto simp: ResolveSecret_def split: sum.splits)
    then have f: "ref = scheme @ '':'' @ payload" "payload \<noteq> []" using parseRef_Inr by blast+
    from a p have "scheme = ''aws:sm'' \<and> secretsManager r payload = Inr v \<or> scheme = ''aws:ssm'' \<and> ssmParameter r payload = Inr v"
      by (auto simp: ResolveSecret_def split: if_splits)
    then show "aws_value r ref v"
      using f by (auto simp: aws_value_def secretsManager_Inr ssmParameter_Inr)
  next
    assume "aws_value r ref v"
    then show "ResolveSecret r ref = Inr v"
      unfolding aws_value_def
    proof (elim disjE exE conjE)
      fix sid get out assume "ref = ''aws:sm:'' @ sid" "sid \<noteq> []" "rs_sm r = Some get" "get sid = Inr (Some out)"
        "so_SecretString out = Some v"
      then show ?thesis using sm [of sid] by (auto simp: ResolveSecret_def secretsManager_def)
    next
      fix sid get out assume "ref = ''aws:sm:'' @ sid" "sid \<noteq> []" "rs_sm r = Some get" "get sid = Inr (Some out)"
        "so_SecretString out = None" "so_SecretBinary out = Some v"
      then show ?thesis using sm [of sid] by (auto simp: ResolveSecret_def secretsManager_def)
    next
      fix name get out p assume "ref = ''aws:ssm:'' @ name" "name \<noteq> []" "rs_ssm r = Some get"
        "get \<lparr>si_Name = name, si_WithDecryption = True\<rparr> = Inr (Some out)" "so_Parameter out = Some p" "sp_Value p = Some v"
      then show ?thesis using ssm [of name] by (auto simp: ResolveSecret_def ssmParameter_def)
    qed
  qed
qed

text \<open>The resolver is a store in the sense of the core.\<close>

interpretation aws: secret_store "ResolveSecret r" "aws_value r" for r
  by unfold_locales (rule ResolveSecret_Inr)

section \<open>Properties\<close>

text \<open>
  Claim C36. Which value an AWS reference has, end to end. Through the resolver of the core package,
  a reference with the scheme \<^verbatim>\<open>aws\<close> resolves to a value if and only if it is
  \<^verbatim>\<open>aws:sm:\<close> and the identifier of a secret, whose text or else whose binary content is that
  value, or \<^verbatim>\<open>aws:ssm:\<close> and the name of a parameter, read with decryption, that has that
  value; and the value is not empty. No part of the reference ever stands in for the value.
\<close>

theorem aws_resolution_exact:
  assumes "x \<noteq> []"
  shows "secret_Resolve (Some (ResolveSecret r)) w (''aws:'' @ x) = Inr (Secret v) \<longleftrightarrow> v \<noteq> [] \<and> aws_value r (''aws:'' @ x) v"
  using aws.resolves [where s = "''aws''" and p = x and w = w and v = v and r = r] assms by (simp add: validSchemeName_def is_lower_def)

definition example_aws :: awsResolver where
  "example_aws = \<lparr>rs_sm = Some (\<lambda>sid. if sid = ''a:b'' then Inr (Some \<lparr>so_SecretString = None, so_SecretBinary = Some ''k''\<rparr>)
       else Inr None), rs_ssm = None\<rparr>"

definition example_os :: osworld where
  "example_os = \<lparr>os_open = (\<lambda>_. Inl io_EOF), os_env = (\<lambda>_. None)\<rparr>"

theorem aws_resolution_exact_witness:
  "secret_Resolve (Some (ResolveSecret example_aws)) example_os ''aws:sm:a:b'' = Inr (Secret ''k'')
   \<and> secret_Resolve (Some (ResolveSecret example_aws)) example_os ''aws:sm:a'' \<noteq> Inr (Secret ''k'')"
  using aws_resolution_exact [of "''sm:a:b''" example_aws example_os "''k''"] aws_resolution_exact [of "''sm:a''" example_aws example_os "''k''"]
  by (simp add: aws_value_def example_aws_def)

text \<open>
  A reference can survive scrubbing. The resolver's errors quote the reference with
  \<^verbatim>\<open>%q\<close>, which escapes a double quote, and the scrubber looks for the reference as it
  is: an error for a reference with such a character still spells all of it after it has been
  scrubbed, whatever comes after the colon.
\<close>

theorem escaped_reference_survives_scrub:
  "\<exists>ref e e'. secret_Resolve (Some (ResolveSecret r)) w ref = Inl e \<and> scrubRef (Some e) ref = Some e'
     \<and> ref = ''aws:k'' @ [CHR 0x22] @ ''y'' \<and> str_contains (emsg e') (quote ref)"
proof -
  define ref where "ref = ''aws:k'' @ [CHR 0x22] @ ''y''"
  define e where "e = errorf_w ''secret: aws: resolver: '' (errors_New (''awssecrets: reference '' @ quote ref
      @ '' has no aws sub-scheme, want aws:sm:<secret-id> or aws:ssm:<parameter>'')) ''''"
  have p: "parseSecretRef ref = Inr (''aws'', ''k'' @ [CHR 0x22] @ ''y'')" unfolding ref_def by code_simp
  have a: "ResolveSecret r ref = Inl (errors_New (''awssecrets: reference '' @ quote ref
      @ '' has no aws sub-scheme, want aws:sm:<secret-id> or aws:ssm:<parameter>''))"
    by (simp add: ResolveSecret_def parseRef_def ref_def str_cut_def)
  have res: "secret_Resolve (Some (ResolveSecret r)) w ref = Inl e"
    by (simp add: secret_Resolve_def p a e_def)
  have t: "ref_tails ref = [ref, ''k'' @ [CHR 0x22] @ ''y'']" unfolding ref_def by code_simp
  have m: "fold (\<lambda>t m. replace_all m t redactedRefPlaceholder) (ref_tails ref) (emsg e) = emsg e"
    unfolding t unfolding e_def ref_def by code_simp
  have c: "str_contains (emsg e) (quote ref)"
    unfolding e_def ref_def by code_simp
  show ?thesis
    by (intro exI [of _ ref] exI [of _ e] exI [of _ "GoError (emsg e) (echain e)"] conjI res)
      (simp_all add: scrubRef_fold m c, simp add: ref_def)
qed


end
