(* ===== verification/MsgServe.thy ===== *)
theory MsgServe
  imports Msg Flags
begin

text \<open>
  \<^verbatim>\<open>Serve\<close> of \<^verbatim>\<open>src/internal/msg/msg.go\<close> as a step relation over the accept loop, the watcher
  of the context and the handler goroutines, and \<^verbatim>\<open>run\<close> of \<^verbatim>\<open>src/cmd/gocloak-sink/main.go\<close>, which ends
  with what \<^verbatim>\<open>Serve\<close> returns. A handler's step is its whole run, \<^const>\<open>ServeConn\<close>: handlers share nothing.
  A handler whose run is \<^const>\<open>StillOpen\<close> has no such step: it waits for its peer, and nothing the sink
  does changes that, since it sets no deadline and closes no connection but its own.
\<close>

section \<open>Definitions\<close>

datatype servePhase = Accepting | WaitHandlers goerror | ServeReturned goerror

text \<open>
  The phase of the accept loop, the connections whose handler runs, those whose handler has returned
  with what it did, the number accepted so far, the context's error once it is done, and whether the listener was closed.
\<close>

record serveState =
  ms_phase :: servePhase
  ms_running :: "nat \<rightharpoonup> conn"
  ms_served :: "nat \<rightharpoonup> conn \<times> (byte list list \<times> serveEnd \<times> conn)"
  ms_accepted :: "conn list"
  ms_ctx :: "goerror option"
  ms_lnClosed :: bool

definition serve_start :: serveState where
  "serve_start = \<lparr>ms_phase = Accepting, ms_running = Map.empty, ms_served = Map.empty, ms_accepted = [],
     ms_ctx = None, ms_lnClosed = False\<rparr>"

inductive msg_serve :: "serveState \<Rightarrow> serveState \<Rightarrow> bool" where
  accept: "ms_phase s = Accepting \<Longrightarrow> \<not> ms_lnClosed s \<Longrightarrow>
    msg_serve s (s\<lparr>ms_running := (ms_running s)(length (ms_accepted s) \<mapsto> c), ms_accepted := ms_accepted s @ [c]\<rparr>)"
| handler: "ms_running s i = Some c \<Longrightarrow> fst (snd (ServeConn c)) \<noteq> StillOpen \<Longrightarrow>
    msg_serve s (s\<lparr>ms_running := (ms_running s)(i := None), ms_served := (ms_served s)(i \<mapsto> (c, ServeConn c))\<rparr>)"
| ctxDone: "ms_ctx s = None \<Longrightarrow> msg_serve s (s\<lparr>ms_ctx := Some e\<rparr>)"
| watcher: "ms_ctx s \<noteq> None \<Longrightarrow> msg_serve s (s\<lparr>ms_lnClosed := True\<rparr>)"
| acceptError: "ms_phase s = Accepting \<Longrightarrow> (ms_lnClosed s \<Longrightarrow> errors_Is err NetErrClosed) \<Longrightarrow>
    msg_serve s (s\<lparr>ms_phase := WaitHandlers err\<rparr>)"
| waited: "ms_phase s = WaitHandlers err \<Longrightarrow> ms_running s = Map.empty \<Longrightarrow>
    msg_serve s (s\<lparr>ms_phase := ServeReturned (serve_return (ms_ctx s) err)\<rparr>)"


definition sink_flags :: "goflag list" where
  "sink_flags = [\<lparr>fl_name = ''listen'', fl_type = ''string'', fl_usage = ''address to listen on'',
     fl_default = quote ''127.0.0.1:19000'', fl_check = (\<lambda>_. True)\<rparr>]"

definition defaultListen :: string where "defaultListen = ''127.0.0.1:19000''"

definition sink_usage :: string where
  "sink_usage = ''gocloak-sink is a plain TCP backend service. It is NOT a goCloak'' @ nl
     @ ''peer and speaks no tunnel protocol: it is the kind of ordinary'' @ nl
     @ ''service, like the database in the README's own examples, that a'' @ nl
     @ ''gocloak server proxies to. Point a peers.yaml `allow` entry at its'' @ nl
     @ ''--listen address; do not dial --listen directly from gocloak-send.'' @ nl @ nl
     @ ''usage: gocloak-sink [--listen host:port]'' @ nl @ PrintDefaults sink_flags"

text \<open>The handler of the sink: one line of standard output for a message, with the instant it was handled as text.\<close>

definition sink_line :: "string \<times> string \<times> byte list \<Rightarrow> string" where
  "sink_line = (\<lambda>(now, addr, message). now @ '' '' @ addr @ '': '' @ bytes_str message @ nl)"

text \<open>
  \<^verbatim>\<open>run\<close> of the sink: \<open>listenOn\<close> gives the address listened on or an error. Of the run of
  \<^verbatim>\<open>Serve\<close> it sees the calls of its handler, in the order their lines were written, what the logger
  wrote, what \<^verbatim>\<open>Serve\<close> returned, and the error of the context at that moment.
\<close>

definition sink_run :: "(string \<Rightarrow> string result) \<Rightarrow> (string \<times> string \<times> byte list) list \<Rightarrow> string
    \<Rightarrow> goerror option \<times> goerror option \<Rightarrow> string list \<Rightarrow> outcome" where
  "sink_run listenOn handled logged served args =
     (case flag_Parse sink_flags args (\<lambda>_. None) of
        Inl err \<Rightarrow> \<lparr>oc_code = (if errors_Is err FlagErrHelp then 0 else 2), oc_out = [], oc_err = parse_output err sink_usage\<rparr>
      | Inr (vals, _) \<Rightarrow>
          (case listenOn (flag_value vals ''listen'' defaultListen) of
             Inl err \<Rightarrow> \<lparr>oc_code = 1, oc_out = [], oc_err = ''gocloak-sink: listen: '' @ emsg err @ nl\<rparr>
           | Inr a \<Rightarrow>
               let out = ''gocloak-sink: listening on '' @ a @ '' (plain TCP, not a goCloak peer)'' @ nl
                 @ concat (map sink_line handled) in
               (case served of
                  (Some err, None) \<Rightarrow> \<lparr>oc_code = 1, oc_out = out, oc_err = logged @ ''gocloak-sink: serve: '' @ emsg err @ nl\<rparr>
                | _ \<Rightarrow> \<lparr>oc_code = 0, oc_out = out, oc_err = logged\<rparr>)))"

section \<open>Lemmas\<close>

text \<open>
  The invariant of \<^verbatim>\<open>Serve\<close>: every accepted connection is either running or served, never both, a served one with
  what its own handler makes of it; and after the return nothing runs.
\<close>

definition served_inv :: "serveState \<Rightarrow> bool" where
  "served_inv s =
     ((\<forall>i. if i < length (ms_accepted s)
        then (ms_running s i = Some (ms_accepted s ! i) \<and> ms_served s i = None)
          \<or> (ms_running s i = None \<and> ms_served s i = Some (ms_accepted s ! i, ServeConn (ms_accepted s ! i))
              \<and> fst (snd (ServeConn (ms_accepted s ! i))) \<noteq> StillOpen)
        else ms_running s i = None \<and> ms_served s i = None)
      \<and> (ms_lnClosed s \<longrightarrow> ms_ctx s \<noteq> None)
      \<and> (case ms_phase s of ServeReturned _ \<Rightarrow> ms_running s = Map.empty | _ \<Rightarrow> True))"

lemma served_inv_start: "served_inv serve_start"
  by (simp add: served_inv_def serve_start_def)

lemma served_inv_step:
  assumes "msg_serve s s'" "served_inv s"
  shows "served_inv s'"
  using assms(1)
proof cases
  case (handler i c)
  have i: "i < length (ms_accepted s)" "c = ms_accepted s ! i" "\<not> (\<exists>e. ms_phase s = ServeReturned e)"
    using assms(2) handler(2) by (auto simp: served_inv_def split: if_splits servePhase.splits) (metis option.distinct(1) option.inject)+
  then show ?thesis using assms(2) handler(3) by (auto simp: served_inv_def handler(1) split: servePhase.splits)
next
  case (waited err)
  then show ?thesis using assms(2) unfolding served_inv_def by (auto split: if_splits)
qed (use assms(2) in \<open>auto simp: served_inv_def nth_append less_Suc_eq split: servePhase.splits\<close>)

lemma served_inv_reachable: "msg_serve\<^sup>*\<^sup>* serve_start s \<Longrightarrow> served_inv s"
  by (induction rule: rtranclp_induct) (auto intro: served_inv_start served_inv_step)

lemma serve_loop_closes: "fst (snd (ServeConn c)) \<noteq> StillOpen \<Longrightarrow> conn.closed (snd (snd (ServeConn c)))"
  by (auto simp: ServeConn_def conn_close_def split: prod.splits)

text \<open>
  \<^verbatim>\<open>Serve\<close> cannot return while one of its connections stays open, whatever happened to the context: a
  client that connects and then says nothing keeps the sink from stopping.
\<close>

lemma idle_connection_blocks_return:
  assumes "msg_serve\<^sup>*\<^sup>* serve_start s" "c \<in> set (ms_accepted s)" "fst (snd (ServeConn c)) = StillOpen"
  shows "ms_phase s \<noteq> ServeReturned e"
proof
  assume r: "ms_phase s = ServeReturned e"
  obtain i where i: "i < length (ms_accepted s)" "c = ms_accepted s ! i" using assms(2) by (auto simp: in_set_conv_nth)
  have inv: "served_inv s" by (rule served_inv_reachable [OF assms(1)])
  then have "ms_running s = Map.empty" using r by (simp add: served_inv_def)
  moreover have "ms_running s i \<noteq> None" using inv i assms(3) unfolding served_inv_def by (metis option.distinct(1))
  ultimately show False by simp
qed

lemma idle_client_is_idle: "fst (snd (ServeConn ((fresh_conn [])\<lparr>rxend := silence\<rparr>))) = StillOpen"
  by (simp add: ServeConn_def, subst serve_loop.simps) (simp add: readMessage_def stream_end_def serve_end_def fresh_conn_def)

section \<open>Properties\<close>

text \<open>
  Claim C37. \<^verbatim>\<open>Serve\<close> returns only when every connection it accepted has been served. In every
  interleaving of the accept loop, the watcher and the handlers, when it has returned no handler
  runs, and each accepted connection was handled by a run of \<^verbatim>\<open>ServeConn\<close> of its own, which ended and
  closed it. (So while a connection stays open and silent it has not returned, context or not.)
\<close>

theorem serve_waits_for_all:
  assumes "msg_serve\<^sup>*\<^sup>* serve_start s" "ms_phase s = ServeReturned e"
  shows "ms_running s = Map.empty \<and> (\<forall>i < length (ms_accepted s).
      ms_served s i = Some (ms_accepted s ! i, ServeConn (ms_accepted s ! i))
    \<and> fst (snd (ServeConn (ms_accepted s ! i))) \<noteq> StillOpen \<and> conn.closed (snd (snd (ServeConn (ms_accepted s ! i)))))"
proof -
  have inv: "served_inv s" by (rule served_inv_reachable [OF assms(1)])
  then have r: "ms_running s = Map.empty" using assms(2) by (simp add: served_inv_def)
  have "ms_served s i = Some (ms_accepted s ! i, ServeConn (ms_accepted s ! i)) \<and> fst (snd (ServeConn (ms_accepted s ! i))) \<noteq> StillOpen"
    if "i < length (ms_accepted s)" for i
    using inv that r unfolding served_inv_def by (metis option.distinct(1))
  then show ?thesis using r serve_loop_closes by blast
qed

lemma example_serve_run:
  "\<exists>s. msg_serve\<^sup>*\<^sup>* serve_start s \<and> ms_phase s = ServeReturned io_EOF \<and> ms_accepted s = [fresh_conn [104, 105, 10]]"
proof -
  let ?c = "fresh_conn [104, 105, 10]"
  define s1 where "s1 = serve_start\<lparr>ms_running := [0 \<mapsto> ?c], ms_accepted := [?c]\<rparr>"
  define s2 where "s2 = s1\<lparr>ms_running := (ms_running s1)(0 := None), ms_served := [0 \<mapsto> (?c, ServeConn ?c)]\<rparr>"
  define s3 where "s3 = s2\<lparr>ms_phase := WaitHandlers io_EOF\<rparr>"
  define s4 where "s4 = s3\<lparr>ms_phase := ServeReturned io_EOF\<rparr>"
  have t1: "msg_serve serve_start s1"
    using msg_serve.accept [of serve_start ?c] by (simp add: s1_def serve_start_def)
  have t2: "msg_serve s1 s2"
    using msg_serve.handler [of s1 0 ?c] by (simp add: s1_def s2_def serve_start_def example_sink)
  have t3: "msg_serve s2 s3"
    using msg_serve.acceptError [of s2 io_EOF] by (simp add: s1_def s2_def s3_def serve_start_def)
  have t4: "msg_serve s3 s4"
    using msg_serve.waited [of s3 io_EOF] by (simp add: s1_def s2_def s3_def s4_def serve_start_def serve_return_def)
  have "msg_serve\<^sup>*\<^sup>* serve_start s4"
    by (rule converse_rtranclp_into_rtranclp [of msg_serve, OF t1], rule converse_rtranclp_into_rtranclp [of msg_serve, OF t2],
        rule converse_rtranclp_into_rtranclp [of msg_serve, OF t3], rule r_into_rtranclp [of msg_serve, OF t4])
  then show ?thesis by (intro exI [of _ s4]) (simp add: s4_def s3_def s2_def s1_def)
qed

theorem serve_waits_for_all_witness:
  "\<exists>s. msg_serve\<^sup>*\<^sup>* serve_start s \<and> ms_phase s = ServeReturned io_EOF
     \<and> ms_served s 0 = Some (fresh_conn [104, 105, 10], ServeConn (fresh_conn [104, 105, 10]))"
proof -
  obtain s where s: "msg_serve\<^sup>*\<^sup>* serve_start s" "ms_phase s = ServeReturned io_EOF" "ms_accepted s = [fresh_conn [104, 105, 10]]"
    using example_serve_run by blast
  then show ?thesis using serve_waits_for_all [OF s(1,2)] by auto
qed

end
