(* ===== verification/Dialing.thy ===== *)
theory Dialing
  imports Client
begin

text \<open>
  Several dials of one client at once: the one-slot semaphore \<^verbatim>\<open>refreshing\<close> and the generation
  counter of \<^verbatim>\<open>src/client.go\<close>. A dial is a record with the generation it recorded before its
  first attempt and the place it has reached; \<open>refresh_piece\<close> is \<^verbatim>\<open>refreshEndpoint\<close> cut where
  another dial can act in between: taking the semaphore, the comparison of the generation, the lookup
  (one step: it ends with the context it is given),
  the call to the device, recording the address, giving the semaphore back. (The address in force is
  compared in the same piece as the device is called: only the holder of the semaphore changes it.) The relation \<open>dialing\<close> interleaves any number of dials.
\<close>

section \<open>Definitions\<close>

datatype dialPhase =
    Attempting
  | Waiting
  | Holding
  | Resolving
  | Setting addrport
  | Applying addrport
  | Releasing "goerror option"
  | Refreshed "goerror option"
  | Ended

record dial =
  dl_generation :: "64 word"
  dl_phase :: dialPhase

text \<open>
  The client and the libraries, who holds the semaphore, the dials in the order they began; and the
  history: the dials that looked the name up, those whose re-resolution completed, and whether a call
  to the device has reported an error.
\<close>

record 'w dials =
  dg_client :: Client
  dg_world :: 'w
  dg_slot :: "nat option"
  dg_dials :: "dial list"
  dg_lookups :: "nat list"
  dg_applied :: "nat list"
  dg_deviceErr :: bool

definition set_phase :: "nat \<Rightarrow> dialPhase \<Rightarrow> 'w dials \<Rightarrow> 'w dials" where
  "set_phase i p g = g\<lparr>dg_dials := (dg_dials g)[i := (dg_dials g ! i)\<lparr>dl_phase := p\<rparr>]\<rparr>"

definition phase :: "'w dials \<Rightarrow> nat \<Rightarrow> dialPhase" where
  "phase g i = dl_phase (dg_dials g ! i)"

definition refresh_piece :: "'w wglib \<Rightarrow> (string \<Rightarrow> addr list result) \<Rightarrow> nat \<Rightarrow> 'w dials \<Rightarrow> 'w dials" where
  "refresh_piece lib lookup i g =
     (let c = dg_client g; e = cl_endpoint c in
      case phase g i of
        Waiting \<Rightarrow>
          if ep_literal e then set_phase i (Refreshed None) g
          else if dg_slot g = None then set_phase i Holding (g\<lparr>dg_slot := Some i\<rparr>)
          else g
      | Holding \<Rightarrow>
          if snd (ep_current e) \<noteq> dl_generation (dg_dials g ! i) then set_phase i (Releasing None) g
          else set_phase i Resolving g
      | Resolving \<Rightarrow>
          let g1 = g\<lparr>dg_lookups := dg_lookups g @ [i]\<rparr> in
          (case resolveEndpoint lookup (ep_host e) (ep_port e) of
             Inl err \<Rightarrow> set_phase i (Releasing (Some err)) g1
           | Inr (addr, _) \<Rightarrow> set_phase i (Setting addr) g1)
      | Setting addr \<Rightarrow>
          (case set_endpoint lib addr (c, dg_world g) of
             (Some err, w') \<Rightarrow> set_phase i (Releasing (Some err)) (g\<lparr>dg_world := w', dg_deviceErr := True\<rparr>)
           | (None, w') \<Rightarrow> set_phase i (Applying addr) (g\<lparr>dg_world := w'\<rparr>))
      | Applying addr \<Rightarrow>
          set_phase i (Releasing None)
            (g\<lparr>dg_client := c\<lparr>cl_endpoint := ep_applied addr e\<rparr>, dg_applied := dg_applied g @ [i]\<rparr>)
      | Releasing r \<Rightarrow> set_phase i (Refreshed r) (g\<lparr>dg_slot := None\<rparr>)
      | _ \<Rightarrow> g)"

text \<open>
  The steps of \<^verbatim>\<open>dialControl\<close>: a dial begins and records the generation; its first attempt fails
  and it turns to the re-resolution, once; it goes on with attempts after a re-resolution that
  reported no error, and ends. Its budget can end while it waits for the semaphore. The client can be
  closed at any moment; a dial that passed the check of \<^verbatim>\<open>closed\<close> before that may still begin. What a
  lookup may answer is the parameter \<open>names\<close>.
\<close>

inductive dialing :: "'w wglib \<Rightarrow> ((string \<Rightarrow> addr list result) \<Rightarrow> bool) \<Rightarrow> 'w dials \<Rightarrow> 'w dials \<Rightarrow> bool"
  for lib names where
  begins: "dialing lib names g (g\<lparr>dg_dials := dg_dials g
      @ [\<lparr>dl_generation = snd (ep_current (cl_endpoint (dg_client g))), dl_phase = Attempting\<rparr>]\<rparr>)"
| attemptFails: "i < length (dg_dials g) \<Longrightarrow> phase g i = Attempting \<Longrightarrow> dialing lib names g (set_phase i Waiting g)"
| refreshes: "i < length (dg_dials g) \<Longrightarrow> names lookup \<Longrightarrow> dialing lib names g (refresh_piece lib lookup i g)"
| givesUp: "i < length (dg_dials g) \<Longrightarrow> phase g i = Waiting \<Longrightarrow> dialing lib names g (set_phase i (Refreshed None) g)"
| ends: "i < length (dg_dials g) \<Longrightarrow> phase g i = Attempting \<or> phase g i = Refreshed None \<Longrightarrow>
    dialing lib names g (set_phase i Ended g)"
| closes: "client_Close lib (dg_client g, dg_world g) = (r, c, w) \<Longrightarrow> dialing lib names g (g\<lparr>dg_client := c, dg_world := w\<rparr>)"

definition dials_start :: "Client \<Rightarrow> 'w \<Rightarrow> 'w dials" where
  "dials_start c w = \<lparr>dg_client = c, dg_world = w, dg_slot = None, dg_dials = [], dg_lookups = [], dg_applied = [],
     dg_deviceErr = False\<rparr>"

inductive dialled :: "'w wglib \<Rightarrow> ((string \<Rightarrow> addr list result) \<Rightarrow> bool) \<Rightarrow> Client \<Rightarrow> 'w \<Rightarrow> 'w dials \<Rightarrow> bool"
  for lib names c w where
  start: "dialled lib names c w (dials_start c w)"
| step: "dialled lib names c w g \<Longrightarrow> dialing lib names g g' \<Longrightarrow> dialled lib names c w g'"

section \<open>Specification\<close>

text \<open>The places between taking the semaphore and giving it back.\<close>

fun in_slot :: "dialPhase \<Rightarrow> bool" where
  "in_slot Holding = True"
| "in_slot Resolving = True"
| "in_slot (Setting a) = True"
| "in_slot (Applying a) = True"
| "in_slot (Releasing r) = True"
| "in_slot p = False"

text \<open>What a place says about the history of dial \<open>i\<close>, after \<open>n\<close> completed re-resolutions.\<close>

fun place_ok :: "nat \<Rightarrow> bool \<Rightarrow> bool \<Rightarrow> 64 word \<Rightarrow> dialPhase \<Rightarrow> bool" where
  "place_ok n looked done gen Resolving = (\<not> looked \<and> gen = of_nat n)"
| "place_ok n looked done gen (Setting a) = (looked \<and> \<not> done \<and> gen = of_nat n)"
| "place_ok n looked done gen (Applying a) = (looked \<and> \<not> done \<and> gen = of_nat n)"
| "place_ok n looked done gen (Releasing (Some e)) = (looked \<and> \<not> done)"
| "place_ok n looked done gen (Refreshed (Some e)) = (looked \<and> \<not> done)"
| "place_ok n looked done gen (Releasing None) = (looked \<longrightarrow> done)"
| "place_ok n looked done gen (Refreshed None) = (looked \<longrightarrow> done)"
| "place_ok n looked done gen Ended = (looked \<longrightarrow> done)"
| "place_ok n looked done gen p = (\<not> looked)"

definition dials_inv :: "'w dials \<Rightarrow> bool" where
  "dials_inv g = (
     (\<forall>i < length (dg_dials g). in_slot (phase g i) \<longleftrightarrow> dg_slot g = Some i)
     \<and> (\<forall>i. dg_slot g = Some i \<longrightarrow> i < length (dg_dials g))
     \<and> ep_generation (cl_endpoint (dg_client g)) = of_nat (length (dg_applied g))
     \<and> (\<forall>k < length (dg_applied g). dl_generation (dg_dials g ! (dg_applied g ! k)) = of_nat k)
     \<and> set (dg_applied g) \<subseteq> set (dg_lookups g) \<and> distinct (dg_lookups g) \<and> distinct (dg_applied g)
     \<and> (\<forall>i \<in> set (dg_lookups g). i < length (dg_dials g))
     \<and> (\<forall>i < length (dg_dials g). place_ok (length (dg_applied g)) (i \<in> set (dg_lookups g)) (i \<in> set (dg_applied g))
          (dl_generation (dg_dials g ! i)) (phase g i)))"

text \<open>
  The address the device has: the recorded one, or the one that the holder of the semaphore has just
  set and is about to record.
\<close>

definition believed :: "'w dials \<Rightarrow> Client" where
  "believed g = (let c = dg_client g in
     case dg_slot g of
       None \<Rightarrow> c
     | Some i \<Rightarrow> (case phase g i of
           Applying a \<Rightarrow> c\<lparr>cl_endpoint := ep_applied a (cl_endpoint c)\<rparr>
         | _ \<Rightarrow> c))"

text \<open>
  Dial \<open>i\<close> is through with its re-resolution: its result, the client and the device it leaves, the
  semaphore free, and the other dials where they were.
\<close>

definition settled :: "nat \<Rightarrow> goerror option \<Rightarrow> Client \<Rightarrow> 'w \<Rightarrow> 'w dials \<Rightarrow> 'w dials \<Rightarrow> bool" where
  "settled i r c w g g' = (phase g' i = Refreshed r \<and> dg_client g' = c \<and> dg_world g' = w \<and> dg_slot g' = None
     \<and> length (dg_dials g') = length (dg_dials g) \<and> (\<forall>j. j \<noteq> i \<longrightarrow> dg_dials g' ! j = dg_dials g ! j))"

section \<open>Lemmas\<close>

lemma set_phase_simps [simp]:
  "dg_client (set_phase i p g) = dg_client g" "dg_world (set_phase i p g) = dg_world g"
  "dg_slot (set_phase i p g) = dg_slot g" "dg_lookups (set_phase i p g) = dg_lookups g"
  "dg_applied (set_phase i p g) = dg_applied g" "dg_deviceErr (set_phase i p g) = dg_deviceErr g"
  "length (dg_dials (set_phase i p g)) = length (dg_dials g)"
  by (simp_all add: set_phase_def)

lemma set_phase_phase [simp]:
  "i < length (dg_dials g) \<Longrightarrow> phase (set_phase i p g) j = (if j = i then p else phase g j)"
  by (simp add: set_phase_def phase_def)

lemma set_phase_generation [simp]:
  "i < length (dg_dials g) \<Longrightarrow> dl_generation (dg_dials (set_phase i p g) ! j) = dl_generation (dg_dials g ! j)"
  by (cases "j = i") (simp_all add: set_phase_def)

lemma phase_fields [simp]:
  "phase (g\<lparr>dg_client := c\<rparr>) i = phase g i" "phase (g\<lparr>dg_world := w\<rparr>) i = phase g i"
  "phase (g\<lparr>dg_slot := x\<rparr>) i = phase g i" "phase (g\<lparr>dg_lookups := l\<rparr>) i = phase g i"
  "phase (g\<lparr>dg_applied := l\<rparr>) i = phase g i" "phase (g\<lparr>dg_deviceErr := b\<rparr>) i = phase g i"
  by (simp_all add: phase_def)


lemma client_Close_keeps:
  "client_Close lib (c, w) = (r, c', w') \<Longrightarrow> cl_endpoint c' = cl_endpoint c \<and> cl_closed c'"
  by (auto simp: client_Close_def Let_def split: if_splits prod.splits)

subsection \<open>The invariant\<close>

lemma inv_move:
  assumes "dials_inv g" "i < length (dg_dials g)" "in_slot p = in_slot (phase g i)"
    and "place_ok (length (dg_applied g)) (i \<in> set (dg_lookups g)) (i \<in> set (dg_applied g)) (dl_generation (dg_dials g ! i)) p"
  shows "dials_inv (set_phase i p g)"
  using assms unfolding dials_inv_def by (simp add: Ball_def)

lemma inv_take:
  assumes "dials_inv g" "i < length (dg_dials g)" "dg_slot g = None" "phase g i = Waiting"
  shows "dials_inv (set_phase i Holding (g\<lparr>dg_slot := Some i\<rparr>))"
proof -
  have "place_ok (length (dg_applied g)) (i \<in> set (dg_lookups g)) (i \<in> set (dg_applied g)) (dl_generation (dg_dials g ! i)) Waiting"
    using assms unfolding dials_inv_def by metis
  then show ?thesis using assms unfolding dials_inv_def by (simp add: Ball_def)
qed

lemma inv_release:
  assumes "dials_inv g" "i < length (dg_dials g)" "phase g i = Releasing r"
  shows "dials_inv (set_phase i (Refreshed r) (g\<lparr>dg_slot := None\<rparr>))"
proof -
  have "in_slot (phase g i)" using assms(3) by simp
  then have s: "dg_slot g = Some i" using assms(1,2) unfolding dials_inv_def by blast
  have "place_ok (length (dg_applied g)) (i \<in> set (dg_lookups g)) (i \<in> set (dg_applied g)) (dl_generation (dg_dials g ! i)) (Releasing r)"
    using assms unfolding dials_inv_def by metis
  then have "place_ok (length (dg_applied g)) (i \<in> set (dg_lookups g)) (i \<in> set (dg_applied g)) (dl_generation (dg_dials g ! i)) (Refreshed r)"
    by (cases r) simp_all
  then show ?thesis using assms(1,2) s unfolding dials_inv_def by (simp add: Ball_def)
qed

text \<open>A dial outside the semaphore does not notice that another re-resolution completed.\<close>

lemma place_ok_outside: "\<not> in_slot p \<Longrightarrow> place_ok n looked done gen p \<Longrightarrow> place_ok m looked done gen p"
  by (cases p rule: in_slot.cases) (auto split: option.splits elim: place_ok.elims)

lemma inv_lookup:
  assumes "dials_inv g" "i < length (dg_dials g)" "phase g i = Resolving" "p = Setting a \<or> p = Releasing (Some e)"
  shows "dials_inv (set_phase i p (g\<lparr>dg_lookups := dg_lookups g @ [i]\<rparr>))"
proof -
  have k: "i \<notin> set (dg_lookups g)" "dl_generation (dg_dials g ! i) = of_nat (length (dg_applied g))"
    using assms(1-3) unfolding dials_inv_def by (metis place_ok.simps(1))+
  have "in_slot (phase g i)" using assms(3) by simp
  then have s: "dg_slot g = Some i" using assms(1,2) unfolding dials_inv_def by blast
  have "i \<notin> set (dg_applied g)" using k(1) assms(1) unfolding dials_inv_def by blast
  then have "place_ok (length (dg_applied g)) True (i \<in> set (dg_applied g)) (dl_generation (dg_dials g ! i)) p" "in_slot p"
    using k assms(4) by auto
  then show ?thesis using assms(1,2) s k unfolding dials_inv_def by (auto simp: Ball_def)
qed

lemma inv_apply:
  assumes "dials_inv g" "i < length (dg_dials g)" "phase g i = Applying a"
  shows "dials_inv (set_phase i (Releasing None)
    (g\<lparr>dg_client := (dg_client g)\<lparr>cl_endpoint := ep_applied a (cl_endpoint (dg_client g))\<rparr>, dg_applied := dg_applied g @ [i]\<rparr>))"
  (is "dials_inv ?g")
proof -
  let ?n = "length (dg_applied g)"
  have k: "i \<in> set (dg_lookups g)" "i \<notin> set (dg_applied g)" "dl_generation (dg_dials g ! i) = of_nat ?n"
    using assms unfolding dials_inv_def by (metis place_ok.simps(3))+
  have "in_slot (phase g i)" using assms(3) by simp
  then have s: "dg_slot g = Some i" using assms(1,2) unfolding dials_inv_def by blast
  have "place_ok (Suc ?n) (j \<in> set (dg_lookups g)) (j = i \<or> j \<in> set (dg_applied g)) (dl_generation (dg_dials g ! j)) (phase ?g j)"
    if j: "j < length (dg_dials g)" for j
  proof (cases "j = i")
    case True
    then show ?thesis using assms(2) by simp
  next
    case False
    then have "\<not> in_slot (phase g j)" using assms(1) j s unfolding dials_inv_def by auto
    moreover have "place_ok ?n (j \<in> set (dg_lookups g)) (j \<in> set (dg_applied g)) (dl_generation (dg_dials g ! j)) (phase g j)"
      using assms(1) j unfolding dials_inv_def by blast
    ultimately show ?thesis using False assms(2) by (simp add: place_ok_outside)
  qed
  moreover have "dl_generation (dg_dials g ! ((dg_applied g @ [i]) ! k)) = of_nat k" if "k < Suc ?n" for k
    using that k(3) assms(1) unfolding dials_inv_def by (cases "k = ?n") (simp_all add: nth_append)
  moreover have "ep_generation (cl_endpoint (dg_client g)) = of_nat ?n" using assms(1) unfolding dials_inv_def by blast
  ultimately show ?thesis
    using assms(1,2) s k(1,2) unfolding dials_inv_def by (simp add: Ball_def ep_applied_def)
qed


lemma inv_place:
  "dials_inv g \<Longrightarrow> i < length (dg_dials g) \<Longrightarrow> phase g i = p \<Longrightarrow>
    place_ok (length (dg_applied g)) (i \<in> set (dg_lookups g)) (i \<in> set (dg_applied g)) (dl_generation (dg_dials g ! i)) p"
  unfolding dials_inv_def by metis

lemma inv_fields:
  "dials_inv (g\<lparr>dg_world := w, dg_deviceErr := b\<rparr>) = dials_inv g" "dials_inv (g\<lparr>dg_world := w\<rparr>) = dials_inv g"
  by (simp_all add: dials_inv_def)

lemma refresh_piece_inv:
  assumes "dials_inv g" "i < length (dg_dials g)"
  shows "dials_inv (refresh_piece lib lookup i g)"
proof (cases "phase g i")
  case Waiting
  then show ?thesis
    using inv_place [OF assms Waiting] inv_take [OF assms] inv_move [OF assms, of "Refreshed None"] assms(1)
    by (simp add: refresh_piece_def Let_def)
next
  case Holding
  have "ep_generation (cl_endpoint (dg_client g)) = of_nat (length (dg_applied g))" using assms(1) unfolding dials_inv_def by blast
  then show ?thesis
    using Holding inv_place [OF assms Holding] inv_move [OF assms, of "Releasing None"] inv_move [OF assms, of Resolving]
    by (simp add: refresh_piece_def Let_def ep_current_def)
next
  case Resolving
  then show ?thesis
    using inv_lookup [OF assms Resolving] by (auto simp: refresh_piece_def Let_def split: sum.split)
next
  case (Setting a)
  have "dials_inv (set_phase i p (g\<lparr>dg_world := w', dg_deviceErr := b\<rparr>))" "dials_inv (set_phase i p (g\<lparr>dg_world := w'\<rparr>))"
    if "p = Applying a \<or> p = Releasing (Some e)" for p w' b e
    using that assms Setting inv_place [OF assms Setting] by (auto intro!: inv_move simp: inv_fields)
  then show ?thesis using Setting by (simp add: refresh_piece_def Let_def split: prod.split option.split)
next
  case (Applying a)
  then show ?thesis using inv_apply [OF assms Applying] by (simp add: refresh_piece_def Let_def)
next
  case (Releasing r)
  then show ?thesis using inv_release [OF assms Releasing] by (simp add: refresh_piece_def Let_def)
qed (use assms in \<open>simp_all add: refresh_piece_def Let_def\<close>)

lemma inv_begins:
  assumes "dials_inv g"
  shows "dials_inv (g\<lparr>dg_dials := dg_dials g @ [\<lparr>dl_generation = x, dl_phase = Attempting\<rparr>]\<rparr>)" (is "dials_inv ?g")
proof -
  have p: "phase ?g i = (if i = length (dg_dials g) then Attempting else phase g i)" if "i \<le> length (dg_dials g)" for i
    using that by (simp add: phase_def nth_append)
  have a: "dg_applied g ! k < length (dg_dials g)" if "k < length (dg_applied g)" for k
    using assms that nth_mem unfolding dials_inv_def by blast
  have n: "length (dg_dials g) \<notin> set (dg_lookups g)" using assms unfolding dials_inv_def by blast
  then show ?thesis
    using assms p a unfolding dials_inv_def by (auto simp: less_Suc_eq nth_append)
qed

lemma dialing_inv:
  assumes "dialing lib names g g'" "dials_inv g"
  shows "dials_inv g'"
  using assms
proof (cases rule: dialing.cases)
  case (attemptFails i)
  then show ?thesis using inv_place [OF assms(2) attemptFails(2,3)] by (simp add: inv_move [OF assms(2)])
next
  case (givesUp i)
  then show ?thesis using inv_place [OF assms(2) givesUp(2,3)] by (simp add: inv_move [OF assms(2)])
next
  case (ends i)
  then show ?thesis using inv_place [OF assms(2) ends(2)] by (auto intro!: inv_move [OF assms(2)])
next
  case (closes r c w)
  then show ?thesis using client_Close_keeps [OF closes(2)] assms(2) by (simp add: dials_inv_def)
qed (use assms(2) in \<open>simp_all add: inv_begins refresh_piece_inv\<close>)

lemma start_inv: "ep_generation (cl_endpoint c) = 0 \<Longrightarrow> dials_inv (dials_start c w)"
  by (simp add: dials_inv_def dials_start_def)

lemma dialled_inv: "dialled lib names c w g \<Longrightarrow> ep_generation (cl_endpoint c) = 0 \<Longrightarrow> dials_inv g"
  by (induction rule: dialled.induct) (auto intro: start_inv dialing_inv)


subsection \<open>The device\<close>

definition sync_inv :: "(nat \<Rightarrow> 'w \<Rightarrow> wg_table) \<Rightarrow> clientEndpoint \<Rightarrow> 'w dials \<Rightarrow> bool" where
  "sync_inv tbl e g = (
     (\<not> dg_deviceErr g \<and> \<not> cl_closed (dg_client g) \<longrightarrow> client_sync tbl (believed g) (dg_world g))
     \<and> (\<forall>i < length (dg_dials g). \<forall>a. phase g i = Setting a \<longrightarrow> zone_ok (ap_addr a))
     \<and> ep_host (cl_endpoint (dg_client g)) = ep_host e)"

lemma believed_outside: "i < length (dg_dials g) \<Longrightarrow> dg_slot g \<noteq> Some i \<Longrightarrow> believed (set_phase i p g) = believed g"
  by (auto simp: believed_def Let_def split: option.split)

lemma believed_holder:
  "dg_slot g = Some i \<Longrightarrow> (\<And>a. phase g i \<noteq> Applying a) \<Longrightarrow> believed g = dg_client g"
  by (cases "phase g i") (auto simp: believed_def Let_def)

lemma believed_free: "dg_slot g = None \<Longrightarrow> believed g = dg_client g"
  by (simp add: believed_def Let_def)

lemma sync_move:
  assumes "sync_inv tbl e g" "i < length (dg_dials g)" "believed (set_phase i p g) = believed g" "\<And>a. p \<noteq> Setting a"
  shows "sync_inv tbl e (set_phase i p g)"
  using assms by (simp add: sync_inv_def)

lemma resolved_zone_ok:
  assumes "resolveEndpoint lookup host port = Inr (a, lit)" "names_ok lookup" "\<And>ip. ParseAddr host = Some ip \<Longrightarrow> zone_ok ip"
  shows "zone_ok (ap_addr a)"
proof -
  obtain ip where "a = AddrPort (Unmap ip) port" "zone_ok ip"
    using resolveEndpoint_Inr [OF assms(1)] assms(2,3) by (fastforce simp: names_ok_def split: if_splits)
  then show ?thesis by (simp add: zone_ok_Unmap)
qed

lemma setting_sync:
  assumes fu: "follows_uapi lib tbl" and inv: "sync_inv tbl e g" and i: "i < length (dg_dials g)" "dg_slot g = Some i"
    and Setting: "phase g i = Setting a"
  shows "sync_inv tbl e (refresh_piece lib lookup i g)"
proof -
  have z: "zone_ok (ap_addr a)" using inv i Setting by (auto simp: sync_inv_def)
  have s: "believed g = dg_client g" using i(2) Setting by (simp add: believed_holder)
  obtain x w' where x: "set_endpoint lib a (dg_client g, dg_world g) = (x, w')" by fastforce
  have "client_sync tbl ((dg_client g)\<lparr>cl_endpoint := ep_applied a (cl_endpoint (dg_client g))\<rparr>) w'"
    if "x = None" "\<not> dg_deviceErr g" "\<not> cl_closed (dg_client g)"
    using set_endpoint_sync [OF fu _ z x [unfolded that(1)]] inv s that(2,3) by (simp add: sync_inv_def)
  then show ?thesis
    using Setting inv i s x
    by (cases x) (auto simp: refresh_piece_def Let_def sync_inv_def believed_def)
qed

lemma refresh_piece_sync:
  assumes fu: "follows_uapi lib tbl" and nm: "names_ok lookup" "\<And>ip. ParseAddr (ep_host e) = Some ip \<Longrightarrow> zone_ok ip"
    and inv: "dials_inv g" "sync_inv tbl e g" and i: "i < length (dg_dials g)"
  shows "sync_inv tbl e (refresh_piece lib lookup i g)"
proof -
  have slot: "dg_slot g = Some i \<longleftrightarrow> in_slot (phase g i)" using inv(1) i unfolding dials_inv_def by blast
  show ?thesis
  proof (cases "phase g i")
    case Waiting
    then have "dg_slot g \<noteq> Some i" using slot by simp
    then have "sync_inv tbl e (set_phase i (Refreshed None) g)" by (intro sync_move [OF inv(2) i] believed_outside i) simp_all
    moreover have "sync_inv tbl e (set_phase i Holding (g\<lparr>dg_slot := Some i\<rparr>))" if "dg_slot g = None"
      using inv(2) i believed_free [OF that] by (simp add: sync_inv_def believed_holder)
    ultimately show ?thesis using Waiting inv(2) by (simp add: refresh_piece_def Let_def)
  next
    case Holding
    then have "believed (set_phase i p g) = believed g" if "\<And>a. p \<noteq> Applying a" for p
      using slot i that by (simp add: believed_holder)
    then show ?thesis
      using Holding by (auto simp: refresh_piece_def Let_def intro!: sync_move [OF inv(2) i])
  next
    case Resolving
    have "believed (set_phase i p (g\<lparr>dg_lookups := l\<rparr>)) = believed g" if "\<And>a. p \<noteq> Applying a" for p l
      using Resolving slot i that by (simp add: believed_holder)
    moreover have "zone_ok (ap_addr a)"
      if "resolveEndpoint lookup (ep_host (cl_endpoint (dg_client g))) (ep_port (cl_endpoint (dg_client g))) = Inr (a, lit)" for a lit
      using that nm inv(2) by (auto simp: sync_inv_def intro: resolved_zone_ok)
    ultimately show ?thesis
      using Resolving inv(2) i by (auto simp: refresh_piece_def Let_def sync_inv_def split: sum.split)
  next
    case (Setting a)
    then show ?thesis using slot by (intro setting_sync [OF fu inv(2) i]) simp_all
  next
    case (Applying a)
    then show ?thesis
      using inv(2) i slot by (simp add: refresh_piece_def Let_def sync_inv_def believed_def ep_applied_def)
  next
    case (Releasing r)
    then have "believed g = dg_client g" using slot by (simp add: believed_holder)
    then show ?thesis
      using Releasing inv(2) i by (simp add: refresh_piece_def Let_def sync_inv_def believed_free)
  qed (use inv(2) in \<open>simp_all add: refresh_piece_def Let_def\<close>)
qed

lemma dialing_sync:
  assumes "dialing lib names g g'" "follows_uapi lib tbl" "\<And>l. names l \<Longrightarrow> names_ok l"
    and "\<And>ip. ParseAddr (ep_host e) = Some ip \<Longrightarrow> zone_ok ip" "dials_inv g" "sync_inv tbl e g"
  shows "sync_inv tbl e g'"
  using assms(1)
proof (cases rule: dialing.cases)
  case begins
  have p: "i < length (dg_dials g) \<Longrightarrow> phase g' i = phase g i" for i by (simp add: begins phase_def nth_append)
  have q: "phase g' (length (dg_dials g)) = Attempting" by (simp add: begins phase_def)
  have "believed g' = believed g"
    using assms(5) p by (auto simp: believed_def dials_inv_def begins Let_def split: option.split)
  moreover have "length (dg_dials g') = Suc (length (dg_dials g))" "dg_client g' = dg_client g" "dg_world g' = dg_world g"
    "dg_deviceErr g' = dg_deviceErr g" by (simp_all add: begins)
  ultimately show ?thesis using assms(6) p q by (auto simp: sync_inv_def less_Suc_eq)
next
  case (refreshes i lookup)
  then show ?thesis using refresh_piece_sync [OF assms(2) assms(3) assms(4-6)] by simp
next
  case (attemptFails i)
  then have "dg_slot g \<noteq> Some i" using assms(5) unfolding dials_inv_def by (metis in_slot.simps(6))
  then show ?thesis using attemptFails by (simp add: sync_move [OF assms(6)] believed_outside)
next
  case (givesUp i)
  then have "dg_slot g \<noteq> Some i" using assms(5) unfolding dials_inv_def by (metis in_slot.simps(7))
  then show ?thesis using givesUp by (simp add: sync_move [OF assms(6)] believed_outside)
next
  case (ends i)
  then have "\<not> in_slot (phase g i)" by auto
  then have "dg_slot g \<noteq> Some i" using assms(5) ends(2) unfolding dials_inv_def by blast
  then show ?thesis using ends by (simp add: sync_move [OF assms(6)] believed_outside)
next
  case (closes r c w)
  then show ?thesis using client_Close_keeps [OF closes(2)] assms(6) by (simp add: sync_inv_def)
qed

lemma dialled_sync:
  assumes "dialled lib names c w g" "follows_uapi lib tbl" "\<And>l. names l \<Longrightarrow> names_ok l"
    and "\<And>ip. ParseAddr (ep_host (cl_endpoint c)) = Some ip \<Longrightarrow> zone_ok ip" "client_sync tbl c w" "ep_generation (cl_endpoint c) = 0"
  shows "sync_inv tbl (cl_endpoint c) g"
  using assms(1)
proof (induction rule: dialled.induct)
  case start
  show ?case using assms(5) by (simp add: sync_inv_def dials_start_def believed_def)
next
  case (step g g')
  then show ?case using dialing_sync [OF step.hyps(2) assms(2-4)] dialled_inv [OF step.hyps(1) assms(6)] by blast
qed


subsection \<open>A literal address\<close>

lemma piece_literal:
  assumes "ep_literal (cl_endpoint (dg_client g))" "dg_lookups g = []" "\<And>j. j < length (dg_dials g) \<Longrightarrow> \<not> in_slot (phase g j)"
    and i: "i < length (dg_dials g)"
  shows "refresh_piece lib lookup i g = g \<or> refresh_piece lib lookup i g = set_phase i (Refreshed None) g"
  using assms(1) assms(3) [OF i] by (cases "phase g i") (simp_all add: refresh_piece_def Let_def)

lemma set_endpoint_literal: "ep_literal (ep_applied a e) = ep_literal e"
  by (simp add: ep_applied_def)

lemma literal_same: "dialing lib names g g' \<Longrightarrow> ep_literal (cl_endpoint (dg_client g')) = ep_literal (cl_endpoint (dg_client g))"
  by (induction rule: dialing.induct)
    (auto simp: refresh_piece_def Let_def set_endpoint_literal client_Close_keeps split: dialPhase.splits sum.split prod.split option.split)

lemma dialled_literal:
  "dialled lib names c w g \<Longrightarrow> ep_literal (cl_endpoint c) \<Longrightarrow>
     ep_literal (cl_endpoint (dg_client g)) \<and> dg_lookups g = [] \<and> (\<forall>j < length (dg_dials g). \<not> in_slot (phase g j))"
proof (induction rule: dialled.induct)
  case start
  then show ?case by (simp add: dials_start_def)
next
  case (step g g')
  then have g: "ep_literal (cl_endpoint (dg_client g))" "dg_lookups g = []" "\<And>j. j < length (dg_dials g) \<Longrightarrow> \<not> in_slot (phase g j)"
    by simp_all
  from step.hyps(2) have "dg_lookups g' = [] \<and> (\<forall>j < length (dg_dials g'). \<not> in_slot (phase g' j))"
  proof (cases rule: dialing.cases)
    case begins
    have "phase g' j = (if j = length (dg_dials g) then Attempting else phase g j)" if "j \<le> length (dg_dials g)" for j
      using that by (simp add: begins phase_def nth_append)
    then show ?thesis using g by (simp add: begins less_Suc_eq_le)
  next
    case (refreshes i lookup)
    then show ?thesis using piece_literal [OF g refreshes(2), of lib lookup] g by (auto split: if_split_asm)
  qed (use g in auto)
  then show ?case using literal_same [OF step.hyps(2)] g(1) by simp
qed

subsection \<open>One dial at a time\<close>

lemma piece_done [simp]: "phase g i = Refreshed r \<Longrightarrow> (refresh_piece lib lookup i ^^ n) g = g"
  by (induction n) (simp_all add: refresh_piece_def Let_def)

lemma funpow_first: "(f ^^ Suc n) x = (f ^^ n) (f x)"
  by (simp only: funpow_Suc_right o_apply)

lemma set_phase_twice:
  "i < length (dg_dials g) \<Longrightarrow> set_phase i p (set_phase i q g) = set_phase i p g"
  by (simp add: set_phase_def)

lemma set_phase_slot: "(set_phase i p g)\<lparr>dg_slot := x\<rparr> = set_phase i p (g\<lparr>dg_slot := x\<rparr>)"
  by (simp add: set_phase_def)

lemma piece_releases:
  assumes "i < length (dg_dials g)" "phase g i = Releasing r"
  shows "(refresh_piece lib lookup i ^^ Suc n) g = set_phase i (Refreshed r) (g\<lparr>dg_slot := None\<rparr>)"
  unfolding funpow_first using assms by (simp add: refresh_piece_def Let_def)

text \<open>The piece before: what it leaves with the semaphore, and then without it.\<close>

lemma piece_then_release:
  assumes "i < length (dg_dials g)" "refresh_piece lib lookup i g = set_phase i (Releasing r) g1"
    and "length (dg_dials g1) = length (dg_dials g)"
  shows "(refresh_piece lib lookup i ^^ Suc (Suc n)) g = set_phase i (Refreshed r) (g1\<lparr>dg_slot := None\<rparr>)"
proof -
  have "(refresh_piece lib lookup i ^^ Suc n) (set_phase i (Releasing r) g1)
      = set_phase i (Refreshed r) ((set_phase i (Releasing r) g1)\<lparr>dg_slot := None\<rparr>)"
    using assms by (intro piece_releases) simp_all
  also have "\<dots> = set_phase i (Refreshed r) (g1\<lparr>dg_slot := None\<rparr>)"
    using assms by (simp add: set_phase_slot set_phase_twice)
  finally show ?thesis by (simp only: funpow_first [of "Suc n"] assms(2))
qed

lemma piece_applies:
  assumes "i < length (dg_dials g)" "phase g i = Applying a"
  shows "(refresh_piece lib lookup i ^^ Suc (Suc n)) g = set_phase i (Refreshed None)
    (g\<lparr>dg_client := (dg_client g)\<lparr>cl_endpoint := ep_applied a (cl_endpoint (dg_client g))\<rparr>, dg_applied := dg_applied g @ [i],
       dg_slot := None\<rparr>)"
proof -
  have "refresh_piece lib lookup i g = set_phase i (Releasing None) (g\<lparr>dg_client := (dg_client g)\<lparr>cl_endpoint :=
      ep_applied a (cl_endpoint (dg_client g))\<rparr>, dg_applied := dg_applied g @ [i]\<rparr>)"
    using assms by (simp add: refresh_piece_def Let_def)
  from piece_then_release [OF assms(1) this] show ?thesis by simp
qed

lemma set_phase_other [simp]: "j \<noteq> i \<Longrightarrow> dg_dials (set_phase i p g) ! j = dg_dials g ! j"
  by (simp add: set_phase_def)

text \<open>The earlier pieces, each with what it leaves.\<close>

lemma piece_takes:
  "phase g i = Waiting \<Longrightarrow> \<not> ep_literal (cl_endpoint (dg_client g)) \<Longrightarrow> dg_slot g = None \<Longrightarrow>
     refresh_piece lib lookup i g = set_phase i Holding (g\<lparr>dg_slot := Some i\<rparr>)"
  by (simp add: refresh_piece_def Let_def)

lemma piece_compares:
  "phase g i = Holding \<Longrightarrow> refresh_piece lib lookup i g =
     set_phase i (if snd (ep_current (cl_endpoint (dg_client g))) \<noteq> dl_generation (dg_dials g ! i) then Releasing None else Resolving) g"
  by (simp add: refresh_piece_def Let_def)

lemma piece_resolves:
  "phase g i = Resolving \<Longrightarrow> refresh_piece lib lookup i g =
     set_phase i (case resolveEndpoint lookup (ep_host (cl_endpoint (dg_client g))) (ep_port (cl_endpoint (dg_client g))) of
         Inl err \<Rightarrow> Releasing (Some err) | Inr (addr, _) \<Rightarrow> Setting addr)
       (g\<lparr>dg_lookups := dg_lookups g @ [i]\<rparr>)"
  by (simp add: refresh_piece_def Let_def split: sum.split prod.split)

lemma piece_sets:
  "phase g i = Setting a \<Longrightarrow> set_endpoint lib a (dg_client g, dg_world g) = (x, w') \<Longrightarrow> refresh_piece lib lookup i g =
     (case x of Some err \<Rightarrow> set_phase i (Releasing (Some err)) (g\<lparr>dg_world := w', dg_deviceErr := True\<rparr>)
      | None \<Rightarrow> set_phase i (Applying a) (g\<lparr>dg_world := w'\<rparr>))"
  by (simp add: refresh_piece_def Let_def split: option.split)

lemma piece_others:
  assumes "i < length (dg_dials g)"
  shows "length (dg_dials (refresh_piece lib lookup i g)) = length (dg_dials g)"
    and "j \<noteq> i \<Longrightarrow> dg_dials (refresh_piece lib lookup i g) ! j = dg_dials g ! j"
  by (auto simp: refresh_piece_def Let_def split: dialPhase.split sum.split prod.split option.split)

text \<open>From each place on, the holder alone comes to the end and gives the semaphore back.\<close>

lemma settled_release:
  assumes "i < length (dg_dials g)" "refresh_piece lib lookup i g = set_phase i (Releasing r) g1" "dg_dials g1 = dg_dials g"
  shows "settled i r (dg_client g1) (dg_world g1) g ((refresh_piece lib lookup i ^^ Suc (Suc n)) g)"
  unfolding piece_then_release [OF assms(1,2) arg_cong [OF assms(3)]] using assms by (simp add: settled_def)

lemma settled_first:
  assumes "i < length (dg_dials g)" "settled i r c w (refresh_piece lib lookup i g) ((refresh_piece lib lookup i ^^ n) (refresh_piece lib lookup i g))"
  shows "settled i r c w g ((refresh_piece lib lookup i ^^ Suc n) g)"
  unfolding funpow_first using assms(2) piece_others [OF assms(1)] by (simp add: settled_def)

lemma setting_settles:
  assumes "i < length (dg_dials g)" "phase g i = Setting a" "set_endpoint lib a (dg_client g, dg_world g) = (x, w')"
  shows "settled i x (if x = None then (dg_client g)\<lparr>cl_endpoint := ep_applied a (cl_endpoint (dg_client g))\<rparr> else dg_client g) w'
    g ((refresh_piece lib lookup i ^^ Suc (Suc (Suc n))) g)"
proof (cases x)
  case (Some err)
  have "refresh_piece lib lookup i g = set_phase i (Releasing (Some err)) (g\<lparr>dg_world := w', dg_deviceErr := True\<rparr>)"
    using piece_sets [OF assms(2,3)] Some by simp
  from settled_release [OF assms(1) this, of "Suc n"] show ?thesis using Some by simp
next
  case None
  have "refresh_piece lib lookup i g = set_phase i (Applying a) (g\<lparr>dg_world := w'\<rparr>)" (is "_ = ?g")
    using piece_sets [OF assms(2,3)] None by simp
  moreover have "settled i None ((dg_client g)\<lparr>cl_endpoint := ep_applied a (cl_endpoint (dg_client g))\<rparr>) w'
      ?g ((refresh_piece lib lookup i ^^ Suc (Suc n)) ?g)"
  proof -
    have p: "i < length (dg_dials ?g)" "phase ?g i = Applying a" using assms(1) by simp_all
    show ?thesis unfolding piece_applies [OF p] using assms(1) by (simp add: settled_def)
  qed
  ultimately show ?thesis using settled_first [OF assms(1), where n = "Suc (Suc n)"] None by simp
qed

definition resolve_and_set :: "'w wglib \<Rightarrow> (string \<Rightarrow> addr list result) \<Rightarrow> Client \<Rightarrow> 'w \<Rightarrow> goerror option \<times> Client \<times> 'w" where
  "resolve_and_set lib lookup c w =
     (case resolveEndpoint lookup (ep_host (cl_endpoint c)) (ep_port (cl_endpoint c)) of
        Inl err \<Rightarrow> (Some err, c, w)
      | Inr (a, _) \<Rightarrow> (case set_endpoint lib a (c, w) of (x, w') \<Rightarrow>
          (x, if x = None then c\<lparr>cl_endpoint := ep_applied a (cl_endpoint c)\<rparr> else c, w')))"

lemma resolving_settles:
  assumes "i < length (dg_dials g)" "phase g i = Resolving" "resolve_and_set lib lookup (dg_client g) (dg_world g) = (r, c, w)"
  shows "settled i r c w g ((refresh_piece lib lookup i ^^ Suc (Suc (Suc (Suc n)))) g)"
proof (cases "resolveEndpoint lookup (ep_host (cl_endpoint (dg_client g))) (ep_port (cl_endpoint (dg_client g)))")
  case (Inl err)
  have "refresh_piece lib lookup i g = set_phase i (Releasing (Some err)) (g\<lparr>dg_lookups := dg_lookups g @ [i]\<rparr>)"
    using piece_resolves [OF assms(2)] Inl by simp
  from settled_release [OF assms(1) this, of "Suc (Suc n)"] show ?thesis
    using assms(3) Inl by (simp add: resolve_and_set_def del: funpow.simps)
next
  case (Inr b)
  then obtain a l where a: "resolveEndpoint lookup (ep_host (cl_endpoint (dg_client g))) (ep_port (cl_endpoint (dg_client g))) = Inr (a, l)"
    by (cases b) simp
  obtain x w' where x: "set_endpoint lib a (dg_client g, dg_world g) = (x, w')" by fastforce
  let ?g = "set_phase i (Setting a) (g\<lparr>dg_lookups := dg_lookups g @ [i]\<rparr>)"
  have p: "refresh_piece lib lookup i g = ?g" using piece_resolves [OF assms(2)] a by simp
  have "settled i r c w ?g ((refresh_piece lib lookup i ^^ Suc (Suc (Suc n))) ?g)"
    using setting_settles [of i ?g a lib x w' n lookup] assms(1,3) a x
    by (simp add: resolve_and_set_def split: if_split_asm del: funpow.simps)
  then show ?thesis using settled_first [OF assms(1), where n = "Suc (Suc (Suc n))"] p by metis
qed

lemma holding_settles:
  assumes "i < length (dg_dials g)" "phase g i = Holding"
    and "(if snd (ep_current (cl_endpoint (dg_client g))) \<noteq> dl_generation (dg_dials g ! i) then (None, dg_client g, dg_world g)
      else resolve_and_set lib lookup (dg_client g) (dg_world g)) = (r, c, w)"
  shows "settled i r c w g ((refresh_piece lib lookup i ^^ Suc (Suc (Suc (Suc (Suc n))))) g)"
proof (cases "snd (ep_current (cl_endpoint (dg_client g))) = dl_generation (dg_dials g ! i)")
  case False
  then have "refresh_piece lib lookup i g = set_phase i (Releasing None) g" using piece_compares [OF assms(2)] by simp
  from settled_release [OF assms(1) this, of "Suc (Suc (Suc n))"] show ?thesis using assms(3) False by simp
next
  case True
  let ?g = "set_phase i Resolving g"
  have p: "refresh_piece lib lookup i g = ?g" using piece_compares [OF assms(2)] True by simp
  have "settled i r c w ?g ((refresh_piece lib lookup i ^^ Suc (Suc (Suc (Suc n)))) ?g)"
    using resolving_settles [of i ?g lib lookup r c w n] assms(1,3) True by (simp del: funpow.simps)
  then show ?thesis using settled_first [OF assms(1), where n = "Suc (Suc (Suc (Suc n)))"] p by metis
qed

lemma pieces_settle:
  assumes "i < length (dg_dials g)" "phase g i = Waiting" "dg_slot g = None"
    and "(if ep_literal (cl_endpoint (dg_client g)) \<or> snd (ep_current (cl_endpoint (dg_client g))) \<noteq> dl_generation (dg_dials g ! i)
      then (None, dg_client g, dg_world g) else resolve_and_set lib lookup (dg_client g) (dg_world g)) = (r, c, w)"
  shows "settled i r c w g ((refresh_piece lib lookup i ^^ 6) g)"
proof -
  let ?F = "refresh_piece lib lookup i" let ?five = "Suc (Suc (Suc (Suc (Suc 0))))"
  have six: "(?F ^^ 6) g = (?F ^^ Suc ?five) g" by (simp add: eval_nat_numeral)
  show ?thesis
  proof (cases "ep_literal (cl_endpoint (dg_client g))")
    case True
    then have "?F g = set_phase i (Refreshed None) g" using assms(2) by (simp add: refresh_piece_def Let_def)
    then have "(?F ^^ 6) g = set_phase i (Refreshed None) g"
      unfolding six funpow_first [of ?five] using assms(1) by (simp del: funpow.simps)
    then show ?thesis using True assms by (simp add: settled_def)
  next
    case False
    let ?g = "set_phase i Holding (g\<lparr>dg_slot := Some i\<rparr>)"
    have p: "?F g = ?g" using piece_takes [OF assms(2) False assms(3)] by simp
    have "settled i r c w ?g ((?F ^^ ?five) ?g)"
      using holding_settles [of i ?g lib lookup r c w 0] assms(1,4) False by (simp cong: if_cong del: funpow.simps)
    then show ?thesis
      unfolding six using settled_first [OF assms(1), where n = ?five] p by metis
  qed
qed

text \<open>
  A lookup that fails leaves the client, and so the generation, as it was: the next dial that waits
  with that generation looks the name up again. Only a lookup that succeeds is shared.
\<close>

lemma failed_lookup_is_repeated:
  assumes "i < length (dg_dials g)" "phase g i = Waiting" "dg_slot g = None" "\<not> ep_literal (cl_endpoint (dg_client g))"
    and "dl_generation (dg_dials g ! i) = ep_generation (cl_endpoint (dg_client g))"
    and "resolveEndpoint lookup (ep_host (cl_endpoint (dg_client g))) (ep_port (cl_endpoint (dg_client g))) = Inl err"
  shows "settled i (Some err) (dg_client g) (dg_world g) g ((refresh_piece lib lookup i ^^ 6) g)"
  using assms by (intro pieces_settle) (simp_all add: resolve_and_set_def ep_current_def)

text \<open>The one-call function over the same pieces.\<close>

lemma refreshEndpoint_resolves:
  "t + max 0 (de_slot env t) < stop \<Longrightarrow> refreshEndpoint lib env stop gen t (c, w) = (r, (c', w'), t') \<Longrightarrow>
    (if ep_literal (cl_endpoint c) \<or> snd (ep_current (cl_endpoint c)) \<noteq> gen then (None, c, w)
      else resolve_and_set lib (\<lambda>host. fst (de_lookup env (t + max 0 (de_slot env t)) host)) c w) = (r, c', w')"
  by (auto simp: refreshEndpoint_def resolve_and_set_def Let_def split: if_splits sum.splits prod.splits option.splits)

lemma dialled_pieces:
  assumes "dialled lib names c w g" "names lookup" "i < length (dg_dials g)"
  shows "dialled lib names c w ((refresh_piece lib lookup i ^^ n) g) \<and> i < length (dg_dials ((refresh_piece lib lookup i ^^ n) g))"
proof (induction n)
  case (Suc n)
  let ?g = "(refresh_piece lib lookup i ^^ n) g"
  have "dialing lib names ?g (refresh_piece lib lookup i ?g)"
    by (rule dialing.refreshes) (use Suc assms(2) in simp_all)
  then show ?case using dialled.step [OF conjunct1 [OF Suc]] piece_others(1) [OF conjunct2 [OF Suc]] Suc by simp
qed (use assms in simp)

text \<open>Two dials of the example client: both fail an attempt, and the second one re-resolves.\<close>

definition example_dials :: "wg_table dials" where
  "example_dials = set_phase 1 Waiting (set_phase 0 Waiting ((dials_start (example_client (AddrPort (Addr4 4) 7))
     (example_pinned (AddrPort (Addr4 4) 7)))\<lparr>dg_dials := replicate 2 \<lparr>dl_generation = 0, dl_phase = Attempting\<rparr>\<rparr>))"

lemma example_dialled:
  "dialled ref_lib names_ok (example_client (AddrPort (Addr4 4) 7)) (example_pinned (AddrPort (Addr4 4) 7)) example_dials"
proof -
  let ?c = "example_client (AddrPort (Addr4 4) 7)" and ?w = "example_pinned (AddrPort (Addr4 4) 7)"
  let ?d = "\<lparr>dl_generation = 0, dl_phase = Attempting\<rparr>"
  let ?g0 = "dials_start ?c ?w" let ?g1 = "?g0\<lparr>dg_dials := [?d]\<rparr>" let ?g2 = "?g0\<lparr>dg_dials := [?d, ?d]\<rparr>"
  have "dialing ref_lib names_ok ?g0 ?g1" "dialing ref_lib names_ok ?g1 ?g2"
    using dialing.begins [of ref_lib names_ok ?g0] dialing.begins [of ref_lib names_ok ?g1]
    by (simp_all add: dials_start_def example_client_def ep_current_def)
  moreover have "dialing ref_lib names_ok ?g2 (set_phase 0 Waiting ?g2)"
      "dialing ref_lib names_ok (set_phase 0 Waiting ?g2) (set_phase 1 Waiting (set_phase 0 Waiting ?g2))"
    by (rule dialing.attemptFails; simp add: phase_def set_phase_def)+
  ultimately have "dialled ref_lib names_ok ?c ?w (set_phase 1 Waiting (set_phase 0 Waiting ?g2))"
    by (meson dialled.intros)
  then show ?thesis by (simp add: example_dials_def numeral_2_eq_2)
qed

lemma example_settles:
  "\<exists>w. settled 1 None ((example_client (AddrPort (Addr4 4) 7))\<lparr>cl_endpoint :=
         ep_applied (AddrPort (Addr4 5) 7) (cl_endpoint (example_client (AddrPort (Addr4 4) 7)))\<rparr>) w
     example_dials ((refresh_piece ref_lib (\<lambda>_. Inr [Addr4 5]) 1 ^^ 6) example_dials)"
proof -
  have "ParseAddr ''h'' = None" by code_simp
  then obtain w where "resolve_and_set ref_lib (\<lambda>_. Inr [Addr4 5]) (example_client (AddrPort (Addr4 4) 7)) (example_pinned (AddrPort (Addr4 4) 7))
      = (None, (example_client (AddrPort (Addr4 4) 7))\<lparr>cl_endpoint :=
         ep_applied (AddrPort (Addr4 5) 7) (cl_endpoint (example_client (AddrPort (Addr4 4) 7)))\<rparr>, w)"
    by (auto simp: resolve_and_set_def example_client_def ep_current_def resolveEndpoint_def
        set_endpoint_def SetPeerEndpoint_def example_keyToHex ap_IsValid_def dev_ipc_def ref_lib_def)
  then show ?thesis
    by (intro exI pieces_settle) (simp_all add: example_dials_def dials_start_def phase_def set_phase_def example_client_def ep_current_def)
qed

lemma ref_pieces_succeed:
  assumes "\<not> dg_deviceErr g" "cl_serverPubKey (dg_client g) = example_key" "cl_dev (dg_client g) = ref_dev" "i < length (dg_dials g)"
    and "\<And>a. phase g i = Setting a \<Longrightarrow> ap_IsValid a \<and> ap_port a \<noteq> 0" "ep_port (cl_endpoint (dg_client g)) \<noteq> 0" "ParseAddr (ep_host (cl_endpoint (dg_client g))) = None"
  shows "\<not> dg_deviceErr ((refresh_piece ref_lib (\<lambda>_. Inr [Addr4 5]) i ^^ n) g)"
  using assms
proof (induction n arbitrary: g)
  case (Suc n)
  have v: "ap_IsValid a \<and> ap_port a \<noteq> 0" if "resolveEndpoint (\<lambda>_. Inr [Addr4 5]) (ep_host (cl_endpoint (dg_client g)))
      (ep_port (cl_endpoint (dg_client g))) = Inr (a, l)" for a l
    using that Suc.prems(6,7) by (auto simp: resolveEndpoint_def ap_IsValid_def Unmap_def)
  have s: "x = None" if "set_endpoint ref_lib a (dg_client g, dg_world g) = (x, w')" "ap_IsValid a \<and> ap_port a \<noteq> 0" for a x w'
    using that Suc.prems by (simp split: if_split_asm add: set_endpoint_def SetPeerEndpoint_def example_keyToHex dev_ipc_def ref_lib_def ref_dev_def)
  show ?case
    unfolding funpow_first using Suc.prems v
    by (intro Suc.IH) (auto dest: s simp: refresh_piece_def Let_def ep_applied_def split: dialPhase.splits if_split_asm sum.splits prod.splits option.splits)
qed simp

definition example_refreshed :: "wg_table dials" where
  "example_refreshed = (refresh_piece ref_lib (\<lambda>_. Inr [Addr4 5]) 1 ^^ 6) example_dials"

lemma example_refreshed:
  "dialled ref_lib names_ok (example_client (AddrPort (Addr4 4) 7)) (example_pinned (AddrPort (Addr4 4) 7)) example_refreshed"
  "length (dg_dials example_refreshed) = 2" "ep_addr (cl_endpoint (dg_client example_refreshed)) = AddrPort (Addr4 5) 7"
  "ep_generation (cl_endpoint (dg_client example_refreshed)) = 1" "dg_slot example_refreshed = None"
  "\<not> dg_deviceErr example_refreshed" "\<not> cl_closed (dg_client example_refreshed)"
proof -
  have n: "names_ok (\<lambda>_. Inr [Addr4 5])" by (simp add: names_ok_def zone_ok_def)
  have l: "length (dg_dials example_dials) = 2" by (simp add: example_dials_def)
  show "dialled ref_lib names_ok (example_client (AddrPort (Addr4 4) 7)) (example_pinned (AddrPort (Addr4 4) 7)) example_refreshed"
    using dialled_pieces [where lookup = "\<lambda>_. Inr [Addr4 5]", OF example_dialled n] l unfolding example_refreshed_def by simp
  show "length (dg_dials example_refreshed) = 2" "ep_addr (cl_endpoint (dg_client example_refreshed)) = AddrPort (Addr4 5) 7"
    "ep_generation (cl_endpoint (dg_client example_refreshed)) = 1" "dg_slot example_refreshed = None"
    "\<not> cl_closed (dg_client example_refreshed)"
    using example_settles l unfolding example_refreshed_def [symmetric]
    by (auto simp: settled_def ep_applied_def example_client_def)
  have "ParseAddr ''h'' = None" by code_simp
  then show "\<not> dg_deviceErr example_refreshed" unfolding example_refreshed_def
    by (intro ref_pieces_succeed) (simp_all add: example_dials_def dials_start_def example_client_def phase_def set_phase_def)
qed

lemma generation_inj: "k < 2 ^ 64 \<Longrightarrow> l < 2 ^ 64 \<Longrightarrow> (of_nat k :: 64 word) = of_nat l \<Longrightarrow> k = l"
  by (drule arg_cong [of _ _ unat]) (simp add: unat_of_nat)

lemma place_ok_busy: "place_ok n True False gen p \<Longrightarrow> in_slot p \<or> (\<exists>e. p = Refreshed (Some e))"
proof (cases p)
  case (Refreshed r)
  then show "place_ok n True False gen p \<Longrightarrow> ?thesis" by (cases r) simp_all
qed simp_all

text \<open>The holder of the semaphore: five pieces of its own give it back, and nobody else moves it.\<close>

lemma holder_settles:
  assumes "i < length (dg_dials g)" "in_slot (phase g i)"
  shows "\<exists>r c w. settled i r c w g ((refresh_piece lib lookup i ^^ 5) g)"
proof -
  have five: "(refresh_piece lib lookup i ^^ 5) g = (refresh_piece lib lookup i ^^ Suc (Suc (Suc (Suc (Suc 0))))) g"
    by (simp add: eval_nat_numeral)
  show ?thesis
  proof (cases "phase g i")
    case Holding
    then show ?thesis unfolding five using holding_settles [OF assms(1), where n = 0] by (meson prod_cases3)
  next
    case Resolving
    then show ?thesis unfolding five using resolving_settles [OF assms(1), where n = "Suc 0"] by (meson prod_cases3)
  next
    case (Setting a)
    then show ?thesis unfolding five using setting_settles [OF assms(1), where n = "Suc (Suc 0)"] by (meson surj_pair)
  next
    case (Applying a)
    then show ?thesis
      unfolding five piece_applies [OF assms(1) Applying, where n = "Suc (Suc (Suc 0))"] using assms(1) by (simp add: settled_def)
  next
    case (Releasing r)
    then show ?thesis
      unfolding five piece_releases [OF assms(1) Releasing] using assms(1) by (simp add: settled_def)
  qed (use assms(2) in simp_all)
qed

lemma piece_elsewhere:
  assumes "dg_slot g = Some i" "\<not> in_slot (phase g j)"
  shows "dg_slot (refresh_piece lib lookup j g) = Some i"
  using assms by (cases "phase g j") (simp_all add: refresh_piece_def Let_def)

lemma holder_stays:
  assumes "dialing lib names g g'" "dials_inv g" "dg_slot g = Some i"
  shows "(dg_slot g' = Some i \<and> phase g' i = phase g i) \<or> (\<exists>l. names l \<and> g' = refresh_piece lib l i g)"
proof -
  have i: "i < length (dg_dials g)" "in_slot (phase g i)" and o: "\<And>j. j < length (dg_dials g) \<Longrightarrow> j \<noteq> i \<Longrightarrow> \<not> in_slot (phase g j)"
    using assms(2,3) unfolding dials_inv_def by auto
  show ?thesis using assms(1)
  proof (cases rule: dialing.cases)
    case begins
    then show ?thesis using i assms(3) by (simp add: phase_def nth_append)
  next
    case (refreshes j lookup)
    then show ?thesis
      using piece_elsewhere [OF assms(3) o] piece_others(2) [of j g i lib lookup] by (cases "j = i") (auto simp: phase_def)
  next
    case (attemptFails j)
    then show ?thesis using i assms(3) by (cases "j = i") simp_all
  next
    case (givesUp j)
    then show ?thesis using i assms(3) by (cases "j = i") simp_all
  next
    case (ends j)
    then show ?thesis using i assms(3) by (cases "j = i") auto
  next
    case closes
    then show ?thesis using assms(3) by simp
  qed
qed

subsection \<open>The loop of one dial as a run of the machine\<close>

lemma dial_loop_state:
  "dial_loop lib env stop gen k again t st = (r, st', t') \<Longrightarrow>
    st' = st \<or> \<not> again \<and> (\<exists>u. st' = fst (snd (refreshEndpoint lib env stop gen u st)))"
proof (induction lib env stop gen k again t st arbitrary: r st' t' rule: dial_loop.induct)
  case (1 lib env stop gen k again t st)
  show ?case
    using "1.prems" "1.IH"
    by (simp add: dial_loop.simps [of lib env stop gen k again t st] Let_def split: prod.splits sum.splits if_splits option.splits)
      (metis fst_conv snd_conv)+
qed

lemma refresh_reached:
  assumes "dialled lib names c w g" "\<And>u. names (\<lambda>host. fst (de_lookup env u host))"
    and i: "i < length (dg_dials g)" "phase g i = Waiting" "dg_slot g = None"
    and "refreshEndpoint lib env stop (dl_generation (dg_dials g ! i)) t (dg_client g, dg_world g) = (r, (c', w'), t')"
  shows "\<exists>g'. dialled lib names c w g' \<and> dg_client g' = c' \<and> dg_world g' = w' \<and> dg_slot g' = None"
proof (cases "t + max 0 (de_slot env t) < stop")
  case True
  let ?g = "(refresh_piece lib (\<lambda>host. fst (de_lookup env (t + max 0 (de_slot env t)) host)) i ^^ 6) g"
  have "settled i r c' w' g ?g" using refreshEndpoint_resolves [OF True assms(6)] by (intro pieces_settle i) simp
  moreover have "dialled lib names c w ?g" using dialled_pieces [OF assms(1,2) i(1)] by blast
  ultimately show ?thesis unfolding settled_def by blast
next
  case False
  then have "c' = dg_client g" "w' = dg_world g" using assms(6) by (auto simp: refreshEndpoint_def Let_def split: if_splits)
  then show ?thesis using assms(1) i(3) by blast
qed

text \<open>
  What one call of \<^verbatim>\<open>dialControl\<close> does to the client and the device is what a run of the machine
  with one dial does: the statements about interleaved dials cover the call.
\<close>

lemma dialControl_is_a_run:
  assumes "\<And>u. names (\<lambda>host. fst (de_lookup env u host))" "dialControl lib env (c, w) = (r, (c', w'), t)"
  shows "\<exists>g. dialled lib names c w g \<and> dg_client g = c' \<and> dg_world g = w' \<and> dg_slot g = None"
proof -
  let ?g0 = "dials_start c w" let ?stop = "budget_end env c" let ?gen = "snd (ep_current (cl_endpoint c))"
  let ?g1 = "?g0\<lparr>dg_dials := [\<lparr>dl_generation = ?gen, dl_phase = Attempting\<rparr>]\<rparr>"
  have "dialing lib names ?g0 ?g1" using dialing.begins [of lib names ?g0] by (simp add: dials_start_def)
  moreover have "dialing lib names ?g1 (set_phase 0 Waiting ?g1)" by (rule dialing.attemptFails) (simp_all add: phase_def)
  ultimately have d: "dialled lib names c w (set_phase 0 Waiting ?g1)" by (meson dialled.intros)
  have "(c', w') = (c, w) \<or> (\<exists>u. (c', w') = fst (snd (refreshEndpoint lib env ?stop ?gen u (c, w))))"
    using dial_loop_state assms(2) unfolding dialControl_def by fastforce
  then show ?thesis
  proof
    assume "(c', w') = (c, w)"
    then show ?thesis using dialled.start [of lib names c w] by (intro exI [of _ ?g0]) (simp add: dials_start_def)
  next
    assume "\<exists>u. (c', w') = fst (snd (refreshEndpoint lib env ?stop ?gen u (c, w)))"
    then obtain u e t' where "refreshEndpoint lib env ?stop ?gen u (c, w) = (e, (c', w'), t')" by (metis prod.collapse)
    then show ?thesis
      using refresh_reached [OF d assms(1), of 0 ?stop u e c' w' t'] by (simp add: dials_start_def)
  qed
qed

section \<open>Properties\<close>

text \<open>
  The pieces are the function. Let a dial that waits for a free semaphore be the only one
  that moves: after at most six pieces its re-resolution has the result that \<^verbatim>\<open>refreshEndpoint\<close>
  returns in one call, the client and the device are as that call leaves them, the semaphore is free
  again, and no other dial has moved.
\<close>

theorem refreshEndpoint_is_its_pieces:
  assumes "i < length (dg_dials g)" "phase g i = Waiting" "dg_slot g = None" "t + max 0 (de_slot env t) < stop"
    and "refreshEndpoint lib env stop (dl_generation (dg_dials g ! i)) t (dg_client g, dg_world g) = (r, (c, w), t')"
  shows "settled i r c w g
    ((refresh_piece lib (\<lambda>host. fst (de_lookup env (t + max 0 (de_slot env t)) host)) i ^^ 6) g)"
  using refreshEndpoint_resolves [OF assms(4,5)] by (intro pieces_settle assms(1-3)) simp

theorem refreshEndpoint_is_its_pieces_witness:
  "\<exists>w. settled 1 None ((example_client (AddrPort (Addr4 4) 7))\<lparr>cl_endpoint :=
         ep_applied (AddrPort (Addr4 5) 7) (cl_endpoint (example_client (AddrPort (Addr4 4) 7)))\<rparr>) w
     example_dials ((refresh_piece ref_lib (\<lambda>host. fst (de_lookup example_dialenv (0 + max 0 (de_slot example_dialenv 0)) host)) 1 ^^ 6)
       example_dials)"
proof -
  have d: "1 < length (dg_dials example_dials)" "phase example_dials 1 = Waiting" "dg_slot example_dials = None"
      "dl_generation (dg_dials example_dials ! 1) = 0" "dg_client example_dials = example_client (AddrPort (Addr4 4) 7)"
      "dg_world example_dials = example_pinned (AddrPort (Addr4 4) 7)"
    by (simp_all add: example_dials_def dials_start_def phase_def set_phase_def)
  have t: "0 + max 0 (de_slot example_dialenv 0) < second" by (simp add: example_dialenv_def second_def)
  obtain w where "refreshEndpoint ref_lib example_dialenv second 0 0 (example_client (AddrPort (Addr4 4) 7), example_pinned (AddrPort (Addr4 4) 7))
      = (None, ((example_client (AddrPort (Addr4 4) 7))\<lparr>cl_endpoint :=
         ep_applied (AddrPort (Addr4 5) 7) (cl_endpoint (example_client (AddrPort (Addr4 4) 7)))\<rparr>, w), 0)"
    using example_refresh [of 0 second] by (auto simp: second_def)
  from refreshEndpoint_is_its_pieces [OF d(1-3) t, unfolded d, OF this] show ?thesis by blast
qed

text \<open>
  Claim C20. One re-resolution at a time, and at most one for each generation. However many dials of a
  client fail together, and however their steps interleave: at most one is between taking and giving
  back the semaphore; a dial looks the name up at most once; the generation counts the completed
  re-resolutions; of all the dials that recorded the same generation at most one completes a
  re-resolution (short of 2^64 of them); a dial that looked the name up without completing is either
  still at it or ends with an error; and the name of a literal address is never looked up.
\<close>

theorem one_refresh_per_generation:
  assumes "dialled lib names c w g" "ep_generation (cl_endpoint c) = 0"
  shows "(\<forall>i < length (dg_dials g). \<forall>j < length (dg_dials g). in_slot (phase g i) \<longrightarrow> in_slot (phase g j) \<longrightarrow> i = j)
    \<and> distinct (dg_lookups g) \<and> set (dg_applied g) \<subseteq> set (dg_lookups g)
    \<and> ep_generation (cl_endpoint (dg_client g)) = of_nat (length (dg_applied g))
    \<and> (length (dg_applied g) \<le> 2 ^ 64 \<longrightarrow> (\<forall>i \<in> set (dg_applied g). \<forall>j \<in> set (dg_applied g).
         dl_generation (dg_dials g ! i) = dl_generation (dg_dials g ! j) \<longrightarrow> i = j))
    \<and> (\<forall>i \<in> set (dg_lookups g) - set (dg_applied g). in_slot (phase g i) \<or> (\<exists>e. phase g i = Refreshed (Some e)))
    \<and> (ep_literal (cl_endpoint c) \<longrightarrow> dg_lookups g = [])"
proof -
  have inv: "dials_inv g" by (rule dialled_inv [OF assms])
  have fresh: "i = j" if l: "length (dg_applied g) \<le> 2 ^ 64" and i: "i \<in> set (dg_applied g)" "j \<in> set (dg_applied g)"
    and e: "dl_generation (dg_dials g ! i) = dl_generation (dg_dials g ! j)" for i j
  proof -
    obtain k m where k: "k < length (dg_applied g)" "dg_applied g ! k = i" "m < length (dg_applied g)" "dg_applied g ! m = j"
      using i by (auto simp: in_set_conv_nth)
    then have "(of_nat k :: 64 word) = of_nat m" using inv e unfolding dials_inv_def by metis
    then have "k = m" using k l by (intro generation_inj) simp_all
    then show ?thesis using k by simp
  qed
  have busy: "in_slot (phase g i) \<or> (\<exists>e. phase g i = Refreshed (Some e))" if "i \<in> set (dg_lookups g) - set (dg_applied g)" for i
  proof -
    have "i < length (dg_dials g)" using inv that unfolding dials_inv_def by blast
    from inv_place [OF inv this refl] that show ?thesis by (simp add: place_ok_busy)
  qed
  have one: "in_slot (phase g i) \<Longrightarrow> in_slot (phase g j) \<Longrightarrow> i = j" if "i < length (dg_dials g)" "j < length (dg_dials g)" for i j
    using inv that unfolding dials_inv_def by (metis option.inject)
  have "distinct (dg_lookups g)" "set (dg_applied g) \<subseteq> set (dg_lookups g)"
    "ep_generation (cl_endpoint (dg_client g)) = of_nat (length (dg_applied g))"
    using inv unfolding dials_inv_def by simp_all
  moreover have "ep_literal (cl_endpoint c) \<longrightarrow> dg_lookups g = []" using dialled_literal [OF assms(1)] by simp
  ultimately show ?thesis using one fresh busy by (intro conjI) simp_all
qed

theorem one_refresh_per_generation_witness:
  "ep_generation (cl_endpoint (dg_client example_refreshed)) = 1 \<and> distinct (dg_lookups example_refreshed)
     \<and> ep_generation (cl_endpoint (dg_client example_refreshed)) = of_nat (length (dg_applied example_refreshed))"
  using one_refresh_per_generation [OF example_refreshed(1)] example_refreshed(4) by (simp add: example_client_def)

text \<open>
  Claim C14. Concurrent dials keep the device in step. As long as no call to the device has failed and the client is not closed,
  in every state that the interleaved dials reach the device has the pinned server as its only peer,
  with the address the client has recorded, or the one that the holder of the semaphore has just set
  and records next. The hypotheses say that the addresses names resolve to, and a literal one, are
  one line of text.
\<close>

theorem device_in_step_under_concurrency:
  assumes "dialled lib names c w g" "follows_uapi lib tbl" "\<And>l. names l \<Longrightarrow> names_ok l"
    and "\<And>ip. ParseAddr (ep_host (cl_endpoint c)) = Some ip \<Longrightarrow> zone_ok ip"
    and "client_sync tbl c w" "ep_generation (cl_endpoint c) = 0" "\<not> dg_deviceErr g" "\<not> cl_closed (dg_client g)"
  shows "client_sync tbl (believed g) (dg_world g)
    \<and> (believed g \<noteq> dg_client g \<longrightarrow> (\<exists>i a. dg_slot g = Some i \<and> phase g i = Applying a
         \<and> believed g = (dg_client g)\<lparr>cl_endpoint := ep_applied a (cl_endpoint (dg_client g))\<rparr>))"
  using dialled_sync [OF assms(1-6)] assms(7,8)
  by (auto simp: sync_inv_def believed_def Let_def split: option.splits dialPhase.splits)

theorem device_in_step_under_concurrency_witness:
  "client_sync (\<lambda>_ w. w) (dg_client example_refreshed) (dg_world example_refreshed)
     \<and> ep_addr (cl_endpoint (dg_client example_refreshed)) = AddrPort (Addr4 5) 7"
proof -
  have h: "ParseAddr (ep_host (cl_endpoint (example_client a))) = None" for a
    by (simp add: example_client_def) code_simp
  have "believed example_refreshed = dg_client example_refreshed" by (rule believed_free [OF example_refreshed(5)])
  with device_in_step_under_concurrency [OF example_refreshed(1) ref_follows _ _ example_client_sync _ example_refreshed(6,7)] h
  show ?thesis by (simp add: example_refreshed(3)) (simp add: example_client_def)
qed

text \<open>
  Claim C28. The semaphore is always given back. Whichever dial holds it, and wherever in its
  re-resolution it is, five pieces of its own free it; and no step of another dial takes the semaphore
  from it or moves it, so every dial that waits gets its turn if the holder is scheduled.
\<close>

theorem semaphore_is_given_back:
  assumes "dialled lib names c w g" "ep_generation (cl_endpoint c) = 0" "dg_slot g = Some i"
  shows "dg_slot ((refresh_piece lib lookup i ^^ 5) g) = None
    \<and> (\<forall>g'. dialing lib names g g' \<longrightarrow> (dg_slot g' = Some i \<and> phase g' i = phase g i) \<or> (\<exists>l. names l \<and> g' = refresh_piece lib l i g))"
  using holder_settles [of i g lib lookup] holder_stays [OF _ dialled_inv [OF assms(1,2)] assms(3)] dialled_inv [OF assms(1,2)] assms(3)
  unfolding dials_inv_def settled_def by blast

theorem semaphore_is_given_back_witness:
  "dg_slot ((refresh_piece ref_lib (\<lambda>_. Inr [Addr4 5]) 1 ^^ 5) (refresh_piece ref_lib (\<lambda>_. Inr [Addr4 5]) 1 example_dials)) = None"
proof -
  let ?g = "refresh_piece ref_lib (\<lambda>_. Inr [Addr4 5]) 1 example_dials"
  have n: "names_ok (\<lambda>_. Inr [Addr4 5])" by (simp add: names_ok_def zone_ok_def)
  have "1 < length (dg_dials example_dials)" by (simp add: example_dials_def)
  from dialled_pieces [where lookup = "\<lambda>_. Inr [Addr4 5]" and n = 1, OF example_dialled n this]
  have d: "dialled ref_lib names_ok (example_client (AddrPort (Addr4 4) 7)) (example_pinned (AddrPort (Addr4 4) 7)) ?g" by simp
  have s: "dg_slot ?g = Some 1"
    by (simp add: refresh_piece_def Let_def example_dials_def dials_start_def phase_def set_phase_def example_client_def)
  from semaphore_is_given_back [OF d _ s] show ?thesis by (simp add: example_client_def)
qed

end
