(* ===== verification/Spec2Isabelle.thy ===== *)
theory Spec2Isabelle
  imports Serving ServeCmd SendCmd AwsSecrets MsgServe Dialing
begin

text \<open>
  A verification development for gocloak: TCP services that are reachable only through a WireGuard
  tunnel held in user space. A server terminates the tunnel, reads which service a peer asks for,
  decides by the peer's tunnel address whether that peer may have it, and then pipes bytes to the
  backend. A client brings up its own tunnel, pins one server, and dials services by name.

  \<^bold>\<open>The program's parts and how they interact.\<close>
  \<^item> The server (\<^verbatim>\<open>src/server.go\<close>) owns a device (\<^verbatim>\<open>src/device.go\<close>), a watcher
    of the peers file (\<^verbatim>\<open>src/config.go\<close>) and one limiter per peer. At start-up it resolves
    its key (\<^verbatim>\<open>src/secret.go\<close>), loads the list, writes it to the device, and listens. The
    watcher calls back with the difference of two lists; the server then swaps its tables, closes
    the connections of revoked peers, and applies the difference to the device.
  \<^item> A connection is served by \<^verbatim>\<open>handleConn\<close>: it reads a hello frame
    (\<^verbatim>\<open>src/wire.go\<close>), asks the limiter and the policy (\<^verbatim>\<open>src/policy.go\<close>), dials the
    backend, checks the caller a second time, answers, and pipes.
  \<^item> The client (\<^verbatim>\<open>src/client.go\<close>) owns a device with one peer, dials through it with
    retries, may look the server's name up once more, and exchanges the hello frames.
  \<^item> Three commands: \<^verbatim>\<open>gocloak\<close> (keys, serve), \<^verbatim>\<open>gocloak-send\<close> (the client and one
    message of \<^verbatim>\<open>src/internal/msg\<close>) and \<^verbatim>\<open>gocloak-sink\<close> (the other end of that
    protocol). \<^verbatim>\<open>src/awssecrets\<close> resolves secret references to AWS for the core package.

  \<^bold>\<open>Theories and sources.\<close> Definitions keep the names of the source; a method has the
  name of its type in front or a short prefix where two would clash (\<^verbatim>\<open>srv_applyPeer\<close>), and
  the fields of a record a prefix of two letters (\<^verbatim>\<open>sv_limiters\<close> is \<^verbatim>\<open>Server.limiters\<close>).
  \<^item> The language and its library: \<^verbatim>\<open>Prelude\<close> (bytes, strings, error values and their
    chains, formatting), \<^verbatim>\<open>Netio\<close> (\<^verbatim>\<open>net.Conn\<close> as a record of what will arrive and what
    was written, with failures at every byte and every call), \<^verbatim>\<open>Netip\<close>, \<^verbatim>\<open>Base64\<close>,
    \<^verbatim>\<open>Float64\<close> (the rounding of a double), \<^verbatim>\<open>Gofmt\<close>, \<^verbatim>\<open>Flags\<close>
    (\<^verbatim>\<open>flag\<close>, \<^verbatim>\<open>time.ParseDuration\<close>).
  \<^item> \<^verbatim>\<open>Wire\<close>: \<^verbatim>\<open>src/wire.go\<close>. \<^verbatim>\<open>Policy\<close>: \<^verbatim>\<open>src/policy.go\<close>.
    \<^verbatim>\<open>Secret\<close>: \<^verbatim>\<open>src/secret.go\<close>. \<^verbatim>\<open>Device\<close>: \<^verbatim>\<open>src/device.go\<close>.
  \<^item> \<^verbatim>\<open>src/config.go\<close>: \<^verbatim>\<open>Config\<close> (both files, validation, \<^verbatim>\<open>diffPeers\<close>),
    \<^verbatim>\<open>Sanitize\<close> (decoder errors), \<^verbatim>\<open>Watcher\<close> (\<^verbatim>\<open>peerWatcher\<close>: load, event loop,
    reload, report).
  \<^item> \<^verbatim>\<open>src/server.go\<close>: \<^verbatim>\<open>Server\<close> (construction, start-up, secret cache,
    \<^verbatim>\<open>refreshPeers\<close>, \<^verbatim>\<open>applyDiff\<close>, the reload callback, the order of shutdown),
    \<^verbatim>\<open>Scrub\<close> (\<^verbatim>\<open>scrubRef\<close>), \<^verbatim>\<open>Limiter\<close> (\<^verbatim>\<open>peerLimiter\<close>),
    \<^verbatim>\<open>Pipe\<close> (\<^verbatim>\<open>pipeConns\<close>), \<^verbatim>\<open>Handler\<close> (\<^verbatim>\<open>handleConn\<close>),
    \<^verbatim>\<open>Sync\<close> (list in force against device), \<^verbatim>\<open>Serving\<close> (everything interleaved).
  \<^item> \<^verbatim>\<open>src/client.go\<close>: \<^verbatim>\<open>Client\<close> (one dial: construction, retries, \<^verbatim>\<open>refreshEndpoint\<close>
    as one call, hello exchange, close) and \<^verbatim>\<open>Dialing\<close> (any number of dials over the semaphore
    \<^verbatim>\<open>refreshing\<close> and the generation counter). \<^verbatim>\<open>AwsSecrets\<close>:
    \<^verbatim>\<open>src/awssecrets/awssecrets.go\<close>. \<^verbatim>\<open>Msg\<close> and \<^verbatim>\<open>MsgServe\<close>:
    \<^verbatim>\<open>src/internal/msg/msg.go\<close> and \<^verbatim>\<open>src/cmd/gocloak-sink/main.go\<close>.
  \<^item> \<^verbatim>\<open>Keygen\<close> and \<^verbatim>\<open>ServeCmd\<close>: \<^verbatim>\<open>src/cmd/gocloak/main.go\<close>.
    \<^verbatim>\<open>SendCmd\<close>: \<^verbatim>\<open>src/cmd/gocloak-send/main.go\<close>.
\<close>

text \<open>
  \<^bold>\<open>State, effects and concurrency.\<close> Sequential code is a function from a state record to
  its result and the next state; errors are values with their chains, so that \<^verbatim>\<open>errors.Is\<close> is
  a computation; a slice out of range is a result of its own (\<^verbatim>\<open>RuntimePanic\<close>, or no result). The limiters are shared objects and live in a store indexed by numbers. Code that
  runs beside other goroutines is a machine whose steps are the pieces between two points where
  another goroutine can matter:
  \<^item> a handler (\<^verbatim>\<open>Handler\<close>) is a record with a program counter, the locals that are live
    there, and its stack of deferred calls; \<^verbatim>\<open>handler_step\<close> is one piece, \<^verbatim>\<open>handleConn\<close>
    a run of them over a list of inputs;
  \<^item> a pipe (\<^verbatim>\<open>Pipe\<close>) is a function of its schedule, a list of events;
  \<^item> the running server (\<^verbatim>\<open>Serving\<close>) is the step relation \<^verbatim>\<open>serve\<close>: accepting,
    one piece of one handler, publishing a list, rebuilding the tables, draining one live set,
    closing one connection, cancelling and shutting down, in every order the locks allow;
    \<^verbatim>\<open>serving\<close> are its reachable states;
  \<^item> the dials of a client (\<^verbatim>\<open>Dialing\<close>) are the step relation \<^verbatim>\<open>dialing\<close>; a dial is a
    record with the generation it recorded and its place, and \<^verbatim>\<open>refresh_piece\<close> is one piece of
    \<^verbatim>\<open>refreshEndpoint\<close>: taking the semaphore, comparing the generation, the lookup, the call to
    the device, recording the address, giving the semaphore back; the client can be closed between
    any two of them;
  \<^item> \<^verbatim>\<open>msg.Serve\<close> (\<^verbatim>\<open>MsgServe\<close>) is a step relation over the accept loop, the watcher
    of the context and the handlers.

  \<^bold>\<open>Calls that wait.\<close> A read, a write or a dial may not return: a peer can stay silent, stop
  reading, or never answer. An outcome with the mark \<^const>\<open>NotReturned\<close> says so (\<^const>\<open>waiting\<close> in
  \<^verbatim>\<open>Netio\<close>). A deadline in force turns it into a timeout, and so does the deadline of a dial's
  context; a closed connection turns it into \<^verbatim>\<open>net.ErrClosed\<close>. What is left is a call that has not
  returned: the handler, the copy of a pipe or the message loop that made it stays where it is. So a
  theorem that something returns, such as that of a cancelled handler (\<^verbatim>\<open>Serving\<close>), rests on the
  deadlines the code sets and on the closing of both ends of a pipe, and where the code sets none the
  development says what follows (\<^verbatim>\<open>idle_connection_blocks_return\<close>). The client's functions are run to their end
  in one call; \<^verbatim>\<open>exchange_returns\<close> shows that under the deadline of the exchange no call in it waits. A
  lookup of a name ends with the context it is given (an outcome of the environment), and in
  \<^verbatim>\<open>Dialing\<close> it is one step that returns.

  Nothing is bounded by fuel. Loops run over a list, over the input that has arrived (which is
  finite), over a schedule, or towards an instant: the retry loop of the client stops at its
  deadline, its measure is the time left. Where a schedule is part of a statement, the length that
  is enough is proved: nine pieces decide a connection, seventeen rounds of a handler's goroutines
  finish it after a cancellation (its rank, pieces plus deferred calls, is at most seventeen), six
  pieces are a whole re-resolution and five of its holder's free the semaphore.

  \<^bold>\<open>Parameters and hypotheses.\<close> Code that is not part of the sources is an argument.
  \<^item> wireguard-go and netstack: a record of the calls made (\<^verbatim>\<open>wglib\<close>).
    \<^verbatim>\<open>follows_uapi\<close> says that a successful configuration call has the effect WireGuard
    documents on the table of peers and routes, which \<^verbatim>\<open>Device\<close> writes out; two properties also
    use that a new device has no peers and that listening does not change them. Every such property
    has a witness with a concrete device.
  \<^item> The YAML decoder, the file system and fsnotify: functions or records of outcomes, without
    hypotheses, so the statements hold whatever they return.
  \<^item> What handlers and reloads have made of the server by the end of its run, and what the accept loop
    and the watcher return: the environment of \<^verbatim>\<open>gocloak serve\<close> (\<^verbatim>\<open>sn_serving\<close> and its
    neighbours in \<^verbatim>\<open>ServeCmd\<close>); \<^verbatim>\<open>Serving\<close> has that part as a machine.
  \<^item> Name resolution, netstack's dialer and contexts: the environment of a dial; in \<^verbatim>\<open>Dialing\<close>
    each lookup is any function of a given set (\<^verbatim>\<open>names\<close>). \<^verbatim>\<open>timely\<close>
    says that an attempt ends with the context it is given, \<^verbatim>\<open>names_ok\<close> that a resolved address
    has no line feed in its zone.
  \<^item> Curve25519: a function; one property uses that its result has 32 bytes. The AWS clients: two
    functions. The text of a parse error of \<^verbatim>\<open>netip\<close>: a function of
    the text parsed (\<^verbatim>\<open>addrErr\<close>).
\<close>

text \<open>
  \<^bold>\<open>What the lemmas show.\<close>
  \<^item> Decisions. \<^verbatim>\<open>Policy\<close>: access is exactly the explicit grants. \<^verbatim>\<open>Handler\<close>: the
    pieces of \<^verbatim>\<open>handleConn\<close> together answer as one table of outcomes says (\<^verbatim>\<open>decide\<close>).
    \<^verbatim>\<open>Client\<close>: both ends agree on the answer, end to end.
  \<^item> Invariants of the running server (\<^verbatim>\<open>Serving\<close>): concurrency counts are exact, every
    live connection is tracked by the limiter in force or closed, the unauthorized get silence, and
    a cancelled handler returns.
  \<^item> Refinement of the peer list by the device (\<^verbatim>\<open>Sync\<close>: a start-up installs the list or
    leaves nothing open, a reload keeps the device in step), of one list by the
    next (\<^verbatim>\<open>Config\<close>), of a sequence of lists by the reports, one for each reload
    (\<^verbatim>\<open>Watcher\<close>), and of the client's endpoint by its device (\<^verbatim>\<open>Client\<close>).
  \<^item> Validation: what a loaded file guarantees (\<^verbatim>\<open>Config\<close>), what a reference parses to
    (\<^verbatim>\<open>Secret\<close>), which arguments a command accepts (\<^verbatim>\<open>Flags\<close>, \<^verbatim>\<open>SendCmd\<close>).
  \<^item> Discretion: references and document text do not reach error messages (\<^verbatim>\<open>Scrub\<close>,
    \<^verbatim>\<open>Sanitize\<close>, with the one form of decoder message that does let it through), a private key
    is never printed (\<^verbatim>\<open>Keygen\<close>).
  \<^item> Round trips: hello frames (\<^verbatim>\<open>Wire\<close>), UAPI text (\<^verbatim>\<open>Device\<close>, for any endpoint: a
    zone with line feeds in it adds lines, and the theorem says which), messages and
    acknowledgements (\<^verbatim>\<open>Msg\<close>), generated key files read back (\<^verbatim>\<open>Keygen\<close>).
  \<^item> Specifications: \<^verbatim>\<open>ServeConn\<close> of \<^verbatim>\<open>Msg\<close>, a loop over bytes, is one function of the
    whole stream, which cuts it at the line feeds.
  \<^item> Bounds and termination: the dial rate with the rounding of doubles (\<^verbatim>\<open>Limiter\<close>), the
    budget of a dial (\<^verbatim>\<open>Client\<close>).
  \<^item> Concurrent dials (\<^verbatim>\<open>Dialing\<close>): at most one re-resolution at a time and one completed for each
    generation, the device in step with the client in every reachable state, and the semaphore always
    given back. The pieces agree with the one call of \<^verbatim>\<open>Client\<close>, the other translation of the
    same lines (a check of the two models against each other, no more), and a whole
    \<^verbatim>\<open>dialControl\<close> is a run of the machine.
  \<^item> Flaws, stated as the code behaves: one key in two spellings, a peer that is never installed
    after a failed first installation, a timeout of zero, a message with a line feed, a reference
    that survives because it was quoted, a failing lookup that every waiting dial repeats, an
    endpoint zone that adds lines to a configuration, a decoder message kept for the marker in its
    tag, and a message sink that a silent connection keeps from ending.

  \<^bold>\<open>Interfaces.\<close> Four contracts are locales, each interpreted on the program's own
  functions: \<^verbatim>\<open>rounding\<close> (what the limiter needs of floating point; the double),
  \<^verbatim>\<open>policy_engine\<close> (what the server needs of the policy), \<^verbatim>\<open>frame_codec\<close> (a writer and
  a reader of frames; the request and the response of the hello) and \<^verbatim>\<open>secret_store\<close> (what the
  core package needs of an external resolver; the AWS resolver).

  \<^bold>\<open>Not modelled.\<close> The text of most log lines and the set-up of loggers (a handler's log
  entries are values where a statement is about them), the adapters that hand
  wireguard-go's log lines on, signal handling (a run's end is a parameter),
  \<^verbatim>\<open>NewClient\<close> (it passes the system's resolver to the modelled \<^verbatim>\<open>newClient\<close>), the
  reload hook of the tests, the draining of a timer's channel, and the \<^verbatim>\<open>main\<close> functions, which
  pass the result of a modelled function to \<^verbatim>\<open>os.Exit\<close>. \<^verbatim>\<open>src/gocloak.go\<close> is a
  comment. The memory model is that of the locks: data races outside them are not expressible.
  The arithmetic of the limiter rounds after every operation; on targets where the Go compiler fuses
  a multiplication with an addition, \<^verbatim>\<open>refill\<close> may round once less than modelled.
  The timing of the client's watchdog against the bytes of an answer is its environment's choice.
\<close>

end
